(* ===== verification/Prelude.thy ===== *)
theory Prelude
  imports Complex_Main "HOL-Library.Word" "HOL-Library.While_Combinator"
begin

text \<open>
  Shared vocabulary of the development: the C integer types as words, the control flow of a
  \<^verbatim>\<open>switch\<close> whose cases either return from the function or go on to the code behind it,
  and the facts about shifts, masks and powers of two that the component proofs use. The
  conversions from words to naturals are collected in \<open>unat_simps\<close>.
\<close>

unbundle bit_operations_syntax

type_synonym u8 = "8 word"
type_synonym u16 = "16 word"
type_synonym u32 = "32 word"
type_synonym u64 = "64 word"

text \<open>A \<^verbatim>\<open>switch\<close> case ends in \<^verbatim>\<open>return\<close> or falls out of the statement with new local variables.\<close>

datatype ('r, 'k) flow = Return 'r | Continue 'k

named_theorems unat_simps \<open>words as naturals\<close>
named_theorems c_consts \<open>constants and macros of the C headers\<close>

section \<open>Words as naturals\<close>

text \<open>A mantissa word is read as a real through its natural number.\<close>

declare of_nat_unat [simp del]

lemma unat_drop_bit [unat_simps]: "unat (drop_bit n w) = unat w div 2 ^ n"
  by (subst unat_drop_bit_eq) (simp add: drop_bit_eq_div)

lemma unat_push_bit:
  fixes w :: "'a::len word"
  assumes "unat w * 2 ^ n < 2 ^ LENGTH('a)"
  shows "unat (push_bit n w) = unat w * 2 ^ n"
proof -
  have "unat (push_bit n w) = take_bit LENGTH('a) (unat w * 2 ^ n)"
    by (subst unsigned_push_bit_eq) (simp add: push_bit_eq_mult)
  with assms show ?thesis by (simp add: take_bit_nat_eq_self)
qed

lemma unat_push_bit_mod:
  fixes w :: "'a::len word"
  shows "unat (push_bit n w) = (unat w * 2 ^ n) mod 2 ^ LENGTH('a)"
  by (subst unsigned_push_bit_eq) (simp add: push_bit_eq_mult take_bit_eq_mod)

lemma drop_bit_eq_0_iff_unat:
  fixes w :: "'a::len word"
  shows "drop_bit n w = 0 \<longleftrightarrow> unat w < 2 ^ n"
proof -
  have "drop_bit n w = 0 \<longleftrightarrow> unat (drop_bit n w) = 0"
    by (simp add: unat_eq_0)
  then show ?thesis by (simp add: unat_drop_bit div_eq_0_iff)
qed

lemma unat_take_bit [unat_simps]:
  fixes w :: "'a::len word"
  shows "unat (take_bit n w) = unat w mod 2 ^ n"
  by (subst unsigned_take_bit_eq) (simp add: take_bit_eq_mod)

lemma unat_and_mask:
  fixes w :: "'a::len word"
  shows "unat (w AND mask n) = unat w mod 2 ^ n"
  by (simp flip: take_bit_eq_mask add: unat_take_bit)

lemma unat_and_1 [unat_simps]:
  fixes w :: "'a::len word"
  shows "unat (w AND 1) = unat w mod 2"
  using unat_and_mask [of w 1] by simp

lemma unat_add_small:
  fixes a b :: "'a::len word"
  assumes "unat a + unat b < 2 ^ LENGTH('a)"
  shows "unat (a + b) = unat a + unat b"
  using assms unat_add_lem by blast

lemma unat_numeral_small:
  "numeral n < (2::nat) ^ LENGTH('a) \<Longrightarrow> unat (numeral n :: 'a::len word) = numeral n"
  by (simp add: take_bit_nat_eq_self)

lemma push_bit_eq_0_iff_unat:
  fixes w :: "'a::len word"
  assumes "n \<le> LENGTH('a)"
  shows "push_bit (LENGTH('a) - n) w = 0 \<longleftrightarrow> unat w mod 2 ^ n = 0"
proof -
  let ?L = "LENGTH('a)"
  have "push_bit (?L - n) w = 0 \<longleftrightarrow> unat (push_bit (?L - n) w) = 0"
    by (simp add: unat_eq_0)
  also have "\<dots> \<longleftrightarrow> (unat w * 2 ^ (?L - n)) mod (2 ^ n * 2 ^ (?L - n)) = 0"
    using assms by (simp add: unat_push_bit_mod flip: power_add)
  also have "\<dots> \<longleftrightarrow> unat w mod 2 ^ n = 0"
    by (simp add: mod_mult_mult2)
  finally show ?thesis .
qed

lemma unat_or_1 [unat_simps]:
  fixes w :: "'a::len word"
  shows "unat (w OR 1) = 2 * (unat w div 2) + 1"
proof -
  have "unat (w OR 1) = unat w OR 1"
    by (subst unsigned_or_eq) simp
  also have "\<dots> = 2 * (unat w div 2) + 1"
    using or_one_eq [of "unat w"] by (cases "even (unat w)") (auto elim!: oddE evenE)
  finally show ?thesis .
qed

lemma unat_of_bool [simp]: "unat (of_bool b :: 'a::len word) = of_bool b"
  by (cases b) simp_all

section \<open>Powers of two over the reals\<close>

lemma powi_nat_diff: "n \<le> m \<Longrightarrow> (2::real) powi (int m - int n) = 2 ^ (m - n)"
  by (simp flip: of_nat_diff)

lemma powi_add2: "(2::real) powi (a + b) = 2 powi a * 2 powi b"
  by (simp add: power_int_add)

lemma powi_diff2: "(2::real) powi (a - b) = 2 powi a / 2 powi b"
  by (simp add: power_int_diff)

lemma powi_shift2: "(2::real) ^ n * 2 powi (e - int n) = 2 powi e"
  by (simp add: powi_diff2 flip: power_int_of_nat)

lemma powi_shift2_Suc: "(2::real) ^ (n + 1) * 2 powi (e - int n) = 2 powi (e + 1)"
  using powi_shift2 [of "n + 1" "e + 1"] by (simp add: algebra_simps)

lemma powi_pos2 [simp]: "(0::real) < 2 powi a"
  by (simp add: zero_less_power_int)

lemma powi_less2 [simp]: "(2::real) powi a < 2 powi b \<longleftrightarrow> a < b"
  by (meson linorder_not_less one_less_numeral_iff power_int_increasing power_int_strict_increasing semiring_norm(76) one_le_numeral)

lemma powi_le2 [simp]: "(2::real) powi a \<le> 2 powi b \<longleftrightarrow> a \<le> b"
  using powi_less2 [of b a] by (simp only: linorder_not_less [symmetric])

lemma pair_snd: "snd p = b \<Longrightarrow> p = (fst p, b)"
  by (cases p) simp

lemma floor_log2_eq:
  assumes "(2::real) powi k \<le> x" and "x < 2 powi (k + 1)"
  shows "\<lfloor>log 2 x\<rfloor> = k"
proof -
  have "0 < x" using assms(1) powi_pos2 [of k] by linarith
  with assms powr_real_of_int' [of 2 k] powr_real_of_int' [of 2 "k + 1"] show ?thesis
    by (simp add: floor_log_eq_powr_iff)
qed

end
