(* ===== verification/Rounding.thy ===== *)
theory Rounding
  imports Prelude
begin

text \<open>
  The abstract specification of IEEE 754 rounding, independent of any C code: rounding a real
  to an integer in the four modes, rounding a real to a binary format with \<open>p\<close> fraction bits
  and least exponent \<open>emin\<close>, and the exceptions that go with it. The relation \<open>cell\<close> says
  that two reals lie in the same open interval, or on the same point, of a grid: a mantissa
  whose low bits were folded into a sticky bit lies in the cell of the exact value, and
  rounding to a multiple of twice the grid only depends on the cell.
\<close>

section \<open>Rounding to integers\<close>

datatype rmode = RN | RZ | RD | RU

definition half_even :: "real \<Rightarrow> int" where
  "half_even y = (if y - \<lfloor>y\<rfloor> < 1 / 2 \<or> (y - \<lfloor>y\<rfloor> = 1 / 2 \<and> even \<lfloor>y\<rfloor>) then \<lfloor>y\<rfloor> else \<lfloor>y\<rfloor> + 1)"

fun rint :: "rmode \<Rightarrow> real \<Rightarrow> int" where
  "rint RN y = half_even y"
| "rint RZ y = (if 0 \<le> y then \<lfloor>y\<rfloor> else \<lceil>y\<rceil>)"
| "rint RD y = \<lfloor>y\<rfloor>"
| "rint RU y = \<lceil>y\<rceil>"

text \<open>The same on the magnitude of a number whose sign is kept apart (\<open>True\<close> is negative).\<close>

fun rmag :: "rmode \<Rightarrow> bool \<Rightarrow> real \<Rightarrow> int" where
  "rmag RN s m = half_even m"
| "rmag RZ s m = \<lfloor>m\<rfloor>"
| "rmag RD s m = (if s then \<lceil>m\<rceil> else \<lfloor>m\<rfloor>)"
| "rmag RU s m = (if s then \<lfloor>m\<rfloor> else \<lceil>m\<rceil>)"

definition sgn_of :: "bool \<Rightarrow> real" where
  "sgn_of s = (if s then -1 else 1)"

lemma sgn_of_simps [simp]: "sgn_of True = -1" "sgn_of False = 1"
  by (simp_all add: sgn_of_def)

lemma abs_sgn_of [simp]: "\<bar>sgn_of s * x\<bar> = \<bar>x\<bar>"
  by (cases s) simp_all

lemma abs_sgn_of1 [simp]: "\<bar>sgn_of s\<bar> = 1"
  by (cases s) simp_all

lemma sgn_of_neq_0 [simp]: "sgn_of s \<noteq> 0"
  by (cases s) simp_all

lemma half_even_of_int [simp]: "half_even (of_int k) = k"
  by (simp add: half_even_def)

lemma half_even_minus: "half_even (- y) = - half_even y"
proof (cases "y = of_int \<lfloor>y\<rfloor>")
  case True
  then show ?thesis by (metis half_even_of_int of_int_minus)
next
  case False
  then have "\<lfloor>- y\<rfloor> = - \<lfloor>y\<rfloor> - 1"
    by linarith
  with False show ?thesis
    by (auto simp: half_even_def)
qed

lemma half_even_bounds: "\<lfloor>y\<rfloor> \<le> half_even y" "half_even y \<le> \<lceil>y\<rceil>"
proof -
  show "\<lfloor>y\<rfloor> \<le> half_even y" by (simp add: half_even_def)
  show "half_even y \<le> \<lceil>y\<rceil>"
  proof (cases "y = of_int \<lfloor>y\<rfloor>")
    case True
    then show ?thesis by (metis ceiling_of_int half_even_of_int order_refl)
  next
    case False
    then have "\<lceil>y\<rceil> = \<lfloor>y\<rfloor> + 1" by linarith
    then show ?thesis by (simp add: half_even_def)
  qed
qed

lemma half_even_nearest: "\<bar>of_int (half_even y) - y\<bar> \<le> \<bar>of_int k - y\<bar>"
proof -
  have "k \<le> \<lfloor>y\<rfloor> \<or> \<lfloor>y\<rfloor> + 1 \<le> k" by linarith
  then show ?thesis
  proof
    assume "k \<le> \<lfloor>y\<rfloor>"
    then have "of_int k \<le> (of_int \<lfloor>y\<rfloor> :: real)" by simp
    then show ?thesis by (auto simp: half_even_def abs_if) linarith+
  next
    assume "\<lfloor>y\<rfloor> + 1 \<le> k"
    then have "of_int \<lfloor>y\<rfloor> + 1 \<le> (of_int k :: real)" by linarith
    then show ?thesis by (auto simp: half_even_def abs_if) linarith+
  qed
qed

lemma rint_signed:
  assumes "0 < m"
  shows "rint rm (sgn_of s * m) = (if s then - rmag rm s m else rmag rm s m)"
  using assms by (cases rm; cases s) (auto simp: half_even_minus ceiling_def)

lemma rint_of_int [simp]: "rint rm (of_int k) = k"
  by (cases rm) simp_all

lemma rmag_bounds: "\<lfloor>m\<rfloor> \<le> rmag rm s m" "rmag rm s m \<le> \<lceil>m\<rceil>"
  by (cases rm; simp add: half_even_bounds; linarith)+

section \<open>Cells of a grid\<close>

definition cell :: "real \<Rightarrow> real \<Rightarrow> real \<Rightarrow> bool" where
  "cell g a b \<longleftrightarrow> \<lfloor>a / g\<rfloor> = \<lfloor>b / g\<rfloor> \<and> \<lceil>a / g\<rceil> = \<lceil>b / g\<rceil>"

lemma cell_refl [simp]: "cell g a a"
  by (simp add: cell_def)

lemma cell_trans [trans]: "cell g a b \<Longrightarrow> cell g b c \<Longrightarrow> cell g a c"
  by (simp add: cell_def)

lemma cell_sym: "cell g a b \<Longrightarrow> cell g b a"
  by (simp add: cell_def)

lemma cell_scale: "0 < c \<Longrightarrow> cell (c * g) (c * a) (c * b) \<longleftrightarrow> cell g a b"
  by (simp add: cell_def)

lemma cell_divide: "0 < c \<Longrightarrow> cell g (a / c) (b / c) \<longleftrightarrow> cell (c * g) a b"
  by (simp add: cell_def divide_divide_eq_left)

lemma ceiling_minus_floor: "\<lceil>x\<rceil> = - \<lfloor>- x :: real\<rfloor>"
  by (simp add: ceiling_def)

lemma cell_minus: "cell g (- a) (- b) \<longleftrightarrow> cell g a b"
  by (auto simp: cell_def ceiling_minus_floor)

lemma cell_add:
  assumes "g \<noteq> 0"
  shows "cell g (of_int k * g + a) (of_int k * g + b) \<longleftrightarrow> cell g a b"
  using assms by (simp add: cell_def add_divide_distrib add.commute [of "of_int k"])

lemma cell_diff:
  assumes "g \<noteq> 0"
  shows "cell g (of_int k * g - a) (of_int k * g - b) \<longleftrightarrow> cell g a b"
  using cell_add [OF assms, of k "- a" "- b"] by (simp add: cell_minus)

lemma floor_coarsen: "0 < k \<Longrightarrow> \<lfloor>x / (real k * g)\<rfloor> = \<lfloor>x / g\<rfloor> div int k"
  using floor_divide_real_eq_div [of "int k" "x / g"] by (simp add: divide_divide_eq_left mult.commute)

lemma cell_coarsen: "0 < k \<Longrightarrow> cell g a b \<Longrightarrow> cell (real k * g) a b"
  using floor_coarsen [of k "- a" g] floor_coarsen [of k "- b" g]
  by (simp add: cell_def floor_coarsen ceiling_minus_floor)

lemma cell_2_4: "cell 2 a b \<Longrightarrow> cell 4 a b"
  using cell_coarsen [of 2 2 a b] by simp

lemma cell_even_eq:
  assumes "cell g a b" and "0 < g" and "a = of_int k * g"
  shows "b = a"
proof -
  have "\<lfloor>b / g\<rfloor> = k" "\<lceil>b / g\<rceil> = k" using assms by (simp_all add: cell_def)
  then have "b / g = of_int k" by linarith
  with assms show ?thesis by (simp add: field_simps)
qed

lemma rmag_cell:
  assumes "cell (1 / 2) a b"
  shows "rmag rm s a = rmag rm s b"
proof -
  have f2: "\<lfloor>2 * a\<rfloor> = \<lfloor>2 * b\<rfloor>" and c2: "\<lceil>2 * a\<rceil> = \<lceil>2 * b\<rceil>"
    using assms by (simp_all add: cell_def mult.commute)
  have "cell 1 a b" using cell_coarsen [of 2 "1 / 2" a b] assms by simp
  then have f: "\<lfloor>a\<rfloor> = \<lfloor>b\<rfloor>" and c: "\<lceil>a\<rceil> = \<lceil>b\<rceil>" by (simp_all add: cell_def)
  have lt: "y - \<lfloor>y\<rfloor> < 1 / 2 \<longleftrightarrow> \<lfloor>2 * y\<rfloor> = 2 * \<lfloor>y\<rfloor>" for y :: real
    by (rule iffI; linarith)
  have eq: "y - \<lfloor>y\<rfloor> = 1 / 2 \<longleftrightarrow> \<lfloor>2 * y\<rfloor> = 2 * \<lfloor>y\<rfloor> + 1 \<and> \<lceil>2 * y\<rceil> = 2 * \<lfloor>y\<rfloor> + 1" for y :: real
    by (rule iffI; (intro conjI)?; linarith)
  have "half_even y = (if \<lfloor>2 * y\<rfloor> = 2 * \<lfloor>y\<rfloor> \<or> (\<lfloor>2 * y\<rfloor> = 2 * \<lfloor>y\<rfloor> + 1 \<and> \<lceil>2 * y\<rceil> = 2 * \<lfloor>y\<rfloor> + 1) \<and> even \<lfloor>y\<rfloor>
      then \<lfloor>y\<rfloor> else \<lfloor>y\<rfloor> + 1)" for y
    by (simp only: half_even_def lt eq)
  with f2 c2 f c show ?thesis by (cases rm) simp_all
qed

section \<open>Sticky right shift\<close>

text \<open>Shifting a natural right by \<open>k\<close> bits and setting the last bit when a one was lost.\<close>

definition srs :: "nat \<Rightarrow> nat \<Rightarrow> nat" where
  "srs n k = (if n mod 2 ^ k = 0 then n div 2 ^ k else 2 * (n div 2 ^ k div 2) + 1)"

lemma cell_srs: "cell 2 (srs n k) (n / 2 ^ k)"
proof (cases "n mod 2 ^ k = 0")
  case True
  then have "real n / 2 ^ k = real (n div 2 ^ k)"
    using real_of_nat_div [of "2 ^ k" n] by (simp add: mod_0_imp_dvd)
  with True show ?thesis by (simp add: srs_def)
next
  case False
  define q where "q = n div 2 ^ k"
  define h where "h = q div 2"
  have lo: "q * 2 ^ k < n"
    using False div_mult_mod_eq [of n "2 ^ k"] unfolding q_def by linarith
  have hi: "n < (q + 1) * 2 ^ k"
    using dividend_less_div_times [of "2 ^ k" n] by (simp add: q_def algebra_simps)
  have "real (q * 2 ^ k) < real n" "real n < real ((q + 1) * 2 ^ k)"
    using lo hi by (simp_all only: of_nat_less_iff)
  then have "real q < n / 2 ^ k" "n / 2 ^ k < real q + 1"
    by (simp_all add: field_simps)
  moreover have "q = 2 * h \<or> q = 2 * h + 1" unfolding h_def by presburger
  ultimately have b: "2 * real h < n / 2 ^ k" "n / 2 ^ k < 2 * real h + 2"
    by auto
  have t: "\<lfloor>t / 2\<rfloor> = int h \<and> \<lceil>t / 2\<rceil> = int h + 1" if "2 * real h < t" "t < 2 * real h + 2" for t
    using that by (simp add: floor_eq_iff ceiling_eq_iff)
  with b have "\<lfloor>n / 2 ^ k / 2\<rfloor> = int h" "\<lceil>n / 2 ^ k / 2\<rceil> = int h + 1"
    by blast+
  moreover have "\<lfloor>(2 * real h + 1) / 2\<rfloor> = int h" "\<lceil>(2 * real h + 1) / 2\<rceil> = int h + 1"
    using t [of "2 * real h + 1"] by simp_all
  moreover have "srs n k = 2 * h + 1"
    using False by (simp add: srs_def q_def h_def)
  ultimately show ?thesis by (simp add: cell_def add.commute)
qed

lemma cell_srs_shift:
  assumes "cell 2 (real n) m"
  shows "cell 2 (srs n k) (m / 2 ^ k)"
proof -
  have "cell (2 ^ k * 2) (real n) m" using cell_coarsen [of "2 ^ k" 2 "real n" m] assms by simp
  then have "cell 2 (n / 2 ^ k) (m / 2 ^ k)" by (simp add: cell_divide)
  then show ?thesis by (rule cell_trans [OF cell_srs])
qed

lemma cell4_srs_shift:
  assumes "cell 4 (real n) m"
  shows "cell 4 (srs n k) (m / 2 ^ k)"
proof -
  have "cell (2 ^ k * 4) (real n) m" using cell_coarsen [of "2 ^ k" 4 "real n" m] assms by simp
  then have "cell 4 (n / 2 ^ k) (m / 2 ^ k)" by (simp add: cell_divide)
  then show ?thesis by (rule cell_trans [OF cell_2_4 [OF cell_srs]])
qed

lemma srs_big: "0 < n \<Longrightarrow> n < 2 ^ k \<Longrightarrow> srs n k = 1"
  by (simp add: srs_def)

lemma srs_0 [simp]: "srs n 0 = n"
  by (simp add: srs_def)

lemma srs_le: "srs n k \<le> n div 2 ^ k + 1"
  by (simp add: srs_def)

lemma srs_ge: "n div 2 ^ k \<le> srs n k"
proof -
  have "q \<le> 2 * (q div 2) + 1" for q :: nat by presburger
  then show ?thesis by (simp only: srs_def split: if_split) simp
qed

lemma srs_less: "n < 2 ^ (k + j) \<Longrightarrow> 0 < j \<Longrightarrow> srs n k < 2 ^ j"
proof -
  assume "n < 2 ^ (k + j)" "0 < j"
  then have "n div 2 ^ k < 2 ^ j"
    by (simp add: less_mult_imp_div_less power_add mult.commute)
  moreover obtain i where "j = Suc i" using \<open>0 < j\<close> by (cases j) auto
  moreover have "q < 2 * N \<Longrightarrow> 2 * (q div 2) + 1 < 2 * N" for q N :: nat by presburger
  ultimately show ?thesis by (simp only: srs_def power_Suc split: if_split) simp
qed

section \<open>Rounding to a binary format\<close>

text \<open>
  A format has \<open>p\<close> fraction bits and exponents from \<open>emin\<close> to \<open>emax\<close>. The unit in the last
  place of a real is a power of two whose exponent is \<open>fexp\<close>; below \<open>2 powi emin\<close> it stays
  constant (gradual underflow). \<open>fround\<close> rounds to a multiple of that unit. \<open>uround\<close> rounds as
  if the exponent were not bounded below: a value is tiny when that result is below
  \<open>2 powi emin\<close> (tininess after rounding).
\<close>

definition fexp :: "nat \<Rightarrow> int \<Rightarrow> real \<Rightarrow> int" where
  "fexp p emin v = max emin \<lfloor>log 2 \<bar>v\<bar>\<rfloor> - int p"

definition round_at :: "rmode \<Rightarrow> int \<Rightarrow> real \<Rightarrow> real" where
  "round_at rm e v = of_int (rint rm (v / 2 powi e)) * 2 powi e"

definition fround :: "nat \<Rightarrow> int \<Rightarrow> rmode \<Rightarrow> real \<Rightarrow> real" where
  "fround p emin rm v = round_at rm (fexp p emin v) v"

definition uround :: "nat \<Rightarrow> rmode \<Rightarrow> real \<Rightarrow> real" where
  "uround p rm v = round_at rm (\<lfloor>log 2 \<bar>v\<bar>\<rfloor> - int p) v"

definition overflows :: "nat \<Rightarrow> int \<Rightarrow> int \<Rightarrow> rmode \<Rightarrow> real \<Rightarrow> bool" where
  "overflows p emin emax rm v \<longleftrightarrow> 2 powi (emax + 1) \<le> \<bar>fround p emin rm v\<bar>"

definition tiny :: "nat \<Rightarrow> int \<Rightarrow> rmode \<Rightarrow> real \<Rightarrow> bool" where
  "tiny p emin rm v \<longleftrightarrow> \<bar>uround p rm v\<bar> < 2 powi emin"

text \<open>What an overflow delivers: an infinity or the largest finite number.\<close>

fun overflow_to_inf :: "rmode \<Rightarrow> bool \<Rightarrow> bool" where
  "overflow_to_inf RN s = True"
| "overflow_to_inf RZ s = False"
| "overflow_to_inf RU s = (\<not> s)"
| "overflow_to_inf RD s = s"

lemma round_at_signed:
  assumes "0 < m"
  shows "round_at rm e (sgn_of s * m) = sgn_of s * (of_int (rmag rm s (m / 2 powi e)) * 2 powi e)"
  using rint_signed [of "m / 2 powi e" rm s] assms by (simp add: round_at_def)

text \<open>
  A positive mantissa \<open>m\<close> scaled so that \<open>p + 4\<close> bits are in front of the binary point, the
  last three of them below the unit in the last place: the form the C code rounds.
\<close>

lemma scaled_log2:
  assumes "2 ^ (p + 3) \<le> m" and "m < 2 ^ (p + 4)"
  shows "\<lfloor>log 2 (m * 2 powi (xe - int p - 3))\<rfloor> = xe"
proof (rule floor_log2_eq)
  have e: "(2::real) powi (int p + 3) = 2 ^ (p + 3)" "(2::real) powi (int p + 4) = 2 ^ (p + 4)"
    by (metis of_nat_add of_nat_numeral power_int_of_nat)+
  have "(2::real) powi xe = 2 powi (int p + 3) * 2 powi (xe - int p - 3)"
    by (simp flip: powi_add2)
  with assms(1) e show "2 powi xe \<le> m * 2 powi (xe - int p - 3)" by simp
  have "(2::real) powi (xe + 1) = 2 powi (int p + 4) * 2 powi (xe - int p - 3)"
    by (simp add: add.commute flip: powi_add2)
  with assms(2) e show "m * 2 powi (xe - int p - 3) < 2 powi (xe + 1)" by simp
qed

lemma scaled_fexp:
  assumes "2 ^ (p + 3) \<le> m" and "m < 2 ^ (p + 4)"
  shows "fexp p emin (sgn_of s * (m * 2 powi (xe - int p - 3))) = max emin xe - int p"
proof -
  have "0 < m" using assms(1) by (rule less_le_trans [rotated]) simp
  then show ?thesis using scaled_log2 [OF assms] by (simp add: fexp_def abs_mult)
qed

lemma scaled_fround:
  assumes "2 ^ (p + 3) \<le> m" and "m < 2 ^ (p + 4)" and "emin \<le> xe"
  shows "fround p emin rm (sgn_of s * (m * 2 powi (xe - int p - 3))) =
    sgn_of s * (of_int (rmag rm s (m / 8)) * 2 powi (xe - int p))"
proof -
  have "0 < m" using assms(1) by (rule less_le_trans [rotated]) simp
  moreover have "m * 2 powi (xe - int p - 3) / 2 powi (xe - int p) = m / 8"
    by (simp add: powi_diff2)
  ultimately show ?thesis
    using assms by (simp only: fround_def scaled_fexp round_at_signed max_def powi_pos2 mult_pos_pos if_True)
qed

lemma scaled_fround_denorm:
  assumes "2 ^ (p + 3) \<le> m" and "m < 2 ^ (p + 4)" and "xe \<le> emin"
  shows "fround p emin rm (sgn_of s * (m * 2 powi (xe - int p - 3))) =
    sgn_of s * (of_int (rmag rm s (m / 2 ^ nat (emin - xe) / 8)) * 2 powi (emin - int p))"
proof -
  have "0 < m" using assms(1) by (rule less_le_trans [rotated]) simp
  have "(2::real) ^ nat (emin - xe) = 2 powi (emin - xe)"
    using assms(3) by (simp add: power_int_def)
  then have "m * 2 powi (xe - int p - 3) / 2 powi (emin - int p) = m / 2 ^ nat (emin - xe) / 8"
    by (simp add: powi_diff2)
  moreover have "max emin xe = emin" using assms(3) by simp
  ultimately show ?thesis
    using \<open>0 < m\<close> assms by (simp only: fround_def scaled_fexp round_at_signed powi_pos2 mult_pos_pos)
qed

lemma scaled_uround:
  assumes "2 ^ (p + 3) \<le> m" and "m < 2 ^ (p + 4)"
  shows "uround p rm (sgn_of s * (m * 2 powi (xe - int p - 3))) =
    sgn_of s * (of_int (rmag rm s (m / 8)) * 2 powi (xe - int p))"
proof -
  have "0 < m" using assms(1) by (rule less_le_trans [rotated]) simp
  moreover have "m * 2 powi (xe - int p - 3) / 2 powi (xe - int p) = m / 8"
    by (simp add: powi_diff2)
  moreover have "\<bar>sgn_of s * (m * 2 powi (xe - int p - 3))\<bar> = m * 2 powi (xe - int p - 3)"
    using \<open>0 < m\<close> by (simp add: abs_mult)
  ultimately show ?thesis
    using scaled_log2 [OF assms] by (simp only: uround_def round_at_signed powi_pos2 mult_pos_pos)
qed

section \<open>Rounding three guard bits of a natural\<close>

definition grnd :: "rmode \<Rightarrow> bool \<Rightarrow> nat \<Rightarrow> nat" where
  "grnd rm s n = (if n mod 8 = 0 then n else
     case rm of RZ \<Rightarrow> n | RN \<Rightarrow> n + (3 + n div 8 mod 2)
     | RU \<Rightarrow> if s then n else n + 8 | RD \<Rightarrow> if s then n + 8 else n)"

lemma floor_div8: "\<lfloor>real n / 8\<rfloor> = int (n div 8)"
  using floor_divide_of_nat_eq [of n 8] by simp

lemma ceiling_div8: "n mod 8 \<noteq> 0 \<Longrightarrow> \<lceil>real n / 8\<rceil> = int (n div 8) + 1"
proof -
  assume "n mod 8 \<noteq> 0"
  then have "n div 8 * 8 < n" "n < n div 8 * 8 + 8" using div_mult_mod_eq [of n 8] by linarith+
  then have "real (n div 8 * 8) < real n" "real n < real (n div 8 * 8 + 8)"
    by (simp_all only: of_nat_less_iff)
  then show ?thesis by (simp add: ceiling_eq_iff)
qed

lemma half_even_div8:
  assumes "n mod 8 \<noteq> 0"
  shows "half_even (real n / 8) = int ((n + (3 + n div 8 mod 2)) div 8)"
proof -
  define q r where "q = n div 8" and "r = n mod 8"
  have n: "n = 8 * q + r" and r: "0 < r" "r < 8" using assms by (simp_all add: q_def r_def)
  have fl: "\<lfloor>real n / 8\<rfloor> = int q" by (simp add: floor_div8 q_def)
  have "real n / 8 - real q = r / 8" by (simp add: n field_simps)
  then have he: "half_even (real n / 8) = (if r < 4 \<or> (r = 4 \<and> even q) then int q else int q + 1)"
    unfolding half_even_def fl by auto
  have "(n + (3 + q mod 2)) div 8 = q + (r + (3 + q mod 2)) div 8"
    by (simp add: n add.assoc)
  moreover have "(r + (3 + q mod 2)) div 8 = (if r < 4 \<or> (r = 4 \<and> even q) then 0 else 1)"
    using r by (cases "even q") (auto simp: even_iff_mod_2_eq_zero odd_iff_mod_2_eq_one div_eq_0_iff
      div_nat_eqI intro: div_nat_eqI)
  ultimately show ?thesis by (simp add: he flip: q_def)
qed

lemma rmag_div8: "rmag rm s (real n / 8) = int (grnd rm s n div 8)"
proof (cases "n mod 8 = 0")
  case True
  then obtain k where "n = 8 * k" by auto
  then have "real n / 8 = of_int (int k)" "grnd rm s n div 8 = k" by (simp_all add: grnd_def)
  then show ?thesis by (cases rm) (simp_all only: rmag.simps half_even_of_int floor_of_int ceiling_of_int if_cancel)
next
  case False
  then show ?thesis
    by (cases rm) (auto simp: grnd_def half_even_div8 floor_div8 ceiling_div8)
qed

lemma grnd_le: "grnd rm s n \<le> n + 8"
  by (cases rm) (auto simp: grnd_def)

lemma grnd_ge: "n \<le> grnd rm s n"
  by (cases rm) (auto simp: grnd_def)

lemma cell4_bounds:
  assumes "cell 4 (real n) m" and "2 ^ (p + 3) \<le> n" and "n < 2 ^ (p + 4)"
  shows "2 ^ (p + 3) \<le> m" and "m < 2 ^ (p + 4)"
proof -
  have f: "\<lfloor>real n / 4\<rfloor> = \<lfloor>m / 4\<rfloor>" using assms(1) by (simp add: cell_def)
  have fl: "\<lfloor>real n / 4\<rfloor> = int (n div 4)" using floor_divide_of_nat_eq [of n 4] by simp
  have "2 ^ (p + 1) \<le> n div 4" "n div 4 < 2 ^ (p + 2)"
    using assms(2,3) by (simp_all add: power_add)
  then have "int (2 ^ (p + 1)) \<le> \<lfloor>m / 4\<rfloor>" "\<lfloor>m / 4\<rfloor> < int (2 ^ (p + 2))"
    unfolding f [symmetric] fl by (simp_all only: of_nat_le_iff of_nat_less_iff)
  then have "(2::real) ^ (p + 1) \<le> m / 4" "m / 4 < 2 ^ (p + 2)"
    by (simp_all add: le_floor_iff floor_less_iff)
  then show "2 ^ (p + 3) \<le> m" "m < 2 ^ (p + 4)" by (simp_all add: power_add)
qed

text \<open>Rounding up to a power of two happens alike with one bit less.\<close>

lemma rmag_half:
  assumes "y < real (2 * n)" and "rmag rm s y = int (2 * n)"
  shows "rmag rm s (y / 2) = int n"
proof -
  have "\<lfloor>y\<rfloor> < int (2 * n)" using assms(1) by (simp add: floor_less_iff)
  then have up: "\<lfloor>y\<rfloor> + 1 = int (2 * n)" "\<lceil>y\<rceil> = int (2 * n)"
    using assms(2) rmag_bounds(2) [of rm s y] ceiling_diff_floor_le_1 [of y] by linarith+
  then have "2 * real n - 1 < y" using rmag_bounds(2) by linarith
  then have h: "\<lceil>y / 2\<rceil> = int n" "\<lfloor>y / 2\<rfloor> = int n - 1"
    using assms(1) by (simp_all add: ceiling_eq_iff floor_eq_iff)
  show ?thesis
  proof (cases rm)
    case RN
    then have "half_even y \<noteq> \<lfloor>y\<rfloor>" using assms(2) up by simp
    then have "1 / 2 \<le> y - \<lfloor>y\<rfloor>" by (auto simp: half_even_def split: if_splits)
    then have "1 / 2 < y / 2 - \<lfloor>y / 2\<rfloor>" using up h by linarith
    then show ?thesis using RN h by (simp add: half_even_def)
  qed (use assms(2) up h in \<open>auto split: if_splits\<close>)
qed

lemma rmag_grnd:
  assumes "cell 4 (real n) m"
  shows "rmag rm s (m / 8) = int (grnd rm s n div 8)"
proof -
  have "cell (1 / 2) (m / 8) (real n / 8)" using assms by (simp add: cell_divide cell_sym)
  then show ?thesis using rmag_cell rmag_div8 by metis
qed

lemma cell_mod8:
  assumes "cell 4 (real n) m"
  shows "n mod 8 = 0 \<longleftrightarrow> m / 8 \<in> \<int>"
proof
  assume "n mod 8 = 0"
  then obtain k where "n = 8 * k" by auto
  then have "m = real n" using cell_even_eq [OF assms, of "2 * int k"] by simp
  with \<open>n = 8 * k\<close> show "m / 8 \<in> \<int>" by simp
next
  assume "m / 8 \<in> \<int>"
  then obtain k where "m = of_int (2 * k) * 4" by (auto elim!: Ints_cases simp: field_simps)
  then have "real n = m" using cell_even_eq [OF cell_sym [OF assms], of "2 * k"] by simp
  with \<open>m = of_int (2 * k) * 4\<close> have "int n = 8 * k" by linarith
  then show "n mod 8 = 0" by presburger
qed

end
