(* ===== verification/Ieee754.thy ===== *)
theory Ieee754
  imports Rounding
begin

text \<open>
  The parts of the emulator library that both precisions share
  (\<^verbatim>\<open>arch/mips/math-emu/ieee754.h\<close>, \<^verbatim>\<open>ieee754int.h\<close>, \<^verbatim>\<open>ieee754.c\<close>, \<^verbatim>\<open>ieee754xcpt.c\<close>): the classes
  of numbers, the exception and rounding constants, and the control and status register
  \<^verbatim>\<open>ieee754_csr\<close>. The register is a record with one field per bit field of
  \<^verbatim>\<open>struct _ieee754_csr\<close>; \<open>csr_of_fcr31\<close> and \<open>fcr31_of_csr\<close> are the aliasing of that struct
  with the 32 bit word \<^verbatim>\<open>current->thread.fpu.fcr31\<close>. Functions that update the register take
  it as their first argument and return it first. A sign is a \<open>bool\<close>, true for the sign bit 1.
\<close>

section \<open>Constants\<close>

datatype ieee754_class = CLASS_NORM | CLASS_ZERO | CLASS_DNORM | CLASS_INF | CLASS_SNAN | CLASS_QNAN

primrec class_num :: "ieee754_class \<Rightarrow> nat" where
  "class_num CLASS_NORM = 0"
| "class_num CLASS_ZERO = 1"
| "class_num CLASS_DNORM = 2"
| "class_num CLASS_INF = 3"
| "class_num CLASS_SNAN = 4"
| "class_num CLASS_QNAN = 5"

abbreviation IEEE754_INEXACT :: "5 word" where "IEEE754_INEXACT \<equiv> 0x01"
abbreviation IEEE754_UNDERFLOW :: "5 word" where "IEEE754_UNDERFLOW \<equiv> 0x02"
abbreviation IEEE754_OVERFLOW :: "5 word" where "IEEE754_OVERFLOW \<equiv> 0x04"
abbreviation IEEE754_ZERO_DIVIDE :: "5 word" where "IEEE754_ZERO_DIVIDE \<equiv> 0x08"
abbreviation IEEE754_INVALID_OPERATION :: "5 word" where "IEEE754_INVALID_OPERATION \<equiv> 0x10"

abbreviation IEEE754_CLT :: "4 word" where "IEEE754_CLT \<equiv> 0x01"
abbreviation IEEE754_CEQ :: "4 word" where "IEEE754_CEQ \<equiv> 0x02"
abbreviation IEEE754_CGT :: "4 word" where "IEEE754_CGT \<equiv> 0x04"
abbreviation IEEE754_CUN :: "4 word" where "IEEE754_CUN \<equiv> 0x08"

abbreviation IEEE754_RN :: "2 word" where "IEEE754_RN \<equiv> 0"
abbreviation IEEE754_RZ :: "2 word" where "IEEE754_RZ \<equiv> 1"
abbreviation IEEE754_RD :: "2 word" where "IEEE754_RD \<equiv> 2"
abbreviation IEEE754_RU :: "2 word" where "IEEE754_RU \<equiv> 3"

abbreviation SP_EBIAS :: int where "SP_EBIAS \<equiv> 127"
abbreviation SP_EMIN :: int where "SP_EMIN \<equiv> - 126"
abbreviation SP_EMAX :: int where "SP_EMAX \<equiv> 127"
abbreviation SP_MBITS :: nat where "SP_MBITS \<equiv> 23"
abbreviation DP_EBIAS :: int where "DP_EBIAS \<equiv> 1023"
abbreviation DP_EMIN :: int where "DP_EMIN \<equiv> - 1022"
abbreviation DP_EMAX :: int where "DP_EMAX \<equiv> 1023"
abbreviation DP_MBITS :: nat where "DP_MBITS \<equiv> 52"

section \<open>The control and status register\<close>

record ieee754_csr =
  csr_pad0 :: "7 word"
  csr_nod :: "1 word"
  csr_c :: "1 word"
  csr_pad1 :: "5 word"
  csr_cx :: "6 word"
  csr_mx :: "5 word"
  csr_sx :: "5 word"
  csr_rm :: "2 word"

definition csr_of_fcr31 :: "u32 \<Rightarrow> ieee754_csr" where
  "csr_of_fcr31 w = \<lparr>
     csr_pad0 = ucast (drop_bit 25 w), csr_nod = ucast (drop_bit 24 w),
     csr_c = ucast (drop_bit 23 w), csr_pad1 = ucast (drop_bit 18 w),
     csr_cx = ucast (drop_bit 12 w), csr_mx = ucast (drop_bit 7 w),
     csr_sx = ucast (drop_bit 2 w), csr_rm = ucast w \<rparr>"

definition fcr31_of_csr :: "ieee754_csr \<Rightarrow> u32" where
  "fcr31_of_csr c =
     push_bit 25 (ucast (csr_pad0 c)) OR push_bit 24 (ucast (csr_nod c)) OR
     push_bit 23 (ucast (csr_c c)) OR push_bit 18 (ucast (csr_pad1 c)) OR
     push_bit 12 (ucast (csr_cx c)) OR push_bit 7 (ucast (csr_mx c)) OR
     push_bit 2 (ucast (csr_sx c)) OR ucast (csr_rm c)"

definition CLEARCX :: "ieee754_csr \<Rightarrow> ieee754_csr" where
  "CLEARCX c = c\<lparr>csr_cx := 0\<rparr>"

definition SETCX :: "5 word \<Rightarrow> ieee754_csr \<Rightarrow> ieee754_csr" where
  "SETCX x c = c\<lparr>csr_cx := csr_cx c OR ucast x, csr_sx := csr_sx c OR x\<rparr>"

text \<open>\<^verbatim>\<open>SETANDTESTCX(x)\<close> also delivers whether an exception in \<open>x\<close> is enabled.\<close>

definition SETANDTESTCX :: "5 word \<Rightarrow> ieee754_csr \<Rightarrow> ieee754_csr \<times> bool" where
  "SETANDTESTCX x c = (SETCX x c, csr_mx (SETCX x c) AND x \<noteq> 0)"

definition TSTX :: "ieee754_csr \<Rightarrow> bool" where
  "TSTX c \<longleftrightarrow> csr_cx c AND ucast (csr_mx c) \<noteq> 0"

definition ieee754_getrm :: "ieee754_csr \<Rightarrow> 2 word" where
  "ieee754_getrm c = csr_rm c"

definition ieee754_setrm :: "ieee754_csr \<Rightarrow> 2 word \<Rightarrow> ieee754_csr \<times> 2 word" where
  "ieee754_setrm c rm = (c\<lparr>csr_rm := rm\<rparr>, rm)"

definition ieee754_getcx :: "ieee754_csr \<Rightarrow> 6 word" where
  "ieee754_getcx c = csr_cx c"

definition ieee754_cxtest :: "ieee754_csr \<Rightarrow> 5 word \<Rightarrow> bool" where
  "ieee754_cxtest c n \<longleftrightarrow> csr_cx c AND ucast n \<noteq> 0"

definition ieee754_getsx :: "ieee754_csr \<Rightarrow> 5 word" where
  "ieee754_getsx c = csr_sx c"

definition ieee754_clrsx :: "ieee754_csr \<Rightarrow> ieee754_csr \<times> 5 word" where
  "ieee754_clrsx c = (c\<lparr>csr_sx := 0\<rparr>, 0)"

definition ieee754_sxtest :: "ieee754_csr \<Rightarrow> 5 word \<Rightarrow> bool" where
  "ieee754_sxtest c n \<longleftrightarrow> csr_sx c AND n \<noteq> 0"

text \<open>
  \<^verbatim>\<open>ieee754_xcpt\<close> reports the exception with \<^verbatim>\<open>printk\<close> and leaves the result in its context as it
  is. The two integer wrappers return that result.
\<close>

definition ieee754_xcpt :: "'v \<Rightarrow> 'v" where
  "ieee754_xcpt rv = rv"

definition ieee754si_xcpt :: "ieee754_csr \<Rightarrow> u32 \<Rightarrow> u32" where
  "ieee754si_xcpt c r = (if \<not> TSTX c then r else ieee754_xcpt r)"

definition ieee754di_xcpt :: "ieee754_csr \<Rightarrow> u64 \<Rightarrow> u64" where
  "ieee754di_xcpt c r = (if \<not> TSTX c then r else ieee754_xcpt r)"

definition ieee754si_indef :: u32 where
  "ieee754si_indef = 0x7FFFFFFF"

definition ieee754di_indef :: u64 where
  "ieee754di_indef = drop_bit 1 (NOT 0)"

section \<open>Facts about the register\<close>

text \<open>The rounding mode the field \<^verbatim>\<open>rm\<close> stands for, and whether underflow traps.\<close>

definition rmode_of :: "ieee754_csr \<Rightarrow> rmode" where
  "rmode_of c = (if csr_rm c = IEEE754_RN then RN else if csr_rm c = IEEE754_RZ then RZ
     else if csr_rm c = IEEE754_RD then RD else RU)"

definition uf_enabled :: "ieee754_csr \<Rightarrow> bool" where
  "uf_enabled c \<longleftrightarrow> csr_mx c AND IEEE754_UNDERFLOW \<noteq> 0"

lemma word2_cases: "(r::2 word) = 0 \<or> r = 1 \<or> r = 2 \<or> r = 3"
proof -
  have "unat r < 4" using unsigned_less [of r, where ?'a = nat] by simp
  then have "unat r = 0 \<or> unat r = 1 \<or> unat r = 2 \<or> unat r = 3" by arith
  then show ?thesis by (simp only: word_unat_eq_iff) simp
qed

lemma rm_cases:
  obtains "csr_rm c = 0" "rmode_of c = RN" | "csr_rm c = 1" "rmode_of c = RZ"
  | "csr_rm c = 2" "rmode_of c = RD" | "csr_rm c = 3" "rmode_of c = RU"
  using word2_cases [of "csr_rm c"] by (auto simp: rmode_of_def)

lemma word1_cases: "(b::1 word) = 0 \<or> b = 1"
proof -
  have "unat b < 2" using unsigned_less [of b, where ?'a = nat] by simp
  then have "unat b = 0 \<or> unat b = Suc 0" by arith
  then show ?thesis by (simp only: word_unat_eq_iff) simp
qed

lemma SETCX_simps [simp]:
  "csr_rm (SETCX x c) = csr_rm c" "csr_nod (SETCX x c) = csr_nod c" "csr_mx (SETCX x c) = csr_mx c"
  "csr_cx (SETCX x c) = csr_cx c OR ucast x" "csr_sx (SETCX x c) = csr_sx c OR x"
  "rmode_of (SETCX x c) = rmode_of c" "uf_enabled (SETCX x c) = uf_enabled c"
  by (simp_all add: SETCX_def rmode_of_def uf_enabled_def)

lemma CLEARCX_simps [simp]:
  "csr_rm (CLEARCX c) = csr_rm c" "csr_nod (CLEARCX c) = csr_nod c" "csr_mx (CLEARCX c) = csr_mx c"
  "csr_cx (CLEARCX c) = 0" "csr_sx (CLEARCX c) = csr_sx c"
  "rmode_of (CLEARCX c) = rmode_of c" "uf_enabled (CLEARCX c) = uf_enabled c"
  by (simp_all add: CLEARCX_def rmode_of_def uf_enabled_def)

lemma SETCX_SETCX: "SETCX a (SETCX b c) = SETCX (b OR a) c"
proof -
  have "ucast b OR ucast a = (ucast (b OR a) :: 6 word)"
    by (rule bit_word_eqI) (auto simp: bit_simps)
  then show ?thesis by (simp add: SETCX_def or.assoc)
qed

lemma SETCX_0 [simp]: "SETCX 0 c = c"
  by (simp add: SETCX_def)

lemma xcpt_simps [simp]:
  "ieee754_xcpt v = v" "ieee754si_xcpt c i = i" "ieee754di_xcpt c l = l"
  by (simp_all add: ieee754_xcpt_def ieee754si_xcpt_def ieee754di_xcpt_def)

lemma csr_of_fcr31_inverse: "csr_of_fcr31 (fcr31_of_csr c) = c"
proof -
  have "csr_pad0 (csr_of_fcr31 (fcr31_of_csr c)) = csr_pad0 c"
    "csr_nod (csr_of_fcr31 (fcr31_of_csr c)) = csr_nod c"
    "csr_c (csr_of_fcr31 (fcr31_of_csr c)) = csr_c c"
    "csr_pad1 (csr_of_fcr31 (fcr31_of_csr c)) = csr_pad1 c"
    "csr_cx (csr_of_fcr31 (fcr31_of_csr c)) = csr_cx c"
    "csr_mx (csr_of_fcr31 (fcr31_of_csr c)) = csr_mx c"
    "csr_sx (csr_of_fcr31 (fcr31_of_csr c)) = csr_sx c"
    "csr_rm (csr_of_fcr31 (fcr31_of_csr c)) = csr_rm c"
    unfolding csr_of_fcr31_def fcr31_of_csr_def ieee754_csr.select_convs
    by (rule bit_word_eqI; auto simp: bit_simps dest: bit_imp_le_length)+
  then show ?thesis by (cases c) (simp add: csr_of_fcr31_def)
qed

lemma fcr31_of_csr_inverse: "fcr31_of_csr (csr_of_fcr31 w) = w"
proof (rule bit_word_eqI)
  fix n assume "n < LENGTH(32)"
  have shift2: "2 \<le> n \<Longrightarrow> Suc (Suc (n - 2)) = n" by simp
  from \<open>n < LENGTH(32)\<close> have "n < 2 \<or> 2 \<le> n \<and> n < 7 \<or> 7 \<le> n \<and> n < 12 \<or> 12 \<le> n \<and> n < 18 \<or> 18 \<le> n \<and> n < 23 \<or>
    n = 23 \<or> n = 24 \<or> 25 \<le> n \<and> n < 32"
    by auto
  then show "bit (fcr31_of_csr (csr_of_fcr31 w)) n = bit w n"
    unfolding csr_of_fcr31_def fcr31_of_csr_def ieee754_csr.select_convs
    by (elim disjE conjE) (auto simp: bit_simps shift2)
qed

lemma csr_reset: "csr_nod (csr_of_fcr31 0) = 0" "rmode_of (csr_of_fcr31 0) = RN"
  by (simp_all add: csr_of_fcr31_def rmode_of_def)

end
