(* ===== verification/Softfloat.thy ===== *)
theory Softfloat
  imports Ieee754
begin

text \<open>
  The single and the double precision files of the library are the same text over different
  widths. This theory holds that text once, for words of any length: the sticky right shift, the
  normalising loops, the rounding of the three guard bits, and \<open>fp_format\<close>, the body of
  \<^verbatim>\<open>ieee754sp_format\<close> and \<^verbatim>\<open>ieee754dp_format\<close>. The theories of the two precisions state
  the code with its own constants and show that it is an instance. What an encoding has to promise
  (the meaning of the packed words) is the locale \<open>fp_encoding\<close>; inside it \<open>fp_format\<close> is
  proved to deliver the correctly rounded result and the right exceptions.
\<close>

section \<open>Code shared by both precisions\<close>

text \<open>Rounding of the three guard, round and sticky bits (\<^verbatim>\<open>get_rounding\<close> of both files).\<close>

definition get_rounding :: "ieee754_csr \<Rightarrow> bool \<Rightarrow> 'a::len word \<Rightarrow> 'a word" where
  "get_rounding c sn xm =
     (if xm AND (push_bit 3 1 - 1) \<noteq> 0 then
        if csr_rm c = IEEE754_RZ then xm
        else if csr_rm c = IEEE754_RN then xm + (0x3 + (drop_bit 3 xm AND 1))
        else if csr_rm c = IEEE754_RU then (if \<not> sn then xm + 0x8 else xm)
        else (if sn then xm + 0x8 else xm)
      else xm)"

text \<open>The 3 bit extended sticky right shift with its cut-off at \<open>p + 3\<close> bits.\<close>

definition xsrs :: "nat \<Rightarrow> int \<Rightarrow> 'a::len word \<Rightarrow> 'a word" where
  "xsrs p rs v = (if rs > int p + 3 then 1
     else drop_bit (nat rs) v OR of_bool (push_bit (LENGTH('a) - nat rs) v \<noteq> 0))"

definition xsrs1 :: "'a::len word \<Rightarrow> 'a word" where
  "xsrs1 v = drop_bit 1 v OR (v AND 1)"

text \<open>\<^verbatim>\<open>while ((m >> k) == 0) { m <<= 1; e--; }\<close> and \<^verbatim>\<open>while (m >> k) { e++; m = (m >> 1) | (m & 1); }\<close>\<close>

definition norm_up :: "nat \<Rightarrow> 'a::len word \<times> int \<Rightarrow> 'a word \<times> int" where
  "norm_up k = while (\<lambda>(m, e). drop_bit k m = 0) (\<lambda>(m, e). (push_bit 1 m, e - 1))"

definition norm_down :: "nat \<Rightarrow> 'a::len word \<times> int \<Rightarrow> 'a word \<times> int" where
  "norm_down k = while (\<lambda>(m, e). drop_bit k m \<noteq> 0) (\<lambda>(m, e). (xsrs1 m, e + 1))"

text \<open>
  The body of the two format functions, in its three steps: a number below the normal range is
  shifted to the least exponent, the guard bits are rounded away, and the result is packed.
\<close>

definition fp_denorm ::
  "nat \<Rightarrow> int \<Rightarrow> ieee754_csr \<Rightarrow> bool \<Rightarrow> int \<Rightarrow> 'a::len word \<Rightarrow> ieee754_csr \<times> int \<times> 'a word" where
  "fp_denorm p emin c sn xe xm =
     (if xe < emin then
        if xe = emin - 1 \<and> drop_bit (p + 1 + 3) (get_rounding c sn xm) \<noteq> 0 then
          (SETCX IEEE754_INEXACT c, xe + 1,
           drop_bit 1 (get_rounding c sn xm) AND NOT (push_bit 3 1 - 1))
        else (c, xe + (emin - xe), xsrs p (emin - xe) xm)
      else (c, xe, xm))"

definition fp_guard ::
  "nat \<Rightarrow> ieee754_csr \<Rightarrow> bool \<Rightarrow> int \<Rightarrow> 'a::len word \<Rightarrow> ieee754_csr \<times> int \<times> 'a word" where
  "fp_guard p c sn xe xm =
     (if xm AND (push_bit 3 1 - 1) \<noteq> 0 then
        let c = SETCX IEEE754_INEXACT c;
            c = (if xm AND push_bit 3 (push_bit p 1) = 0 then SETCX IEEE754_UNDERFLOW c else c);
            xm = get_rounding c sn xm
        in if drop_bit (p + 1 + 3) xm \<noteq> 0 then (c, xe + 1, drop_bit 1 xm) else (c, xe, xm)
      else (c, xe, xm))"

definition fp_pack ::
  "nat \<Rightarrow> int \<Rightarrow> int \<Rightarrow> int \<Rightarrow> (bool \<Rightarrow> 'a::len word) \<Rightarrow> (bool \<Rightarrow> 'a word) \<Rightarrow>
   (bool \<Rightarrow> int \<Rightarrow> 'a word \<Rightarrow> 'a word) \<Rightarrow>
   ieee754_csr \<Rightarrow> bool \<Rightarrow> int \<Rightarrow> 'a word \<Rightarrow> ieee754_csr \<times> 'a word" where
  "fp_pack p emin emax ebias finf fbig fbuild c sn xe xm =
     (if xe > emax then
        (SETCX IEEE754_INEXACT (SETCX IEEE754_OVERFLOW c),
         if csr_rm c = IEEE754_RN then finf sn
         else if csr_rm c = IEEE754_RZ then fbig sn
         else if csr_rm c = IEEE754_RU then (if \<not> sn then finf False else fbig True)
         else (if \<not> sn then fbig False else finf True))
      else if xm AND push_bit p 1 = 0 then
        (if csr_mx c AND IEEE754_UNDERFLOW \<noteq> 0 then SETCX IEEE754_UNDERFLOW c else c,
         fbuild sn (emin - 1 + ebias) xm)
      else (c, fbuild sn (xe + ebias) (xm AND NOT (push_bit p 1))))"

definition fp_format ::
  "nat \<Rightarrow> int \<Rightarrow> int \<Rightarrow> int \<Rightarrow> (bool \<Rightarrow> 'a::len word) \<Rightarrow> (bool \<Rightarrow> 'a word) \<Rightarrow> (bool \<Rightarrow> 'a word) \<Rightarrow>
   (bool \<Rightarrow> 'a word) \<Rightarrow> (bool \<Rightarrow> int \<Rightarrow> 'a word \<Rightarrow> 'a word) \<Rightarrow>
   ieee754_csr \<Rightarrow> bool \<Rightarrow> int \<Rightarrow> 'a word \<Rightarrow> ieee754_csr \<times> 'a word" where
  "fp_format p emin emax ebias fzero fleast finf fbig fbuild c sn xe xm =
     (if xe < emin \<and> csr_nod c \<noteq> 0 then
        (SETCX IEEE754_INEXACT (SETCX IEEE754_UNDERFLOW c),
         if csr_rm c = IEEE754_RN then fzero sn
         else if csr_rm c = IEEE754_RZ then fzero sn
         else if csr_rm c = IEEE754_RU then (if \<not> sn then fleast False else fzero True)
         else (if \<not> sn then fzero False else fleast True))
      else
        let (c, xe, xm) = fp_denorm p emin c sn xe xm;
            (c, xe, xm) = fp_guard p c sn xe xm
        in fp_pack p emin emax ebias finf fbig fbuild c sn xe (drop_bit 3 xm))"

section \<open>Specification of a rounded result\<close>

text \<open>
  \<open>fp_rounds\<close>: the word \<open>r\<close> encodes the correctly rounded value of the nonzero real \<open>v\<close>.
  \<open>ieee_flags\<close>: the exceptions the operation signals. Underflow is signalled for a tiny result
  that is inexact, or for every tiny result when its trap is enabled.
\<close>

definition fp_rounds ::
  "nat \<Rightarrow> int \<Rightarrow> int \<Rightarrow> ('a::len word \<Rightarrow> bool) \<Rightarrow> ('a word \<Rightarrow> bool) \<Rightarrow> ('a word \<Rightarrow> real) \<Rightarrow>
   (bool \<Rightarrow> 'a word) \<Rightarrow> (bool \<Rightarrow> 'a word) \<Rightarrow> rmode \<Rightarrow> real \<Rightarrow> 'a word \<Rightarrow> bool" where
  "fp_rounds p emin emax fin neg val finf fbig rm v r \<longleftrightarrow>
     (if overflows p emin emax rm v then
        r = (if overflow_to_inf rm (v < 0) then finf (v < 0) else fbig (v < 0))
      else fin r \<and> neg r = (v < 0) \<and> val r = fround p emin rm v)"

definition ieee_flags :: "nat \<Rightarrow> int \<Rightarrow> int \<Rightarrow> bool \<Rightarrow> rmode \<Rightarrow> real \<Rightarrow> 5 word" where
  "ieee_flags p emin emax trap rm v =
     (if overflows p emin emax rm v then IEEE754_OVERFLOW OR IEEE754_INEXACT
      else (if fround p emin rm v \<noteq> v then IEEE754_INEXACT else 0) OR
           (if tiny p emin rm v \<and> (fround p emin rm v \<noteq> v \<or> trap) then IEEE754_UNDERFLOW else 0))"

section \<open>The shared code on naturals\<close>

lemma and_7_iff:
  fixes w :: "'a::len word"
  assumes "3 \<le> LENGTH('a)"
  shows "w AND (push_bit 3 1 - 1) = 0 \<longleftrightarrow> unat w mod 8 = 0"
proof -
  have "push_bit 3 1 - 1 = (mask 3 :: 'a word)" by (simp add: mask_eq_exp_minus_1)
  then show ?thesis using unat_and_mask [of w 3] unat_eq_0 [of "w AND mask 3"] by simp
qed

lemma and_hidden_iff:
  fixes w :: "'a::len word"
  assumes "unat w < 2 ^ (k + 1)" and "k < LENGTH('a)"
  shows "w AND push_bit k 1 = 0 \<longleftrightarrow> unat w < 2 ^ k"
proof -
  have "w AND push_bit k 1 = 0 \<longleftrightarrow> \<not> bit w k"
    by (simp add: and_exp_eq_0_iff_not_bit)
  also have "bit w k \<longleftrightarrow> bit (unat w) k"
    by (simp add: bit_simps)
  also have "bit (unat w) k \<longleftrightarrow> odd (unat w div 2 ^ k)"
    by (rule bit_iff_odd)
  also have "\<not> odd (unat w div 2 ^ k) \<longleftrightarrow> unat w < 2 ^ k"
  proof (cases "unat w < 2 ^ k")
    case False
    then have "unat w div 2 ^ k = 1" using assms(1) by (intro div_nat_eqI) auto
    with False show ?thesis by simp
  qed simp
  finally show ?thesis .
qed

lemma unat_clear_hidden:
  fixes w :: "'a::len word"
  assumes "2 ^ k \<le> unat w" and "unat w < 2 ^ (k + 1)" and "k < LENGTH('a)"
  shows "unat (w AND NOT (push_bit k 1)) = unat w - 2 ^ k"
proof -
  have b: "bit w k" using and_hidden_iff [of w k] assms by (simp add: and_exp_eq_0_iff_not_bit)
  have "w = (w AND NOT (push_bit k 1)) OR push_bit k 1"
    by (rule bit_word_eqI) (use b in \<open>auto simp: bit_simps\<close>)
  also have "\<dots> = (w AND NOT (push_bit k 1)) + push_bit k 1"
    by (rule disjunctive_add [symmetric]) (auto simp: bit_simps)
  finally have "w - push_bit k 1 = w AND NOT (push_bit k 1)" by (metis add_diff_cancel_right')
  moreover have "unat (push_bit k (1::'a word)) = 2 ^ k"
    using assms(3) unat_push_bit [of "1::'a word" k] by simp
  then have "unat (w - push_bit k 1) = unat w - 2 ^ k"
    using assms(1) by (simp only: unat_sub word_le_nat_alt)
  ultimately show ?thesis by simp
qed

lemma unat_clear_7:
  fixes w :: "'a::len word"
  shows "unat (w AND NOT (push_bit 3 1 - 1)) = unat w div 8 * 8"
proof -
  have "push_bit 3 1 - 1 = (mask 3 :: 'a word)" by (simp add: mask_eq_exp_minus_1)
  then have "w AND NOT (push_bit 3 1 - 1) = push_bit 3 (drop_bit 3 w)"
    by (simp add: bit_eq_iff bit_simps) auto
  moreover have "unat (drop_bit 3 w) * 2 ^ 3 < 2 ^ LENGTH('a)"
  proof -
    have "unat (drop_bit 3 w) * 2 ^ 3 \<le> unat w" by (simp add: unat_drop_bit)
    then show ?thesis using unsigned_less [of w, where ?'a = nat] by (rule le_less_trans)
  qed
  ultimately show ?thesis by (simp add: unat_push_bit unat_drop_bit)
qed

lemma unat_get_rounding:
  fixes w :: "'a::len word"
  assumes "unat w < 2 ^ k" and "k < LENGTH('a)" and "4 \<le> k"
  shows "unat (get_rounding c sn w) = grnd (rmode_of c) sn (unat w)"
proof -
  have "(2::nat) ^ k * 2 \<le> 2 ^ LENGTH('a)"
    using power_increasing [of "Suc k" "LENGTH('a)" "2::nat"] assms(2) by simp
  moreover have "(16::nat) \<le> 2 ^ k"
    using power_increasing [of 4 k "2::nat"] assms(3) by simp
  ultimately have room: "unat w + 16 < 2 ^ LENGTH('a)" using assms(1) by linarith
  have num: "unat (3 :: 'a word) = 3" "unat (8 :: 'a word) = 8"
    using room by (simp_all add: take_bit_nat_eq_self)
  then have small: "unat (3 + (drop_bit 3 w AND 1)) = 3 + unat w div 8 mod 2"
    using room unat_and_1 [of "drop_bit 3 w"]
    by (simp add: unat_add_small unat_drop_bit)
  have "unat (w + 8) = unat w + 8" "unat (w + (3 + (drop_bit 3 w AND 1))) = unat w + (3 + unat w div 8 mod 2)"
    using room small num by (simp_all add: unat_add_small)
  then show ?thesis
    using and_7_iff [of w] assms(2,3)
    by (cases c rule: rm_cases) (simp_all add: get_rounding_def grnd_def)
qed

lemma unat_sticky:
  fixes w :: "'a::len word"
  assumes "k \<le> LENGTH('a)"
  shows "unat (drop_bit k w OR of_bool (push_bit (LENGTH('a) - k) w \<noteq> 0)) = srs (unat w) k"
  using push_bit_eq_0_iff_unat [OF assms, of w]
  by (cases "unat w mod 2 ^ k = 0") (auto simp: srs_def unat_simps)

lemma unat_xsrs:
  fixes w :: "'a::len word"
  assumes "0 < unat w" and "unat w < 2 ^ (p + 4)" and "p + 4 \<le> LENGTH('a)" and "0 \<le> rs"
  shows "unat (xsrs p rs w) = srs (unat w) (nat rs)"
proof (cases "rs > int p + 3")
  case True
  then have "(2::nat) ^ (p + 4) \<le> 2 ^ nat rs" by (intro power_increasing) auto
  with assms(2) have "unat w < 2 ^ nat rs" by linarith
  with assms(1) True show ?thesis by (simp add: xsrs_def srs_big)
next
  case False
  then have "nat rs \<le> LENGTH('a)" using assms(3) by linarith
  from unat_sticky [OF this, of w] False show ?thesis by (simp only: xsrs_def if_False)
qed

lemma unat_xsrs1: "unat (xsrs1 w) = srs (unat w) 1"
proof (cases "even (unat w)")
  case True
  then have "w AND 1 = 0" using unat_and_1 [of w] unat_eq_0 by fastforce
  with True show ?thesis by (simp add: xsrs1_def srs_def unat_simps even_iff_mod_2_eq_zero)
next
  case False
  then have "unat (w AND 1) = unat (1 :: 'a word)" by (simp add: unat_and_1 odd_iff_mod_2_eq_one)
  then have "w AND 1 = 1" by (simp only: word_unat_eq_iff)
  with False show ?thesis by (simp add: xsrs1_def srs_def unat_simps odd_iff_mod_2_eq_one)
qed

lemma norm_up:
  fixes m :: "'a::len word"
  assumes "0 < unat m" and "unat m < 2 ^ (k + 1)" and "k < LENGTH('a)"
  obtains m' j where "norm_up k (m, e) = (m', e - int j)" and "unat m' = unat m * 2 ^ j"
    and "2 ^ k \<le> unat m'" and "unat m' < 2 ^ (k + 1)"
proof -
  have len: "(2::nat) ^ (k + 1) \<le> 2 ^ LENGTH('a)" using assms(3) by (intro power_increasing) auto
  define P where "P = (\<lambda>(m', e'). \<exists>j. e' = e - int j \<and> unat (m'::'a word) = unat m * 2 ^ j \<and> unat m' < 2 ^ (k + 1))"
  have dbl: "unat (push_bit 1 v) = unat v * 2" if "unat v < 2 ^ k" for v :: "'a word"
    using unat_push_bit [of v 1] that len by simp
  have "case norm_up k (m, e) of (m', e') \<Rightarrow>
      \<exists>j. e' = e - int j \<and> unat m' = unat m * 2 ^ j \<and> 2 ^ k \<le> unat m' \<and> unat m' < 2 ^ (k + 1)"
    unfolding norm_up_def
  proof (rule while_rule [where P = P and r = "measure (\<lambda>(m', e'). 2 ^ k - unat m')"])
    show "P (m, e)" unfolding P_def using assms(2) by (auto intro: exI [of _ 0])
  next
    fix s assume "P s" "case s of (m, e) \<Rightarrow> drop_bit k m = 0"
    then obtain v j where s: "s = (v, e - int j)" "unat v = unat m * 2 ^ j" "unat v < 2 ^ k"
      by (auto simp: P_def drop_bit_eq_0_iff_unat)
    with dbl [OF s(3)] show "P (case s of (m, e) \<Rightarrow> (push_bit 1 m, e - 1))"
      unfolding P_def by (auto intro!: exI [of _ "Suc j"])
    show "(case s of (m, e) \<Rightarrow> (push_bit 1 m, e - 1), s) \<in> measure (\<lambda>(m', e'). 2 ^ k - unat m')"
    proof -
      have "0 < unat v" using s(2) assms(1) by simp
      then show ?thesis using dbl [OF s(3)] s(1,3) by auto
    qed
  next
    fix s assume "P s" "\<not> (case s of (m, e) \<Rightarrow> drop_bit k m = 0)"
    then show "case s of (m', e') \<Rightarrow>
      \<exists>j. e' = e - int j \<and> unat m' = unat m * 2 ^ j \<and> 2 ^ k \<le> unat m' \<and> unat m' < 2 ^ (k + 1)"
      by (auto simp: P_def drop_bit_eq_0_iff_unat)
  qed simp
  then show thesis using that by (auto split: prod.splits)
qed

lemma norm_down:
  fixes m :: "'a::len word"
  assumes "2 ^ k \<le> unat m"
  obtains m' j where "norm_down (Suc k) (m, e) = (m', e + int j)" and "cell 2 (unat m') (unat m / 2 ^ j)"
    and "2 ^ k \<le> unat m'" and "unat m' < 2 ^ Suc k"
proof -
  define P where "P = (\<lambda>(m', e'). \<exists>j. e' = e + int j \<and> cell 2 (unat (m'::'a word)) (unat m / 2 ^ j) \<and> 2 ^ k \<le> unat m')"
  have "case norm_down (Suc k) (m, e) of (m', e') \<Rightarrow>
      \<exists>j. e' = e + int j \<and> cell 2 (unat m') (unat m / 2 ^ j) \<and> 2 ^ k \<le> unat m' \<and> unat m' < 2 ^ Suc k"
    unfolding norm_down_def
  proof (rule while_rule [where P = P and r = "measure (\<lambda>(m', e'). unat m')"])
    show "P (m, e)" unfolding P_def using assms by (auto intro: exI [of _ 0])
  next
    fix s assume "P s" "case s of (m, e) \<Rightarrow> drop_bit (Suc k) m \<noteq> 0"
    then obtain v j where s: "s = (v, e + int j)" "cell 2 (unat v) (unat m / 2 ^ j)" "2 ^ Suc k \<le> unat v"
      by (auto simp: P_def drop_bit_eq_0_iff_unat)
    have "cell 2 (srs (unat v) 1) (unat m / 2 ^ j / 2 ^ 1)" by (rule cell_srs_shift [OF s(2)])
    moreover have "2 ^ k \<le> srs (unat v) 1"
      using s(3) srs_ge [of "unat v" 1] by simp
    ultimately show "P (case s of (m, e) \<Rightarrow> (xsrs1 m, e + 1))"
      using s(1) unfolding P_def by (auto simp: unat_xsrs1 mult.commute intro!: exI [of _ "Suc j"])
    have "(2::nat) ^ 1 \<le> 2 ^ Suc k" by (intro power_increasing) auto
    with s(3) have "2 \<le> unat v" unfolding power_one_right by (rule order_trans [rotated])
    then have "srs (unat v) 1 < unat v" using srs_le [of "unat v" 1] by (auto simp: srs_def) presburger
    with s(1) show "(case s of (m, e) \<Rightarrow> (xsrs1 m, e + 1), s) \<in> measure (\<lambda>(m', e'). unat m')"
      by (auto simp: unat_xsrs1)
  next
    fix s assume "P s" "\<not> (case s of (m, e) \<Rightarrow> drop_bit (Suc k) m \<noteq> 0)"
    then show "case s of (m', e') \<Rightarrow>
      \<exists>j. e' = e + int j \<and> cell 2 (unat m') (unat m / 2 ^ j) \<and> 2 ^ k \<le> unat m' \<and> unat m' < 2 ^ Suc k"
      by (auto simp: P_def drop_bit_eq_0_iff_unat)
  qed simp
  then show thesis using that by (auto split: prod.splits)
qed

end
