(* ===== verification/Fp_Word.thy ===== *)
theory Fp_Word
  imports Softfloat
begin

text \<open>
  Packed floating point words of any width: sign, biased exponent and mantissa fields, the packing
  of the three fields, and the real number and the class a word stands for. \<open>p\<close> is the number of
  mantissa bits, \<open>emin\<close> the least exponent of a normal number; the bias is \<open>1 - emin\<close>. The words
  of \<^verbatim>\<open>ieee754sp\<close> and \<^verbatim>\<open>ieee754dp\<close> are the instances of length 32 and 64.
\<close>

section \<open>Fields\<close>

definition fsign :: "'a::len word \<Rightarrow> bool" where
  "fsign w = bit w (LENGTH('a) - 1)"

definition fbexp :: "nat \<Rightarrow> 'a::len word \<Rightarrow> int" where
  "fbexp p w = uint (take_bit (LENGTH('a) - 1 - p) (drop_bit p w))"

definition fmant :: "nat \<Rightarrow> 'a::len word \<Rightarrow> 'a word" where
  "fmant p w = take_bit p w"

definition fbuild :: "nat \<Rightarrow> bool \<Rightarrow> int \<Rightarrow> 'a::len word \<Rightarrow> 'a word" where
  "fbuild p s bx m = push_bit (LENGTH('a) - 1) (of_bool s) OR
     push_bit p (take_bit (LENGTH('a) - 1 - p) (word_of_int bx)) OR take_bit p m"

lemma unat_fmant: "unat (fmant p w) = unat w mod 2 ^ p"
  by (simp add: fmant_def unat_take_bit)

lemma unat_fmant_less: "unat (fmant p w) < 2 ^ p"
  by (simp add: unat_fmant)

lemma bit_fbuild:
  fixes m :: "'a::len word"
  assumes "p < LENGTH('a)"
  shows "bit (fbuild p s bx m) n \<longleftrightarrow> n < LENGTH('a) \<and>
    (if n < p then bit m n else if n < LENGTH('a) - 1 then bit bx (n - p) else s)"
  using assms by (auto simp: fbuild_def bit_simps)

lemma fsign_fbuild [simp]:
  fixes m :: "'a::len word"
  assumes "p < LENGTH('a)"
  shows "fsign (fbuild p s bx m) \<longleftrightarrow> s"
  using assms by (simp add: fsign_def bit_fbuild)

lemma fmant_fbuild:
  fixes m :: "'a::len word"
  assumes "p < LENGTH('a)" and "unat m < 2 ^ p"
  shows "fmant p (fbuild p s bx m) = m"
proof -
  have "take_bit p m = m" using assms(2) by (simp only: word_unat_eq_iff unat_take_bit mod_less)
  moreover have "fmant p (fbuild p s bx m) = take_bit p m"
    using assms(1) by (intro bit_word_eqI) (auto simp: fmant_def bit_fbuild bit_simps)
  ultimately show ?thesis by simp
qed

lemma fbexp_fbuild:
  fixes m :: "'a::len word"
  assumes "p < LENGTH('a)" and "0 \<le> bx" and "bx < 2 ^ (LENGTH('a) - 1 - p)"
  shows "fbexp p (fbuild p s bx m) = bx"
proof -
  have "fbexp p (fbuild p s bx m) = take_bit (LENGTH('a) - 1 - p) bx"
    using assms(1) by (intro bit_eqI) (auto simp: fbexp_def bit_fbuild bit_simps)
  also have "\<dots> = bx" using assms(2,3) by (simp add: take_bit_int_eq_self)
  finally show ?thesis .
qed

lemma fbuild_fields:
  fixes w :: "'a::len word"
  assumes "p < LENGTH('a)"
  shows "fbuild p (fsign w) (fbexp p w) (fmant p w) = w"
proof (rule bit_word_eqI)
  fix n assume n: "n < LENGTH('a)"
  consider "n < p" | "p \<le> n" "n < LENGTH('a) - 1" | "n = LENGTH('a) - 1" using n by linarith
  then show "bit (fbuild p (fsign w) (fbexp p w) (fmant p w)) n = bit w n"
  proof cases
    case 1 with assms n show ?thesis by (simp add: bit_fbuild fmant_def bit_simps)
  next
    case 2
    then have "bit (fbexp p w) (n - p) = bit w n" using n by (auto simp: fbexp_def bit_simps)
    with 2 assms n show ?thesis by (simp add: bit_fbuild)
  next
    case 3 with assms n show ?thesis by (simp add: bit_fbuild fsign_def)
  qed
qed

lemma fbexp_nonneg [simp]: "0 \<le> fbexp p w"
  by (simp add: fbexp_def)

lemma fbexp_less:
  fixes w :: "'a::len word"
  shows "fbexp p w < 2 ^ (LENGTH('a) - 1 - p)"
proof -
  have "fbexp p w = take_bit (LENGTH('a) - 1 - p) (uint (drop_bit p w))"
    by (simp only: fbexp_def unsigned_take_bit_eq)
  then show ?thesis by (simp only: take_bit_int_less_exp)
qed

lemma fields_eqI:
  fixes w u :: "'a::len word"
  assumes "p < LENGTH('a)" and "fsign w = fsign u" and "fbexp p w = fbexp p u" and "fmant p w = fmant p u"
  shows "w = u"
proof -
  have "w = fbuild p (fsign w) (fbexp p w) (fmant p w)" by (rule fbuild_fields [OF assms(1), symmetric])
  also have "\<dots> = fbuild p (fsign u) (fbexp p u) (fmant p u)" by (simp only: assms(2-4))
  also have "\<dots> = u" by (rule fbuild_fields [OF assms(1)])
  finally show ?thesis .
qed

section \<open>Value and class\<close>

definition fp_val :: "nat \<Rightarrow> int \<Rightarrow> 'a::len word \<Rightarrow> real" where
  "fp_val p emin w = sgn_of (fsign w) *
     (if fbexp p w = 0 then unat (fmant p w) * 2 powi (emin - int p)
      else (2 ^ p + unat (fmant p w)) * 2 powi (fbexp p w + emin - 1 - int p))"

definition fp_fin :: "nat \<Rightarrow> 'a::len word \<Rightarrow> bool" where
  "fp_fin p w \<longleftrightarrow> fbexp p w \<noteq> 2 ^ (LENGTH('a) - 1 - p) - 1"

definition fp_class :: "nat \<Rightarrow> 'a::len word \<Rightarrow> ieee754_class" where
  "fp_class p w =
     (if fbexp p w = 2 ^ (LENGTH('a) - 1 - p) - 1 then
        if fmant p w = 0 then CLASS_INF else if bit w (p - 1) then CLASS_SNAN else CLASS_QNAN
      else if fbexp p w = 0 then if fmant p w = 0 then CLASS_ZERO else CLASS_DNORM
      else CLASS_NORM)"

section \<open>Unpacking\<close>

text \<open>
  What the macros \<^verbatim>\<open>EXPLODESP\<close> and \<^verbatim>\<open>EXPLODEDP\<close> leave in their four variables: the class, the
  sign, the exponent (unbiased for a finite nonzero number, else as stored) and the mantissa with
  the hidden bit of a normal number set.
\<close>

definition fp_explode :: "nat \<Rightarrow> int \<Rightarrow> int \<Rightarrow> int \<Rightarrow> 'a::len word \<Rightarrow> ieee754_class \<times> bool \<times> int \<times> 'a word" where
  "fp_explode p emin emax ebias v =
     (let vs = fsign v; ve = fbexp p v; vm = fmant p v
      in if ve = emax + 1 + ebias then
           if vm = 0 then (CLASS_INF, vs, ve, vm)
           else if vm AND push_bit (p - 1) 1 \<noteq> 0 then (CLASS_SNAN, vs, ve, vm)
           else (CLASS_QNAN, vs, ve, vm)
         else if ve = emin - 1 + ebias then
           if vm \<noteq> 0 then (CLASS_DNORM, vs, emin, vm) else (CLASS_ZERO, vs, ve, vm)
         else (CLASS_NORM, vs, ve - ebias, vm OR push_bit p 1))"

lemma and_bit_iff: "w AND push_bit n 1 = 0 \<longleftrightarrow> \<not> bit w n"
  by (simp add: and_exp_eq_0_iff_not_bit)

lemma unat_or_hidden:
  fixes m :: "'a::len word"
  assumes "unat m < 2 ^ p" and "p < LENGTH('a)"
  shows "unat (m OR push_bit p 1) = 2 ^ p + unat m"
proof -
  have "\<not> bit m n" if "p \<le> n" for n
  proof -
    have "unat m < 2 ^ n" using assms(1) power_increasing [OF that, of "2::nat"] by (auto intro: less_le_trans)
    then have "unat m div 2 ^ n = 0" by simp
    then have "\<not> bit (unat m) n" by (simp add: bit_iff_odd)
    then show ?thesis using bit_unsigned_iff [of m n, where ?'a = nat] by (auto dest: bit_imp_le_length)
  qed
  then have "m OR push_bit p 1 = m + push_bit p 1"
    by (intro disjunctive_add [symmetric]) (auto simp: bit_simps)
  moreover have p1: "unat (push_bit p 1 :: 'a word) = 2 ^ p"
    using assms(2) by (subst unat_push_bit) simp_all
  moreover have "unat m + 2 ^ p < 2 ^ LENGTH('a)"
    using assms power_increasing [of "Suc p" "LENGTH('a)" "2::nat"] by simp
  ultimately show ?thesis by (simp only: unat_add_small)
qed

definition fneg :: "nat \<Rightarrow> 'a::len word \<Rightarrow> 'a word" where
  "fneg p w = fbuild p (\<not> fsign w) (fbexp p w) (fmant p w)"

lemma fneg_fields [simp]:
  fixes w :: "'a::len word"
  assumes "p < LENGTH('a)"
  shows "fsign (fneg p w) = (\<not> fsign w)" "fbexp p (fneg p w) = fbexp p w" "fmant p (fneg p w) = fmant p w"
  using assms fbexp_fbuild [OF assms fbexp_nonneg fbexp_less]
  by (simp_all add: fneg_def fmant_fbuild unat_fmant_less)

lemma fneg_val:
  fixes w :: "'a::len word"
  assumes "p < LENGTH('a)"
  shows "fp_val p emin (fneg p w) = - fp_val p emin w" "fp_fin p (fneg p w) = fp_fin p w"
  using assms by (simp_all add: fp_val_def fp_fin_def sgn_of_def)

lemma fneg_explode:
  fixes w :: "'a::len word"
  assumes "p < LENGTH('a)" and "fp_explode p emin emax ebias w = (k, s, e, m)"
  shows "fp_explode p emin emax ebias (fneg p w) = (k, \<not> s, e, m)"
  using assms by (auto simp: fp_explode_def Let_def split: if_splits)

section \<open>The parameters of a format\<close>

locale fp_word =
  fixes p :: nat and emin emax ebias :: int and ty :: "'a::len itself"
  assumes width: "p + 5 \<le> LENGTH('a)" and p_pos: "0 < p" and emin_emax: "emin \<le> emax"
    and bias: "ebias = 1 - emin" and top: "emax + 1 + ebias = 2 ^ (LENGTH('a) - 1 - p) - 1"
begin

lemma len: "p < LENGTH('a)" "p < LENGTH('a) - 1"
  using width by simp_all

lemma emin_bias: "emin - 1 + ebias = 0" "0 < emax + 1 + ebias"
  using bias emin_emax by simp_all

lemma fbexp_build:
  fixes m :: "'a word"
  assumes "emin - 1 \<le> e" and "e \<le> emax + 1"
  shows "fbexp p (fbuild p s (e + ebias) m) = e + ebias"
  using assms bias top by (intro fbexp_fbuild len) simp_all

lemma fbexp_top: "fbexp p (w :: 'a word) \<le> emax + 1 + ebias"
  using fbexp_less [of p w] unfolding top by simp

lemma fin_iff: "fp_fin p (w :: 'a word) \<longleftrightarrow> fbexp p w \<noteq> emax + 1 + ebias"
  unfolding top by (simp add: fp_fin_def)

lemma build_denorm:
  fixes k :: "'a word"
  assumes "unat k < 2 ^ p"
  shows "fp_fin p (fbuild p s (emin - 1 + ebias) k)" "fsign (fbuild p s (emin - 1 + ebias) k) = s"
    "fp_val p emin (fbuild p s (emin - 1 + ebias) k) = sgn_of s * (unat k * 2 powi (emin - int p))"
  using assms emin_emax fbexp_build [of "emin - 1" s k] bias
  by (simp_all add: fin_iff fp_val_def fmant_fbuild len)

lemma build_norm:
  fixes k :: "'a word"
  assumes "unat k < 2 ^ p" and "emin \<le> e" and "e \<le> emax"
  shows "fp_fin p (fbuild p s (e + ebias) k)" "fsign (fbuild p s (e + ebias) k) = s"
    "fp_val p emin (fbuild p s (e + ebias) k) = sgn_of s * ((2 ^ p + unat k) * 2 powi (e - int p))"
  using assms fbexp_build [of e s k] bias
  by (simp_all add: fin_iff fp_val_def fmant_fbuild len)

lemma explode_class:
  fixes w :: "'a word"
  assumes "fp_explode p emin emax ebias w = (k, s, e, m)"
  shows "k = fp_class p w" and "s = fsign w"
proof -
  have "fmant p w AND push_bit (p - 1) 1 = 0 \<longleftrightarrow> \<not> bit w (p - 1)"
    unfolding and_bit_iff using p_pos by (simp add: fmant_def bit_simps)
  then show "k = fp_class p w" "s = fsign w"
    using assms unfolding fp_explode_def fp_class_def Let_def top emin_bias
    by (auto split: if_splits)
qed

text \<open>The finite nonzero words: what the unpacked parts say about the value.\<close>

lemma explode_nonzero:
  fixes w :: "'a word"
  assumes ex: "fp_explode p emin emax ebias w = (k, s, e, m)" and k: "k = CLASS_NORM \<or> k = CLASS_DNORM"
  shows "fp_fin p w" and "fp_val p emin w = sgn_of s * (unat m * 2 powi (e - int p))"
    and "0 < unat m" and "unat m < 2 ^ (p + 1)" and "emin \<le> e" and "e \<le> emax"
    and "k = CLASS_NORM \<Longrightarrow> 2 ^ p \<le> unat m" and "k = CLASS_DNORM \<Longrightarrow> unat m < 2 ^ p \<and> e = emin"
proof -
  note ml = unat_fmant_less [of p w]
  have top: "fbexp p w \<noteq> emax + 1 + ebias" using assms by (auto simp: fp_explode_def Let_def split: if_splits)
  then show "fp_fin p w" by (simp add: fin_iff)
  have le: "fbexp p w \<le> emax + ebias" using fbexp_top [of w] top by simp
  consider (norm) "k = CLASS_NORM" "fbexp p w \<noteq> 0" "e = fbexp p w - ebias" "m = fmant p w OR push_bit p 1"
    | (dnorm) "k = CLASS_DNORM" "fbexp p w = 0" "e = emin" "m = fmant p w" "fmant p w \<noteq> 0"
    using ex k top unfolding fp_explode_def Let_def emin_bias by (auto split: if_splits)
  then have "fp_val p emin w = sgn_of s * (unat m * 2 powi (e - int p)) \<and> 0 < unat m \<and> unat m < 2 ^ (p + 1) \<and>
    emin \<le> e \<and> e \<le> emax \<and> (k = CLASS_NORM \<longrightarrow> 2 ^ p \<le> unat m) \<and> (k = CLASS_DNORM \<longrightarrow> unat m < 2 ^ p \<and> e = emin)"
  proof cases
    case norm
    have m: "unat m = 2 ^ p + unat (fmant p w)" unfolding norm(4) by (rule unat_or_hidden [OF ml len(1)])
    have e: "e = fbexp p w + emin - 1" by (simp add: norm(3) bias)
    have "0 < fbexp p w" using norm(2) fbexp_nonneg [of p w] by linarith
    with norm(1,2) ml le explode_class [OF ex] m show ?thesis by (simp add: fp_val_def e bias)
  next
    case dnorm
    then show ?thesis
      using ml explode_class [OF ex] emin_emax unat_eq_0 [of "fmant p w"] by (simp add: fp_val_def)
  qed
  then show "fp_val p emin w = sgn_of s * (unat m * 2 powi (e - int p))" "0 < unat m" "unat m < 2 ^ (p + 1)"
    "emin \<le> e" "e \<le> emax" "k = CLASS_NORM \<Longrightarrow> 2 ^ p \<le> unat m" "k = CLASS_DNORM \<Longrightarrow> unat m < 2 ^ p \<and> e = emin"
    by blast+
qed

lemma class_zero:
  fixes w :: "'a word"
  assumes "fp_class p w = CLASS_ZERO"
  shows "fp_fin p w" and "fp_val p emin w = 0" and "w = fbuild p (fsign w) 0 0"
  using assms fbuild_fields [OF len(1), of w]
  by (auto simp: fp_class_def fp_fin_def fp_val_def split: if_splits)

lemma class_fin: "fp_fin p (w :: 'a word) \<longleftrightarrow> fp_class p w \<in> {CLASS_ZERO, CLASS_DNORM, CLASS_NORM}"
  by (auto simp: fp_class_def fp_fin_def)

end

text \<open>Values of numerals.\<close>

lemmas ground_value = fp_val_def fp_fin_def fsign_def fbexp_def fmant_def power_int_minus

end
