(* ===== verification/Fp_Encoding.thy ===== *)
theory Fp_Encoding
  imports Fp_Word
begin

text \<open>
  The interface between the packed words of a precision and the shared code: \<open>fp_encoding\<close> lists
  what the constants and the packing function of a precision promise about the real value of a
  word. Under these laws \<open>fp_format\<close>, given a mantissa in the cell of the exact value, returns the
  correctly rounded word and signals exactly the exceptions of the specification.
\<close>

section \<open>The steps of the format function on naturals\<close>

lemma guard_exact:
  fixes xm :: "'a::len word"
  assumes "3 \<le> LENGTH('a)" and "unat xm mod 8 = 0"
  shows "fp_guard p c sn xe xm = (c, xe, xm)"
  using and_7_iff [OF assms(1), of xm] assms(2) by (simp add: fp_guard_def)

lemma guard_round:
  fixes xm :: "'a::len word" and c :: ieee754_csr and sn :: bool
  assumes "p + 5 \<le> LENGTH('a)" and "unat xm mod 8 \<noteq> 0" and "unat xm < 2 ^ (p + 4)"
  defines "g \<equiv> grnd (rmode_of c) sn (unat xm)"
  defines "fl \<equiv> (if unat xm < 2 ^ (p + 3) then IEEE754_INEXACT OR IEEE754_UNDERFLOW else IEEE754_INEXACT)"
  obtains k where "fp_guard p c sn xe xm = (SETCX fl c, if g < 2 ^ (p + 4) then xe else xe + 1, k)"
    and "unat (drop_bit 3 k) = (if g < 2 ^ (p + 4) then g div 8 else g div 8 div 2)"
proof -
  have n7: "xm AND (push_bit 3 1 - 1) \<noteq> 0" using and_7_iff [of xm] assms(1,2) by simp
  have "push_bit 3 (push_bit p 1) = push_bit (p + 3) (1 :: 'a word)"
    by (simp only: push_bit_push_bit add.commute)
  then have hid: "xm AND push_bit 3 (push_bit p 1) = 0 \<longleftrightarrow> unat xm < 2 ^ (p + 3)"
    using and_hidden_iff [of xm "p + 3"] assms(1,3) by (simp only: add.assoc) simp
  have gr: "unat (get_rounding c' sn xm) = g" if "rmode_of c' = rmode_of c" for c'
    using unat_get_rounding [of xm "p + 4" c' sn] assms(1,3) that by (simp add: g_def)
  have cond: "drop_bit (p + 1 + 3) (get_rounding c' sn xm) \<noteq> 0 \<longleftrightarrow> \<not> g < 2 ^ (p + 4)"
    if "rmode_of c' = rmode_of c" for c'
    using gr [OF that] by (simp add: drop_bit_eq_0_iff_unat add.commute)
  define c' where "c' = SETCX fl c"
  define x' where "x' = get_rounding c' sn xm"
  have rm': "rmode_of c' = rmode_of c" by (simp add: c'_def)
  have "fp_guard p c sn xe xm =
      (if drop_bit (p + 1 + 3) x' \<noteq> 0 then (c', xe + 1, drop_bit 1 x') else (c', xe, x'))"
    using n7 hid by (simp add: fp_guard_def Let_def x'_def c'_def fl_def SETCX_SETCX)
  then have "fp_guard p c sn xe xm =
      (c', if g < 2 ^ (p + 4) then xe else xe + 1, if g < 2 ^ (p + 4) then x' else drop_bit 1 x')"
    using cond [OF rm'] by (simp add: x'_def)
  moreover have "unat (drop_bit 3 (if g < 2 ^ (p + 4) then x' else drop_bit 1 x')) =
      (if g < 2 ^ (p + 4) then g div 8 else g div 8 div 2)"
    using gr [OF rm'] by (cases "g < 2 ^ (p + 4)")
      (simp_all only: x'_def unat_drop_bit if_True if_False power_one_right, simp_all flip: div_mult2_eq)
  ultimately show thesis using that by (simp add: c'_def)
qed

lemma rmag_Ints: "real_of_int (rmag rm s y) = y \<longleftrightarrow> y \<in> \<int>"
proof
  assume "real_of_int (rmag rm s y) = y" then show "y \<in> \<int>" by (metis Ints_of_int)
next
  assume "y \<in> \<int>"
  then obtain k where "y = of_int k" by (elim Ints_cases)
  then show "real_of_int (rmag rm s y) = y" by (cases rm) simp_all
qed

section \<open>The interface of an encoding\<close>

text \<open>
  \<open>fp_outcome\<close> describes the pair of csr and word that rounding and packing deliver for a
  significand \<open>q\<close> (an integer) at exponent \<open>e\<close>: the overflow result, or a finite word of value
  \<open>q * 2 powi (e - p)\<close> with the inexact and underflow exceptions.
\<close>

definition fp_outcome ::
  "nat \<Rightarrow> int \<Rightarrow> ('a::len word \<Rightarrow> bool) \<Rightarrow> ('a word \<Rightarrow> bool) \<Rightarrow> ('a word \<Rightarrow> real) \<Rightarrow>
   (bool \<Rightarrow> 'a word) \<Rightarrow> (bool \<Rightarrow> 'a word) \<Rightarrow>
   ieee754_csr \<Rightarrow> bool \<Rightarrow> 5 word \<Rightarrow> int \<Rightarrow> int \<Rightarrow> ieee754_csr \<times> 'a word \<Rightarrow> bool" where
  "fp_outcome p emax fin neg val finf fbig c sn fl q e x \<longleftrightarrow>
     (if 2 powi (emax + 1) \<le> real_of_int q * 2 powi (e - int p) then
        x = (SETCX (IEEE754_OVERFLOW OR IEEE754_INEXACT) c,
             if overflow_to_inf (rmode_of c) sn then finf sn else fbig sn)
      else fst x = SETCX fl c \<and> fin (snd x) \<and> neg (snd x) = sn \<and>
        val (snd x) = sgn_of sn * (q * 2 powi (e - int p)))"

locale fp_encoding =
  fixes p :: nat and emin emax ebias :: int
    and fzero fleast finf fbig :: "bool \<Rightarrow> 'a::len word"
    and fbuild :: "bool \<Rightarrow> int \<Rightarrow> 'a word \<Rightarrow> 'a word"
    and fin neg :: "'a word \<Rightarrow> bool" and val :: "'a word \<Rightarrow> real"
  assumes width: "p + 5 \<le> LENGTH('a)"
    and emin_emax: "emin \<le> emax"
    and build_denorm: "unat k < 2 ^ p \<Longrightarrow> fin (fbuild s (emin - 1 + ebias) k) \<and>
      neg (fbuild s (emin - 1 + ebias) k) = s \<and>
      val (fbuild s (emin - 1 + ebias) k) = sgn_of s * (unat k * 2 powi (emin - int p))"
    and build_norm: "unat k < 2 ^ p \<Longrightarrow> emin \<le> e \<Longrightarrow> e \<le> emax \<Longrightarrow> fin (fbuild s (e + ebias) k) \<and>
      neg (fbuild s (e + ebias) k) = s \<and>
      val (fbuild s (e + ebias) k) = sgn_of s * ((2 ^ p + unat k) * 2 powi (e - int p))"
begin

lemma pack_overflow:
  assumes "emax < xe"
  shows "fp_pack p emin emax ebias finf fbig fbuild c sn xe xm =
    (SETCX (IEEE754_OVERFLOW OR IEEE754_INEXACT) c,
     if overflow_to_inf (rmode_of c) sn then finf sn else fbig sn)"
  using assms by (cases c rule: rm_cases) (auto simp: fp_pack_def SETCX_SETCX)

lemma pack_finite:
  assumes "unat xm < 2 ^ (p + 1)" and "emin \<le> xe" and "xe \<le> emax" and "unat xm < 2 ^ p \<Longrightarrow> xe = emin"
  obtains r where
    "fp_pack p emin emax ebias finf fbig fbuild c sn xe xm =
      (if unat xm < 2 ^ p \<and> uf_enabled c then SETCX IEEE754_UNDERFLOW c else c, r)"
    and "fin r" "neg r = sn" "val r = sgn_of sn * (unat xm * 2 powi (xe - int p))"
proof (cases "unat xm < 2 ^ p")
  case True
  then have "xm AND push_bit p 1 = 0" using and_hidden_iff [of xm p] assms(1) width by simp
  with True assms(3,4) build_denorm [OF True, of sn] show thesis
    by (intro that [of "fbuild sn (emin - 1 + ebias) xm"]) (simp_all add: fp_pack_def uf_enabled_def)
next
  case False
  let ?k = "xm AND NOT (push_bit p 1)"
  have h: "xm AND push_bit p 1 \<noteq> 0" using False and_hidden_iff [of xm p] assms(1) width by simp
  have k: "unat ?k = unat xm - 2 ^ p" using unat_clear_hidden [of p xm] False assms(1) width by simp
  then have "unat ?k < 2 ^ p" using assms(1) by simp
  note b = build_norm [OF this assms(2,3), of sn]
  have "2 ^ p + real (unat ?k) = unat xm" using k False by simp
  with False h assms(3) b show thesis
    by (intro that [of "fbuild sn (xe + ebias) ?k"]) (simp_all add: fp_pack_def)
qed

lemma pack_outcome:
  assumes "unat xm < 2 ^ (p + 1)" and "emin \<le> xe" and "unat xm < 2 ^ p \<Longrightarrow> xe = emin"
  shows "fp_outcome p emax fin neg val finf fbig c sn
    (if unat xm < 2 ^ p \<and> uf_enabled c then IEEE754_UNDERFLOW else 0) (int (unat xm)) xe
    (fp_pack p emin emax ebias finf fbig fbuild c sn xe xm)"
proof (cases "xe \<le> emax")
  case True
  have "real (unat xm) < 2 ^ (p + 1)" using assms(1) by (metis of_nat_less_numeral_power_cancel_iff)
  then have "real (unat xm) * 2 powi (xe - int p) < 2 ^ (p + 1) * 2 powi (xe - int p)"
    by (intro mult_strict_right_mono) simp_all
  also have "\<dots> = 2 powi (xe + 1)" by (rule powi_shift2_Suc)
  also have "\<dots> \<le> 2 powi (emax + 1)" using True by simp
  finally have "\<not> 2 powi (emax + 1) \<le> real (unat xm) * 2 powi (xe - int p)" by simp
  moreover obtain r where
    "fp_pack p emin emax ebias finf fbig fbuild c sn xe xm =
      (if unat xm < 2 ^ p \<and> uf_enabled c then SETCX IEEE754_UNDERFLOW c else c, r)"
    and "fin r" "neg r = sn" "val r = sgn_of sn * (unat xm * 2 powi (xe - int p))"
    by (rule pack_finite [OF assms(1,2) True assms(3)])
  ultimately show ?thesis by (simp add: fp_outcome_def)
next
  case False
  then have "2 ^ p \<le> unat xm" using assms(3) emin_emax by linarith
  then have "2 ^ p \<le> real (unat xm)" by simp
  then have "2 ^ p * 2 powi (xe - int p) \<le> real (unat xm) * 2 powi (xe - int p)"
    by (intro mult_right_mono) simp_all
  then have "2 powi xe \<le> real (unat xm) * 2 powi (xe - int p)" by (simp only: powi_shift2)
  moreover have "(2::real) powi (emax + 1) \<le> 2 powi xe" using False by simp
  ultimately have "2 powi (emax + 1) \<le> real (unat xm) * 2 powi (xe - int p)" by linarith
  then show ?thesis using False by (simp add: fp_outcome_def pack_overflow)
qed

lemma outcome_SETCX:
  assumes "fp_outcome p emax fin neg val finf fbig (SETCX a c) sn fl q e x"
    and "real_of_int q * 2 powi (e - int p) = real_of_int q' * 2 powi (e' - int p)"
    and "a = IEEE754_INEXACT \<or> q' \<le> 2 ^ p \<and> e' = emin" and "fl' = a OR fl"
  shows "fp_outcome p emax fin neg val finf fbig c sn fl' q' e' x"
proof -
  have "real_of_int q' * 2 powi (e' - int p) < 2 powi (emax + 1)" if "q' \<le> 2 ^ p" "e' = emin"
  proof -
    have "real_of_int q' \<le> 2 ^ p" using that(1) by simp
    then have "real_of_int q' * 2 powi (e' - int p) \<le> 2 ^ p * 2 powi (e' - int p)"
      by (intro mult_right_mono) simp_all
    also have "\<dots> = 2 powi emin" by (simp only: that(2) powi_shift2)
    also have "\<dots> < 2 powi (emax + 1)" using emin_emax by simp
    finally show ?thesis .
  qed
  then have "\<not> 2 powi (emax + 1) \<le> real_of_int q' * 2 powi (e' - int p) \<or> a = IEEE754_INEXACT"
    using assms(3) by fastforce
  moreover have "IEEE754_INEXACT OR (IEEE754_OVERFLOW OR IEEE754_INEXACT) = IEEE754_OVERFLOW OR IEEE754_INEXACT"
    by simp
  ultimately show ?thesis
    using assms(1,2,4) unfolding fp_outcome_def SETCX_SETCX SETCX_simps by (metis (no_types, lifting))
qed

lemma guard_pack_exact:
  assumes "unat xm < 2 ^ (p + 4)" and "emin \<le> xe" and "unat xm < 2 ^ (p + 3) \<Longrightarrow> xe = emin"
    and True: "unat xm mod 8 = 0"
  shows "fp_outcome p emax fin neg val finf fbig c sn
    (if unat xm < 2 ^ (p + 3) \<and> uf_enabled c then IEEE754_UNDERFLOW else 0)
    (int (grnd (rmode_of c) sn (unat xm) div 8)) xe
    (let (c, xe, xm) = fp_guard p c sn xe xm
     in fp_pack p emin emax ebias finf fbig fbuild c sn xe (drop_bit 3 xm))"
proof -
  have d: "unat (drop_bit 3 xm) = unat xm div 8" by (simp only: unat_drop_bit) simp
  have lt: "unat xm div 8 < 2 ^ p \<longleftrightarrow> unat xm < 2 ^ (p + 3)"
    by (simp add: power_add div_less_iff_less_mult mult.commute)
  have g: "grnd (rmode_of c) sn (unat xm) = unat xm" using True by (simp add: grnd_def)
  have "unat xm div 8 < 2 ^ (p + 1)" using assms(1) by (simp add: power_add)
  moreover have "fp_guard p c sn xe xm = (c, xe, xm)" using width True by (intro guard_exact) simp_all
  ultimately show ?thesis
    using pack_outcome [of "drop_bit 3 xm" xe c sn] assms(2,3) True
    by (simp only: d lt g Let_def prod.case)
qed

lemma guard_pack_inexact:
  assumes "unat xm < 2 ^ (p + 4)" and "emin \<le> xe" and "unat xm < 2 ^ (p + 3) \<Longrightarrow> xe = emin"
    and False: "unat xm mod 8 \<noteq> 0"
  shows "fp_outcome p emax fin neg val finf fbig c sn
    (IEEE754_INEXACT OR (if unat xm < 2 ^ (p + 3) then IEEE754_UNDERFLOW else 0))
    (int (grnd (rmode_of c) sn (unat xm) div 8)) xe
    (let (c, xe, xm) = fp_guard p c sn xe xm
     in fp_pack p emin emax ebias finf fbig fbuild c sn xe (drop_bit 3 xm))"
proof -
  define n g fl where "n = unat xm" and "g = grnd (rmode_of c) sn n"
    and "fl = (if n < 2 ^ (p + 3) then IEEE754_INEXACT OR IEEE754_UNDERFLOW else IEEE754_INEXACT)"
  obtain k where k: "fp_guard p c sn xe xm = (SETCX fl c, if g < 2 ^ (p + 4) then xe else xe + 1, k)"
      "unat (drop_bit 3 k) = (if g < 2 ^ (p + 4) then g div 8 else g div 8 div 2)"
    using guard_round [OF width False assms(1), of c sn xe] unfolding n_def g_def fl_def by blast
  define e' where "e' = (if g < 2 ^ (p + 4) then xe else xe + 1)"
  have gn: "n \<le> g" "g \<le> n + 8" unfolding g_def by (rule grnd_ge, rule grnd_le)
  have q1: "2 ^ p \<le> unat (drop_bit 3 k)" if "\<not> n < 2 ^ (p + 3)"
    using gn(1) that unfolding k(2) by (auto simp: power_add less_eq_div_iff_mult_less_eq simp flip: div_mult2_eq)
  have q2: "g div 8 \<le> 2 ^ p" if "n < 2 ^ (p + 3)"
    using gn(2) that by (simp add: power_add less_Suc_eq_le flip: div_less_iff_less_mult)
  have "g div 8 = 2 ^ (p + 1)" if "\<not> g < 2 ^ (p + 4)"
    using gn(2) that assms(1) by (intro div_nat_eqI) (simp_all add: n_def power_add)
  then have q3: "unat (drop_bit 3 k) < 2 ^ (p + 1) \<and>
      real (unat (drop_bit 3 k)) * 2 powi (e' - int p) = real (g div 8) * 2 powi (xe - int p)"
    unfolding k(2) e'_def by (auto simp: power_add div_less_iff_less_mult powi_add2 powi_diff2)
  have "fp_outcome p emax fin neg val finf fbig (SETCX fl c) sn
    (if unat (drop_bit 3 k) < 2 ^ p \<and> uf_enabled (SETCX fl c) then IEEE754_UNDERFLOW else 0)
    (int (unat (drop_bit 3 k))) e'
    (fp_pack p emin emax ebias finf fbig fbuild (SETCX fl c) sn e' (drop_bit 3 k))"
  proof (rule pack_outcome)
    show "unat (drop_bit 3 k) < 2 ^ (p + 1)" "emin \<le> e'" using q3 assms(2) by (simp_all add: e'_def)
    assume small: "unat (drop_bit 3 k) < 2 ^ p"
    then have "n < 2 ^ (p + 3)" using q1 by linarith
    moreover from this have "g < 2 ^ (p + 4)"
    proof -
      have "(2::nat) ^ 3 \<le> 2 ^ (p + 3)" by (rule power_increasing) simp_all
      moreover have "(2::nat) ^ (p + 4) = 2 * 2 ^ (p + 3)" by (simp add: power_add)
      ultimately show ?thesis using \<open>n < 2 ^ (p + 3)\<close> gn(2) by simp
    qed
    ultimately show "e' = emin" using assms(3) by (simp add: e'_def n_def)
  qed
  then have "fp_outcome p emax fin neg val finf fbig c sn
    (IEEE754_INEXACT OR (if n < 2 ^ (p + 3) then IEEE754_UNDERFLOW else 0)) (int (g div 8)) xe
    (fp_pack p emin emax ebias finf fbig fbuild (SETCX fl c) sn e' (drop_bit 3 k))"
  proof (rule outcome_SETCX)
    show "fl = IEEE754_INEXACT \<or> int (g div 8) \<le> 2 ^ p \<and> xe = emin"
      using q2 assms(3) by (auto simp: fl_def n_def simp flip: of_nat_le_iff)
    show "IEEE754_INEXACT OR (if n < 2 ^ (p + 3) then IEEE754_UNDERFLOW else 0) = fl OR
        (if unat (drop_bit 3 k) < 2 ^ p \<and> uf_enabled (SETCX fl c) then IEEE754_UNDERFLOW else 0)"
      using q1 by (auto simp: fl_def)
  qed (use q3 in simp)
  then show ?thesis
    using False by (simp add: k(1) n_def g_def e'_def)
qed

lemma guard_pack_outcome:
  assumes "unat xm < 2 ^ (p + 4)" and "emin \<le> xe" and "unat xm < 2 ^ (p + 3) \<Longrightarrow> xe = emin"
  shows "fp_outcome p emax fin neg val finf fbig c sn
    ((if unat xm mod 8 \<noteq> 0 then IEEE754_INEXACT else 0) OR
     (if unat xm < 2 ^ (p + 3) \<and> (unat xm mod 8 \<noteq> 0 \<or> uf_enabled c) then IEEE754_UNDERFLOW else 0))
    (int (grnd (rmode_of c) sn (unat xm) div 8)) xe
    (let (c, xe, xm) = fp_guard p c sn xe xm
     in fp_pack p emin emax ebias finf fbig fbuild c sn xe (drop_bit 3 xm))"
  using guard_pack_exact [OF assms, of c sn] guard_pack_inexact [OF assms, of c sn]
  by (cases "unat xm mod 8 = 0") (simp_all only: simp_thms if_True if_False or.left_neutral)

lemma outcome_rounds:
  assumes "fp_outcome p emax fin neg val finf fbig c sn fl q e x"
    and "fround p emin (rmode_of c) v = sgn_of sn * (q * 2 powi (e - int p))" and "0 \<le> q"
    and "v < 0 \<longleftrightarrow> sn"
    and "fl = ((if fround p emin (rmode_of c) v \<noteq> v then IEEE754_INEXACT else 0) OR
      (if tiny p emin (rmode_of c) v \<and> (fround p emin (rmode_of c) v \<noteq> v \<or> uf_enabled c)
       then IEEE754_UNDERFLOW else 0))"
  shows "\<exists>r. x = (SETCX (ieee_flags p emin emax (uf_enabled c) (rmode_of c) v) c, r) \<and>
    fp_rounds p emin emax fin neg val finf fbig (rmode_of c) v r"
proof -
  have "overflows p emin emax (rmode_of c) v \<longleftrightarrow> 2 powi (emax + 1) \<le> real_of_int q * 2 powi (e - int p)"
    using assms(3) by (simp add: overflows_def assms(2))
  then show ?thesis
    using assms(1,4) unfolding fp_outcome_def fp_rounds_def ieee_flags_def assms(2) [symmetric] assms(5) [symmetric]
    by (cases x) (auto split: if_splits)
qed

lemma scaled_sign:
  assumes "2 ^ (p + 3) \<le> m"
  shows "sgn_of sn * (m * 2 powi (xe - int p - 3)) < 0 \<longleftrightarrow> sn"
proof -
  have "0 < m" using assms by (rule less_le_trans [rotated]) simp
  then show ?thesis by (cases sn) (simp_all add: mult_less_0_iff not_less)
qed

lemma scaled_exact:
  assumes "0 \<le> k"
  shows "sgn_of sn * (of_int (rmag rm sn (m / 2 ^ nat k / 8)) * 2 powi (xe + k - int p)) =
      sgn_of sn * (m * 2 powi (xe - int p - 3)) \<longleftrightarrow> m / 2 ^ nat k / 8 \<in> \<int>"
proof -
  have "(2::real) powi 3 = 8" "(2::real) powi k = 2 ^ nat k" using assms by (simp_all add: power_int_def)
  then have "m * 2 powi (xe - int p - 3) = m / 2 ^ nat k / 8 * 2 powi (xe + k - int p)"
    by (simp add: powi_add2 powi_diff2)
  moreover have "(2::real) powi (xe + k - int p) \<noteq> 0" by simp
  ultimately show ?thesis
    by (simp only: mult_cancel_left mult_cancel_right sgn_of_neq_0 rmag_Ints simp_thms)
qed

lemma format_normal:
  assumes "csr_nod c = 0" and "2 ^ (p + 3) \<le> unat xm" and "unat xm < 2 ^ (p + 4)"
    and "cell 4 (unat xm) m" and "emin \<le> xe"
    and v_def: "v = sgn_of sn * (m * 2 powi (xe - int p - 3))"
  shows "\<exists>r. fp_format p emin emax ebias fzero fleast finf fbig fbuild c sn xe xm =
      (SETCX (ieee_flags p emin emax (uf_enabled c) (rmode_of c) v) c, r) \<and>
    fp_rounds p emin emax fin neg val finf fbig (rmode_of c) v r"
proof (rule outcome_rounds)
  note mb = cell4_bounds [OF assms(4,2,3)]
  have q: "rmag (rmode_of c) sn (m / 8) = int (grnd (rmode_of c) sn (unat xm) div 8)"
    using assms(4) by (rule rmag_grnd)
  show fr: "fround p emin (rmode_of c) v =
      sgn_of sn * (int (grnd (rmode_of c) sn (unat xm) div 8) * 2 powi (xe - int p))"
    unfolding v_def by (simp only: scaled_fround [OF mb assms(5)] q)
  have ex: "fround p emin (rmode_of c) v = v \<longleftrightarrow> unat xm mod 8 = 0"
    using scaled_exact [of 0 sn "rmode_of c" m xe] fr cell_mod8 [OF assms(4)] by (simp add: q v_def)
  have "2 ^ p \<le> grnd (rmode_of c) sn (unat xm) div 8"
    using grnd_ge [of "unat xm" "rmode_of c" sn] assms(2) by (simp add: less_eq_div_iff_mult_less_eq power_add)
  then have "2 ^ p \<le> real (grnd (rmode_of c) sn (unat xm) div 8)"
    by (metis of_nat_le_iff of_nat_numeral of_nat_power)
  then have "2 ^ p * 2 powi (xe - int p) \<le> \<bar>uround p (rmode_of c) v\<bar>"
    unfolding v_def scaled_uround [OF mb] q abs_sgn_of by simp
  then have tn: "\<not> tiny p emin (rmode_of c) v"
    using assms(5) powi_le2 [of emin xe] unfolding tiny_def powi_shift2 by linarith
  show "fp_outcome p emax fin neg val finf fbig c sn (if unat xm mod 8 \<noteq> 0 then IEEE754_INEXACT else 0)
      (int (grnd (rmode_of c) sn (unat xm) div 8)) xe
      (fp_format p emin emax ebias fzero fleast finf fbig fbuild c sn xe xm)"
    using guard_pack_outcome [OF assms(3,5), of c sn] assms(2,5) by (simp add: fp_format_def fp_denorm_def)
  show "(if unat xm mod 8 \<noteq> 0 then IEEE754_INEXACT else 0) = (if fround p emin (rmode_of c) v \<noteq> v then IEEE754_INEXACT else 0) OR
      (if tiny p emin (rmode_of c) v \<and> (fround p emin (rmode_of c) v \<noteq> v \<or> uf_enabled c)
       then IEEE754_UNDERFLOW else 0)"
    using ex tn by simp
  show "v < 0 \<longleftrightarrow> sn" unfolding v_def by (rule scaled_sign [OF mb(1)])
qed simp

lemma format_carry:
  assumes "csr_nod c = 0" and "2 ^ (p + 3) \<le> unat xm" and "unat xm < 2 ^ (p + 4)"
    and "cell 4 (unat xm) m" and xe: "xe = emin - 1"
    and carry: "\<not> grnd (rmode_of c) sn (unat xm) < 2 ^ (p + 4)"
    and v_def: "v = sgn_of sn * (m * 2 powi (xe - int p - 3))"
  shows "\<exists>r. fp_format p emin emax ebias fzero fleast finf fbig fbuild c sn xe xm =
      (SETCX (ieee_flags p emin emax (uf_enabled c) (rmode_of c) v) c, r) \<and>
    fp_rounds p emin emax fin neg val finf fbig (rmode_of c) v r"
proof (rule outcome_rounds)
  note mb = cell4_bounds [OF assms(4,2,3)]
  let ?g = "get_rounding c sn xm"
  let ?x = "drop_bit 1 ?g AND NOT (push_bit 3 1 - 1)"
  have g: "unat ?g = grnd (rmode_of c) sn (unat xm)"
    using unat_get_rounding [of xm "p + 4" c sn] assms(3) width by simp
  have g8: "unat ?g div 8 = 2 ^ (p + 1)"
    using grnd_le [of "rmode_of c" sn "unat xm"] carry assms(3) unfolding g
    by (intro div_nat_eqI) (simp_all add: power_add)
  have "unat ?x = unat ?g div 2 ^ 1 div 8 * 8" by (simp only: unat_clear_7 unat_drop_bit)
  also have "\<dots> = unat ?g div 8 div 2 * 8" by (simp flip: div_mult2_eq)
  finally have x: "unat ?x = 2 ^ (p + 3)" by (simp add: g8 power_add)
  have q: "rmag (rmode_of c) sn (m / 8) = int (2 * 2 ^ p)"
    using rmag_grnd [OF assms(4)] g8 by (simp add: g)
  have half: "rmag (rmode_of c) sn (m / 2 ^ 1 / 8) = int (2 ^ p)"
    using rmag_half [OF _ q] mb(2) by (simp add: power_add)
  show fr: "fround p emin (rmode_of c) v = sgn_of sn * (int (2 ^ p) * 2 powi (emin - int p))"
    using scaled_fround_denorm [OF mb, of xe emin "rmode_of c" sn] half by (simp add: v_def xe)
  have "\<not> m / 2 ^ 1 / 8 \<in> \<int>"
    using rmag_Ints [of "rmode_of c" sn "m / 2 ^ 1 / 8"] half mb(2) by (simp add: power_add)
  then have ex: "fround p emin (rmode_of c) v \<noteq> v"
    using scaled_exact [of 1 sn "rmode_of c" m xe] fr half by (simp add: v_def xe)
  have "\<bar>uround p (rmode_of c) v\<bar> = 2 * 2 ^ p * 2 powi (xe - int p)"
    unfolding v_def scaled_uround [OF mb] q abs_sgn_of by simp
  then have tn: "\<not> tiny p emin (rmode_of c) v"
    using powi_shift2_Suc [of p xe] unfolding tiny_def by (simp add: xe)
  show "fp_outcome p emax fin neg val finf fbig c sn IEEE754_INEXACT (int (2 ^ p)) emin
      (fp_format p emin emax ebias fzero fleast finf fbig fbuild c sn xe xm)"
  proof (rule outcome_SETCX)
    have "drop_bit (p + 1 + 3) ?g \<noteq> 0"
      using carry by (simp only: drop_bit_eq_0_iff_unat g) (simp add: add.commute)
    then have "fp_denorm p emin c sn xe xm = (SETCX IEEE754_INEXACT c, emin, ?x)"
      unfolding fp_denorm_def xe by (simp only: if_True simp_thms) simp
    then show "fp_outcome p emax fin neg val finf fbig (SETCX IEEE754_INEXACT c) sn 0 (int (2 ^ p)) emin
        (fp_format p emin emax ebias fzero fleast finf fbig fbuild c sn xe xm)"
      using guard_pack_exact [of ?x emin "SETCX IEEE754_INEXACT c" sn] assms(1) unfolding x
      by (simp only: fp_format_def) (simp add: grnd_def power_add)
  qed simp_all
  show "IEEE754_INEXACT = (if fround p emin (rmode_of c) v \<noteq> v then IEEE754_INEXACT else 0) OR
      (if tiny p emin (rmode_of c) v \<and> (fround p emin (rmode_of c) v \<noteq> v \<or> uf_enabled c)
       then IEEE754_UNDERFLOW else 0)"
    using ex tn by simp
  show "v < 0 \<longleftrightarrow> sn" unfolding v_def by (rule scaled_sign [OF mb(1)])
qed simp

lemma denorm_tiny:
  assumes "2 ^ (p + 3) \<le> unat xm" and "unat xm < 2 ^ (p + 4)" and "cell 4 (unat xm) m" and "xe < emin"
    and nocarry: "xe = emin - 1 \<Longrightarrow> grnd rm sn (unat xm) < 2 ^ (p + 4)"
    and v_def: "v = sgn_of sn * (m * 2 powi (xe - int p - 3))"
  shows "tiny p emin rm v"
proof -
  define q where "q = grnd rm sn (unat xm) div 8"
  have "\<bar>uround p rm v\<bar> = real q * 2 powi (xe - int p)"
    unfolding v_def scaled_uround [OF cell4_bounds [OF assms(3,1,2)]] rmag_grnd [OF assms(3)]
    by (simp add: q_def)
  moreover have "real q * 2 powi (xe - int p) < 2 powi emin"
  proof (cases "xe = emin - 1")
    case True
    then have "q < 2 ^ (p + 1)" using nocarry by (simp add: q_def div_less_iff_less_mult power_add)
    then have "real q < 2 ^ (p + 1)" by (metis of_nat_less_numeral_power_cancel_iff)
    then have "real q * 2 powi (xe - int p) < 2 ^ (p + 1) * 2 powi (xe - int p)"
      by (intro mult_strict_right_mono) simp_all
    then show ?thesis unfolding powi_shift2_Suc using True by simp
  next
    case False
    have "q \<le> 2 ^ (p + 1)" using grnd_le [of rm sn "unat xm"] assms(2)
      by (simp add: q_def power_add less_Suc_eq_le flip: div_less_iff_less_mult)
    then have "real q \<le> 2 ^ (p + 1)" by (metis of_nat_le_numeral_power_cancel_iff)
    then have "real q * 2 powi (xe - int p) \<le> 2 ^ (p + 1) * 2 powi (xe - int p)"
      by (intro mult_right_mono) simp_all
    also have "\<dots> < 2 powi emin" unfolding powi_shift2_Suc using False assms(4) by simp
    finally show ?thesis .
  qed
  ultimately show ?thesis by (simp add: tiny_def)
qed

lemma format_denorm:
  assumes "csr_nod c = 0" and "2 ^ (p + 3) \<le> unat xm" and "unat xm < 2 ^ (p + 4)"
    and "cell 4 (unat xm) m" and xe: "xe < emin"
    and nocarry: "xe = emin - 1 \<Longrightarrow> grnd (rmode_of c) sn (unat xm) < 2 ^ (p + 4)"
    and v_def: "v = sgn_of sn * (m * 2 powi (xe - int p - 3))"
  shows "\<exists>r. fp_format p emin emax ebias fzero fleast finf fbig fbuild c sn xe xm =
      (SETCX (ieee_flags p emin emax (uf_enabled c) (rmode_of c) v) c, r) \<and>
    fp_rounds p emin emax fin neg val finf fbig (rmode_of c) v r"
proof (rule outcome_rounds)
  note mb = cell4_bounds [OF assms(4,2,3)]
  define k n where "k = emin - xe" and "n = srs (unat xm) (nat k)"
  have x: "unat (xsrs p k xm) = n"
    unfolding n_def using assms(2,3) width xe
    by (intro unat_xsrs) (auto simp: k_def intro: less_le_trans [of 0 "2 ^ (p + 3)"])
  have "(2::nat) ^ (p + 4) \<le> 2 ^ (nat k + (p + 3))" using xe by (intro power_increasing) (auto simp: k_def)
  then have n: "n < 2 ^ (p + 3)" unfolding n_def using assms(3) by (intro srs_less) (erule less_le_trans, assumption, simp)
  have cl: "cell 4 n (m / 2 ^ nat k)" unfolding n_def using assms(4) by (rule cell4_srs_shift)
  have q: "rmag (rmode_of c) sn (m / 2 ^ nat k / 8) = int (grnd (rmode_of c) sn n div 8)"
    using cl by (rule rmag_grnd)
  show fr: "fround p emin (rmode_of c) v =
      sgn_of sn * (int (grnd (rmode_of c) sn n div 8) * 2 powi (emin - int p))"
    using scaled_fround_denorm [OF mb, of xe emin "rmode_of c" sn] xe
    by (simp only: v_def q flip: k_def)
  have ex: "fround p emin (rmode_of c) v = v \<longleftrightarrow> n mod 8 = 0"
    using scaled_exact [of k sn "rmode_of c" m xe] fr cell_mod8 [OF cl] xe
    by (simp only: v_def q) (simp add: k_def)
  have tn: "tiny p emin (rmode_of c) v"
    using assms(2-4) xe nocarry v_def by (rule denorm_tiny)
  show "fp_outcome p emax fin neg val finf fbig c sn
      ((if n mod 8 \<noteq> 0 then IEEE754_INEXACT else 0) OR
       (if n mod 8 \<noteq> 0 \<or> uf_enabled c then IEEE754_UNDERFLOW else 0))
      (int (grnd (rmode_of c) sn n div 8)) emin
      (fp_format p emin emax ebias fzero fleast finf fbig fbuild c sn xe xm)"
  proof -
    have "drop_bit (p + 1 + 3) (get_rounding c sn xm) = 0" if "xe = emin - 1"
      using nocarry [OF that] unat_get_rounding [of xm "p + 4" c sn] assms(3) width
      by (simp only: drop_bit_eq_0_iff_unat) (simp add: add.commute)
    then have "fp_denorm p emin c sn xe xm = (c, emin, xsrs p k xm)"
      unfolding fp_denorm_def using xe by (auto simp: k_def)
    moreover have "unat (xsrs p k xm) < 2 ^ (p + 4)" using n by (simp add: x power_add)
    ultimately show ?thesis
      using guard_pack_outcome [of "xsrs p k xm" emin c sn] n assms(1) by (simp only: x fp_format_def) simp
  qed
  show "(if n mod 8 \<noteq> 0 then IEEE754_INEXACT else 0) OR
       (if n mod 8 \<noteq> 0 \<or> uf_enabled c then IEEE754_UNDERFLOW else 0) =
      (if fround p emin (rmode_of c) v \<noteq> v then IEEE754_INEXACT else 0) OR
      (if tiny p emin (rmode_of c) v \<and> (fround p emin (rmode_of c) v \<noteq> v \<or> uf_enabled c)
       then IEEE754_UNDERFLOW else 0)"
    using ex tn by simp
  show "v < 0 \<longleftrightarrow> sn" unfolding v_def by (rule scaled_sign [OF mb(1)])
qed simp

lemma format_correct:
  assumes "csr_nod c = 0" and "2 ^ (p + 3) \<le> unat xm" and "unat xm < 2 ^ (p + 4)"
    and "cell 4 (unat xm) m" and "v = sgn_of sn * (m * 2 powi (xe - int p - 3))"
  shows "\<exists>r. fp_format p emin emax ebias fzero fleast finf fbig fbuild c sn xe xm =
      (SETCX (ieee_flags p emin emax (uf_enabled c) (rmode_of c) v) c, r) \<and>
    fp_rounds p emin emax fin neg val finf fbig (rmode_of c) v r"
  using format_normal [OF assms(1-4) _ assms(5)] format_carry [OF assms(1-4) _ _ assms(5)]
    format_denorm [OF assms(1-4) _ _ assms(5)] by (meson not_le)

end

section \<open>The words of a format are an encoding\<close>

definition fp_zero :: "nat \<Rightarrow> bool \<Rightarrow> 'a::len word" where
  "fp_zero p s = fbuild p s 0 0"

definition fp_min :: "nat \<Rightarrow> bool \<Rightarrow> 'a::len word" where
  "fp_min p s = fbuild p s 1 0"

definition fp_inf :: "nat \<Rightarrow> bool \<Rightarrow> 'a::len word" where
  "fp_inf p s = fbuild p s (2 ^ (LENGTH('a) - 1 - p) - 1) 0"

definition fp_max :: "nat \<Rightarrow> bool \<Rightarrow> 'a::len word" where
  "fp_max p s = fbuild p s (2 ^ (LENGTH('a) - 1 - p) - 2) (mask p)"

definition fp_fmt :: "nat \<Rightarrow> int \<Rightarrow> int \<Rightarrow> ieee754_csr \<Rightarrow> bool \<Rightarrow> int \<Rightarrow> 'a::len word \<Rightarrow> ieee754_csr \<times> 'a word" where
  "fp_fmt p emin emax =
     fp_format p emin emax (1 - emin) (fp_zero p) (fp_min p) (fp_inf p) (fp_max p) (fbuild p)"

definition fp_correct :: "nat \<Rightarrow> int \<Rightarrow> int \<Rightarrow> rmode \<Rightarrow> real \<Rightarrow> 'a::len word \<Rightarrow> bool" where
  "fp_correct p emin emax =
     fp_rounds p emin emax (fp_fin p) fsign (fp_val p emin) (fp_inf p) (fp_max p)"

sublocale fp_word \<subseteq> enc: fp_encoding p emin emax ebias "fp_zero p" "fp_min p" "fp_inf p" "fp_max p"
  "fbuild p" "fp_fin p" fsign "fp_val p emin :: 'a word \<Rightarrow> real"
  by unfold_locales (use width emin_emax build_denorm build_norm in simp_all)

context fp_word
begin

lemma fmt_correct:
  fixes xm :: "'a word"
  assumes "csr_nod c = 0" and "2 ^ (p + 3) \<le> unat xm" and "unat xm < 2 ^ (p + 4)"
    and "cell 4 (unat xm) m" and "v = sgn_of sn * (m * 2 powi (xe - int p - 3))"
  shows "\<exists>r. fp_fmt p emin emax c sn xe xm =
      (SETCX (ieee_flags p emin emax (uf_enabled c) (rmode_of c) v) c, r) \<and>
    fp_correct p emin emax (rmode_of c) v r"
  using enc.format_correct [OF assms] by (simp add: fp_fmt_def fp_correct_def bias)

text \<open>A finite nonzero operand, normalised as the arithmetic functions do it.\<close>

lemma operand:
  fixes x :: "'a word"
  assumes ex: "fp_explode p emin emax ebias x = (k, s, e, m)" and k: "k = CLASS_NORM \<or> k = CLASS_DNORM"
  obtains m' e' where "(if k = CLASS_DNORM then norm_up p (m, e) else (m, e)) = (m', e')"
    and "2 ^ p \<le> unat m'" and "unat m' < 2 ^ (p + 1)"
    and "fp_val p emin x = sgn_of s * (unat m' * 2 powi (e' - int p))"
proof (cases "k = CLASS_DNORM")
  case True
  note ez = explode_nonzero [OF ex k]
  obtain m' j where m': "norm_up p (m, e) = (m', e - int j)" "unat m' = unat m * 2 ^ j"
      "2 ^ p \<le> unat m'" "unat m' < 2 ^ (p + 1)"
    using norm_up [OF ez(3,4) len(1), of e] by blast
  have "unat m * 2 powi (e - int p) = unat m' * (2 powi (e - int j - int p) :: real)"
    by (simp add: m'(2) powi_diff2 power_int_of_nat)
  then show thesis using that m' True ez(2) by simp
next
  case False
  with k explode_nonzero [OF ex k] show thesis by (intro that [of m e]) simp_all
qed

lemma val_nonzero_iff:
  fixes x :: "'a word"
  assumes "fp_fin p x"
  shows "fp_val p emin x \<noteq> 0 \<longleftrightarrow> fp_class p x = CLASS_NORM \<or> fp_class p x = CLASS_DNORM"
proof -
  obtain k s e m where ex: "fp_explode p emin emax ebias x = (k, s, e, m)" by (metis prod_cases4)
  show ?thesis
    using explode_nonzero [OF ex] explode_class [OF ex] class_zero [of x] class_fin [of x] assms by fastforce
qed

lemma val_zero_iff: "fp_fin p (x :: 'a word) \<Longrightarrow> fp_val p emin x = 0 \<longleftrightarrow> fp_class p x = CLASS_ZERO"
  using val_nonzero_iff [of x] class_fin [of x] by auto

lemma self_exponent:
  fixes x :: "'a word"
  assumes ex: "fp_explode p emin emax ebias x = (k, s, e, m)" and k: "k = CLASS_NORM \<or> k = CLASS_DNORM"
  shows "\<bar>fp_val p emin x\<bar> < 2 powi (e + 1)" and "max emin \<lfloor>log 2 \<bar>fp_val p emin x\<bar>\<rfloor> = e"
    and "k = CLASS_NORM \<Longrightarrow> \<lfloor>log 2 \<bar>fp_val p emin x\<bar>\<rfloor> = e \<and> 2 powi e \<le> \<bar>fp_val p emin x\<bar>"
proof -
  note ez = explode_nonzero [OF ex k]
  define v where "v = fp_val p emin x"
  have av: "\<bar>v\<bar> = unat m * 2 powi (e - int p)" unfolding v_def ez(2) by simp
  have "real (unat m) < 2 ^ (p + 1)" using ez(4) by (metis of_nat_less_numeral_power_cancel_iff)
  then have "unat m * 2 powi (e - int p) < 2 ^ (p + 1) * (2 powi (e - int p) :: real)"
    by (intro mult_strict_right_mono) simp_all
  then show hi: "\<bar>fp_val p emin x\<bar> < 2 powi (e + 1)" unfolding powi_shift2_Suc av [symmetric] v_def .
  have pos: "0 < \<bar>v\<bar>" using ez(3) unfolding av by simp
  have "(2::real) powi (e + 1) = 2 powr real_of_int (e + 1)" by (rule powr_real_of_int' [symmetric]) simp_all
  then have "\<bar>v\<bar> < 2 powr real_of_int (e + 1)" using hi by (simp add: v_def)
  then have "log 2 \<bar>v\<bar> < real_of_int (e + 1)" using pos by (subst log_less_iff) simp_all
  then have le: "\<lfloor>log 2 \<bar>v\<bar>\<rfloor> \<le> e" by linarith
  show norm: "\<lfloor>log 2 \<bar>fp_val p emin x\<bar>\<rfloor> = e \<and> 2 powi e \<le> \<bar>fp_val p emin x\<bar>" if "k = CLASS_NORM"
  proof -
    have "2 ^ p \<le> real (unat m)" using ez(7) that by (metis of_nat_le_iff of_nat_numeral of_nat_power)
    then have "2 ^ p * 2 powi (e - int p) \<le> \<bar>v\<bar>" unfolding av by (intro mult_right_mono) simp_all
    then have "2 powi e \<le> \<bar>fp_val p emin x\<bar>" unfolding powi_shift2 v_def .
    with floor_log2_eq [OF this hi] show ?thesis by simp
  qed
  show "max emin \<lfloor>log 2 \<bar>fp_val p emin x\<bar>\<rfloor> = e"
    using norm ez(5,8) k le unfolding v_def [symmetric] by (cases "k = CLASS_NORM") auto
qed

lemma fround_self:
  fixes x :: "'a word"
  assumes ex: "fp_explode p emin emax ebias x = (k, s, e, m)" and k: "k = CLASS_NORM \<or> k = CLASS_DNORM"
  shows "fround p emin rm (fp_val p emin x) = fp_val p emin x"
    and "k = CLASS_NORM \<Longrightarrow> uround p rm (fp_val p emin x) = fp_val p emin x"
proof -
  note ez = explode_nonzero [OF ex k] and se = self_exponent [OF ex k]
  have "fp_val p emin x / 2 powi (e - int p) = of_int (if s then - int (unat m) else int (unat m))"
    unfolding ez(2) by simp
  then have "round_at rm (e - int p) (fp_val p emin x) = fp_val p emin x"
    unfolding round_at_def by (simp only: rint_of_int) (simp add: ez(2))
  then show "fround p emin rm (fp_val p emin x) = fp_val p emin x"
    "k = CLASS_NORM \<Longrightarrow> uround p rm (fp_val p emin x) = fp_val p emin x"
    unfolding fround_def fexp_def uround_def using se(2,3) by simp_all
qed

lemma correct_self:
  fixes x :: "'a word"
  assumes "fp_fin p x" and "fp_val p emin x \<noteq> 0"
  shows "fp_correct p emin emax rm (fp_val p emin x) x"
    and "fp_class p x = CLASS_NORM \<Longrightarrow> ieee_flags p emin emax trap rm (fp_val p emin x) = 0"
proof -
  obtain k s e m where ex: "fp_explode p emin emax ebias x = (k, s, e, m)" by (metis prod_cases4)
  have k: "k = CLASS_NORM \<or> k = CLASS_DNORM" using val_nonzero_iff [OF assms(1)] assms(2) explode_class [OF ex] by simp
  note ez = explode_nonzero [OF ex k] and se = self_exponent [OF ex k] and fr = fround_self [OF ex k]
  have "fp_val p emin x < 0 \<longleftrightarrow> fsign x"
    using ez(3) explode_class(2) [OF ex] unfolding ez(2) by (cases s) (simp_all add: not_less)
  moreover have "(2::real) powi (e + 1) \<le> 2 powi (emax + 1)" using ez(6) by simp
  then have no: "\<not> overflows p emin emax rm (fp_val p emin x)" using se(1) unfolding overflows_def fr(1) by linarith
  ultimately show "fp_correct p emin emax rm (fp_val p emin x) x"
    using assms(1) fr(1) unfolding fp_correct_def fp_rounds_def by simp
  assume norm: "fp_class p x = CLASS_NORM"
  then have kn: "k = CLASS_NORM" using explode_class [OF ex] by simp
  have "(2::real) powi emin \<le> 2 powi e" using ez(5) by simp
  then have "\<not> tiny p emin rm (fp_val p emin x)" using se(3) [OF kn] unfolding tiny_def fr(2) [OF kn] by linarith
  then show "ieee_flags p emin emax trap rm (fp_val p emin x) = 0" using no fr(1) by (simp add: ieee_flags_def)
qed

lemma nonzero_operand:
  fixes x :: "'a word"
  assumes "fp_fin p x" and "fp_val p emin x \<noteq> 0"
  obtains k e m m' e' where "fp_explode p emin emax ebias x = (k, fsign x, e, m)"
    and "k = CLASS_NORM \<or> k = CLASS_DNORM"
    and "(if k = CLASS_DNORM then norm_up p (m, e) else (m, e)) = (m', e')"
    and "2 ^ p \<le> unat m'" and "unat m' < 2 ^ (p + 1)"
    and "fp_val p emin x = sgn_of (fsign x) * (unat m' * 2 powi (e' - int p))"
proof -
  obtain k s e m where ex: "fp_explode p emin emax ebias x = (k, s, e, m)" by (metis prod_cases4)
  have k: "k = CLASS_NORM \<or> k = CLASS_DNORM" using val_nonzero_iff [OF assms(1)] assms(2) explode_class [OF ex] by simp
  have s: "s = fsign x" by (rule explode_class [OF ex])
  obtain m' e' where "(if k = CLASS_DNORM then norm_up p (m, e) else (m, e)) = (m', e')"
    "2 ^ p \<le> unat m'" "unat m' < 2 ^ (p + 1)" "fp_val p emin x = sgn_of s * (unat m' * 2 powi (e' - int p))"
    by (rule operand [OF ex k])
  then show thesis using that ex k unfolding s by blast
qed

lemma zero_operand:
  fixes x :: "'a word"
  assumes "fp_fin p x" and "fp_val p emin x = 0"
  obtains e m where "fp_explode p emin emax ebias x = (CLASS_ZERO, fsign x, e, m)" and "x = fp_zero p (fsign x)"
proof -
  obtain k s e m where ex: "fp_explode p emin emax ebias x = (k, s, e, m)" by (metis prod_cases4)
  have k: "fp_class p x = CLASS_ZERO" using val_zero_iff [OF assms(1)] assms(2) by simp
  show thesis
    using ex explode_class [OF ex] k class_zero(3) [OF k] by (intro that) (simp_all add: fp_zero_def)
qed

end

end
