(* ===== verification/Fp_Mul.thy ===== *)
theory Fp_Mul
  imports Fp_Encoding
begin

text \<open>
  The tail of multiplication (\<^verbatim>\<open>sp_mul.c\<close>, \<^verbatim>\<open>dp_mul.c\<close>): the high word of the double width
  product is put together from the four products of half words, with a sticky bit for a nonzero
  low word, and shifted down to rounding precision.
\<close>

section \<open>The code\<close>

text \<open>One middle product: \<^verbatim>\<open>at = lrm + (t << h); hrm += at < lrm; lrm = at; hrm = hrm + (t >> h)\<close>.\<close>

definition mul_mid :: "nat \<Rightarrow> 'a::len word \<Rightarrow> 'a word \<times> 'a word \<Rightarrow> 'a word \<times> 'a word" where
  "mul_mid h t = (\<lambda>(hrm, lrm).
     let at' = lrm + push_bit h t;
         hrm = hrm + of_bool (at' < lrm);
         lrm = at'
     in (hrm + drop_bit h t, lrm))"

definition mul_high :: "'a::len word \<Rightarrow> 'a word \<Rightarrow> 'a word" where
  "mul_high xm ym =
     (let h = LENGTH('a) div 2;
          lxm = take_bit h xm; hxm = drop_bit h xm;
          lym = take_bit h ym; hym = drop_bit h ym;
          lrm = lxm * lym;
          hrm = hxm * hym;
          (hrm, lrm) = mul_mid h (lxm * hym) (hrm, lrm);
          (hrm, lrm) = mul_mid h (hxm * lym) (hrm, lrm)
      in hrm OR of_bool (lrm \<noteq> 0))"

definition fp_mul_core ::
  "nat \<Rightarrow> (ieee754_csr \<Rightarrow> bool \<Rightarrow> int \<Rightarrow> 'a::len word \<Rightarrow> ieee754_csr \<times> 'a word) \<Rightarrow>
   ieee754_csr \<Rightarrow> bool \<Rightarrow> int \<Rightarrow> 'a word \<Rightarrow> bool \<Rightarrow> int \<Rightarrow> 'a word \<Rightarrow> ieee754_csr \<times> 'a word" where
  "fp_mul_core p normret c xs xe xm ys ye ym =
     (let re = xe + ye; rs = (xs \<noteq> ys); L = LENGTH('a);
          xm = push_bit (L - (p + 1)) xm;
          ym = push_bit (L - (p + 1)) ym;
          rm = mul_high xm ym;
          (rm, re) = (if bit rm (L - 1) then
              (drop_bit (L - (p + 1 + 3)) rm OR of_bool (push_bit (p + 1 + 3) rm \<noteq> 0), re + 1)
            else
              (drop_bit (L - (p + 1 + 3 + 1)) rm OR of_bool (push_bit (p + 1 + 3 + 1) rm \<noteq> 0), re))
      in normret c rs re rm)"

section \<open>The double width product\<close>

lemma unat_add_carry:
  fixes a b :: "'a::len word"
  shows "unat (a + b) + 2 ^ LENGTH('a) * of_bool (a + b < a) = unat a + unat b"
proof (cases "unat a + unat b < 2 ^ LENGTH('a)")
  case True
  then show ?thesis by (simp add: unat_add_small word_less_nat_alt)
next
  case False
  have "unat a < 2 ^ LENGTH('a)" "unat b < 2 ^ LENGTH('a)" by (rule unsigned_less)+
  moreover from this False have "unat (a + b) = unat a + unat b - 2 ^ LENGTH('a)"
    unfolding unat_word_ariths by (subst le_mod_geq) (simp, rule mod_less, linarith)
  ultimately have "unat (a + b) = unat a + unat b - 2 ^ LENGTH('a)" "unat (a + b) < unat a"
    using False by linarith+
  then show ?thesis using False by (simp add: word_less_nat_alt)
qed

lemma power_4h: "(2::nat) ^ (4 * h) = 2 ^ h * 2 ^ h * (2 ^ h * 2 ^ h)"
proof -
  have "4 * h = h + h + (h + h)" by simp
  then show ?thesis by (simp only: power_add)
qed

lemma mul_mid_value:
  fixes t hr lr :: "'a::len word"
  assumes L: "LENGTH('a) = 2 * h"
    and fits: "unat hr * 2 ^ (2 * h) + unat lr + unat t * 2 ^ h < 2 ^ (4 * h)"
    and res: "mul_mid h t (hr, lr) = (hr', lr')"
  shows "unat hr' * 2 ^ (2 * h) + unat lr' = unat hr * 2 ^ (2 * h) + unat lr + unat t * 2 ^ h"
proof -
  define B where "B = (2::nat) ^ h"
  have BB: "(2::nat) ^ (2 * h) = B * B" "(2::nat) ^ LENGTH('a) = B * B"
    by (simp_all add: B_def L mult_2 power_add)
  have B0: "0 < B" by (simp add: B_def)
  have tl: "unat (push_bit h t) = unat t mod B * B"
    by (simp add: unat_push_bit_mod BB flip: B_def)
  have th: "unat (drop_bit h t) = unat t div B" by (simp add: unat_drop_bit B_def)
  have ll: "unat lr < B * B" using unsigned_less [of lr, where ?'a = nat] BB(2) by simp
  have lt: "unat t mod B * B < B * B" using B0 by simp
  have lr': "lr' = lr + push_bit h t" and hr': "hr' = hr + of_bool (lr' < lr) + drop_bit h t"
    using res by (auto simp: mul_mid_def Let_def)
  define k where "k = unat hr + of_bool (lr' < lr) + unat t div B"
  have "unat lr' + B * B * of_bool (lr' < lr) = unat lr + unat t mod B * B"
    unfolding lr' BB(2) [symmetric] tl [symmetric] by (rule unat_add_carry)
  moreover have "unat t * B = unat t div B * (B * B) + unat t mod B * B"
    by (metis add_mult_distrib div_mult_mod_eq mult.assoc)
  ultimately have total: "k * (B * B) + unat lr' = unat hr * (B * B) + unat lr + unat t * B"
    unfolding k_def by (simp add: algebra_simps)
  have "unat hr * (B * B) + unat lr + unat t * B < B * B * (B * B)"
    using fits unfolding BB(1) power_4h B_def [symmetric] .
  then have "k * (B * B) < B * B * (B * B)" using total by linarith
  then have kl: "k < B * B" by simp
  have "unat (hr + of_bool (lr' < lr)) = unat hr + of_bool (lr' < lr)"
    using kl BB(2) by (subst unat_add_small) (simp_all add: k_def)
  then have "unat hr' = k"
    unfolding hr' using kl BB(2) th by (subst unat_add_small) (simp_all add: k_def)
  then show ?thesis using total by (simp only: BB(1) B_def [symmetric])
qed

lemma unat_mult_small:
  fixes a b :: "'a::len word"
  assumes "unat a * unat b < 2 ^ LENGTH('a)"
  shows "unat (a * b) = unat a * unat b"
  using assms by (simp add: unat_word_ariths)

lemma mul_high_value:
  fixes xm ym :: "'a::len word"
  assumes L: "LENGTH('a) = 2 * h"
  shows "unat (mul_high xm ym) = srs (unat xm * unat ym) LENGTH('a)"
proof -
  define B where "B = (2::nat) ^ h"
  have B0: "0 < B" by (simp add: B_def)
  have BB: "(2::nat) ^ (2 * h) = B * B" "(2::nat) ^ LENGTH('a) = B * B" "(2::nat) ^ (4 * h) = B * B * (B * B)"
    by (simp_all add: B_def L power_4h mult_2 power_add)
  let ?lx = "take_bit h xm" let ?hx = "drop_bit h xm" let ?ly = "take_bit h ym" let ?hy = "drop_bit h ym"
  have u: "unat ?lx = unat xm mod B" "unat ?hx = unat xm div B" "unat ?ly = unat ym mod B" "unat ?hy = unat ym div B"
    by (simp_all add: unat_take_bit unat_drop_bit B_def)
  have small: "unat ?lx < B" "unat ?hx < B" "unat ?ly < B" "unat ?hy < B"
    using unsigned_less [of xm, where ?'a = nat] unsigned_less [of ym, where ?'a = nat] B0
    unfolding u BB(2) by (simp_all add: less_mult_imp_div_less)
  have prod: "unat (a * b) = unat a * unat b" if "unat a < B" "unat b < B" for a b :: "'a word"
    using that by (intro unat_mult_small) (simp add: BB mult_strict_mono')
  define X Y where "X = unat xm" and "Y = unat ym"
  have XY: "X * Y = unat ?hx * unat ?hy * (B * B) + unat ?lx * unat ?ly + unat ?lx * unat ?hy * B + unat ?hx * unat ?ly * B"
  proof -
    have "X = unat ?hx * B + unat ?lx" "Y = unat ?hy * B + unat ?ly" unfolding u X_def Y_def by simp_all
    then show ?thesis by (simp add: algebra_simps)
  qed
  have "X * Y < B * B * (B * B)"
    using unsigned_less [of xm, where ?'a = nat] unsigned_less [of ym, where ?'a = nat]
    unfolding X_def Y_def BB(2) by (intro mult_strict_mono') simp_all
  note fits = this [unfolded XY]
  obtain h1 l1 where m1: "mul_mid h (?lx * ?hy) (?hx * ?hy, ?lx * ?ly) = (h1, l1)" by fastforce
  obtain h2 l2 where m2: "mul_mid h (?hx * ?ly) (h1, l1) = (h2, l2)" by fastforce
  have v1: "unat h1 * (B * B) + unat l1 = unat ?hx * unat ?hy * (B * B) + unat ?lx * unat ?ly + unat ?lx * unat ?hy * B"
    using mul_mid_value [OF L _ m1] fits small by (simp add: prod BB flip: B_def)
  have v2: "unat h2 * (B * B) + unat l2 = X * Y"
    using mul_mid_value [OF L _ m2] fits small v1 unfolding XY by (simp add: prod BB flip: B_def)
  have "unat l2 < B * B" using unsigned_less [of l2, where ?'a = nat] BB(2) by simp
  then have d: "X * Y div (B * B) = unat h2" "X * Y mod (B * B) = unat l2"
    unfolding v2 [symmetric] using B0 by simp_all
  have "mul_high xm ym = h2 OR of_bool (l2 \<noteq> 0)"
    using m1 m2 by (simp add: mul_high_def L Let_def)
  then show ?thesis
    using d unfolding X_def [symmetric] Y_def [symmetric]
    by (cases "l2 = 0") (simp_all add: srs_def BB unat_or_1 unat_eq_0)
qed

section \<open>Correct rounding\<close>

lemma bit_top_iff:
  fixes w :: "'a::len word"
  shows "bit w (LENGTH('a) - 1) \<longleftrightarrow> 2 ^ (LENGTH('a) - 1) \<le> unat w"
proof -
  have "Suc (LENGTH('a) - 1) = LENGTH('a)" by simp
  then have "unat w < 2 ^ Suc (LENGTH('a) - 1)" using unsigned_less [of w, where ?'a = nat] by metis
  then have "unat w div 2 ^ (LENGTH('a) - 1) < 2" by (intro less_mult_imp_div_less) (simp only: power_Suc)
  then have "odd (unat w div 2 ^ (LENGTH('a) - 1)) \<longleftrightarrow> 1 \<le> unat w div 2 ^ (LENGTH('a) - 1)"
    by (auto simp: less_2_cases_iff)
  then show ?thesis
    using bit_unsigned_iff [of w "LENGTH('a) - 1", where ?'a = nat]
    by (simp add: bit_iff_odd [of "unat w"] less_eq_div_iff_mult_less_eq)
qed

context fp_word
begin

lemma mul_normalise:
  fixes R :: "'a word"
  assumes nod: "csr_nod c = 0" and k: "k + (p + 4) \<le> LENGTH('a)"
    and R: "2 ^ (k + (p + 3)) \<le> unat R" "unat R < 2 ^ (k + (p + 4))" "unat R = srs P LENGTH('a)"
    and v: "v = sgn_of s * (P / 2 ^ LENGTH('a) / 2 ^ k * 2 powi (e - int p - 3))"
  shows "\<exists>r. fp_fmt p emin emax c s e (drop_bit k R OR of_bool (push_bit (LENGTH('a) - k) R \<noteq> 0)) =
      (SETCX (ieee_flags p emin emax (uf_enabled c) (rmode_of c) v) c, r) \<and>
    fp_correct p emin emax (rmode_of c) v r"
proof (rule fmt_correct [OF nod _ _ _ v])
  have u: "unat (drop_bit k R OR of_bool (push_bit (LENGTH('a) - k) R \<noteq> 0)) = srs (unat R) k"
    using k by (intro unat_sticky) simp
  show "unat (drop_bit k R OR of_bool (push_bit (LENGTH('a) - k) R \<noteq> 0)) < 2 ^ (p + 4)"
    unfolding u using R(2) by (rule srs_less) simp
  have "2 ^ (p + 3) \<le> unat R div 2 ^ k"
    using R(1) by (simp add: less_eq_div_iff_mult_less_eq mult.commute flip: power_add)
  then show "2 ^ (p + 3) \<le> unat (drop_bit k R OR of_bool (push_bit (LENGTH('a) - k) R \<noteq> 0))"
    unfolding u using srs_ge [of "unat R" k] by (rule le_trans)
  show "cell 4 (unat (drop_bit k R OR of_bool (push_bit (LENGTH('a) - k) R \<noteq> 0))) (P / 2 ^ LENGTH('a) / 2 ^ k)"
    unfolding u by (intro cell_2_4 cell_srs_shift) (simp only: R(3) cell_srs)
qed

lemma mul_core_correct:
  fixes xm ym :: "'a word"
  assumes nod: "csr_nod c = 0" and x: "2 ^ p \<le> unat xm" "unat xm < 2 ^ (p + 1)"
    and y: "2 ^ p \<le> unat ym" "unat ym < 2 ^ (p + 1)" and even: "LENGTH('a) = 2 * h"
    and v: "v = (sgn_of xs * (unat xm * 2 powi (xe - int p))) * (sgn_of ys * (unat ym * 2 powi (ye - int p)))"
  shows "\<exists>r. fp_mul_core p (fp_fmt p emin emax) c xs xe xm ys ye ym =
      (SETCX (ieee_flags p emin emax (uf_enabled c) (rmode_of c) v) c, r) \<and>
    fp_correct p emin emax (rmode_of c) v r"
proof -
  let ?L = "LENGTH('a)"
  define k where "k = ?L - (p + 1)"
  have kL: "?L = p + 1 + k" "4 \<le> k" using width by (simp_all add: k_def)
  have sh: "unat (push_bit k m) = unat m * 2 ^ k \<and> 2 ^ (p + k) \<le> unat m * 2 ^ k" 
    if "2 ^ p \<le> unat m" "unat m < 2 ^ (p + 1)" for m :: "'a word"
    using that by (simp add: unat_push_bit kL(1) power_add)
  define R P where "R = mul_high (push_bit k xm) (push_bit k ym)" and "P = unat xm * 2 ^ k * (unat ym * 2 ^ k)"
  have R: "unat R = srs P ?L" unfolding R_def P_def using mul_high_value [OF even] sh [OF x] sh [OF y] by simp
  have "2 ^ (p + k) * 2 ^ (p + k) \<le> P" unfolding P_def using sh [OF x] sh [OF y] by (intro mult_mono) simp_all
  moreover have "p + k + (p + k) = p + k - 1 + ?L" using kL by simp
  ultimately have "2 ^ (p + k - 1) * 2 ^ ?L \<le> P" by (simp only: flip: power_add)
  then have "2 ^ (p + k - 1) \<le> P div 2 ^ ?L" by (simp add: less_eq_div_iff_mult_less_eq)
  then have R2: "2 ^ (p + k - 1) \<le> unat R" unfolding R using srs_ge [of P ?L] by (rule le_trans)
  have sg: "sgn_of (xs \<noteq> ys) = sgn_of xs * sgn_of ys" by (cases xs; cases ys) simp_all
  have P: "v = sgn_of (xs \<noteq> ys) * (P / 2 ^ ?L / 2 ^ j * 2 powi (xe + ye + (int j - int k + 4) - int p - 3))" if "j \<le> k" for j
  proof -
    have k2: "(2::real) ^ k = 2 powi (int ?L - int p - 1)" "(2::real) ^ ?L = 2 powi int ?L" "(2::real) ^ j = 2 powi int j"
      using kL(1) by (simp_all flip: power_int_of_nat)
    have "int k = int ?L - int p - 1" using kL(1) by simp
    then have pw: "(2::real) ^ k * 2 ^ k / 2 ^ ?L / 2 ^ j * 2 powi (xe + ye + (int j - int k + 4) - int p - 3) =
        2 powi (xe - int p) * 2 powi (ye - int p)"
      unfolding k2 by (simp only: flip: powi_add2 powi_diff2) (simp add: algebra_simps)
    have "v = sgn_of (xs \<noteq> ys) * (unat xm * unat ym * (2 powi (xe - int p) * 2 powi (ye - int p)))"
      unfolding v sg by (simp only: mult_ac of_nat_mult)
    also have "\<dots> = sgn_of (xs \<noteq> ys) * (P / 2 ^ ?L / 2 ^ j * 2 powi (xe + ye + (int j - int k + 4) - int p - 3))"
      unfolding pw [symmetric] P_def by simp
    finally show ?thesis .
  qed
  have "?L - (p + 1 + 3) = k - 3" "?L - (p + 1 + 3 + 1) = k - 4" "p + 1 + 3 = ?L - (k - 3)" "p + 1 + 3 + 1 = ?L - (k - 4)"
    using kL by simp_all
  then have core: "fp_mul_core p (fp_fmt p emin emax) c xs xe xm ys ye ym =
      (if bit R (?L - 1)
       then fp_fmt p emin emax c (xs \<noteq> ys) (xe + ye + 1) (drop_bit (k - 3) R OR of_bool (push_bit (?L - (k - 3)) R \<noteq> 0))
       else fp_fmt p emin emax c (xs \<noteq> ys) (xe + ye) (drop_bit (k - 4) R OR of_bool (push_bit (?L - (k - 4)) R \<noteq> 0)))"
    unfolding fp_mul_core_def Let_def R_def k_def [symmetric] by (simp only: split: prod.split if_split) simp
  show ?thesis
  proof (cases "bit R (?L - 1)")
    case True
    have e: "?L - 1 = k - 3 + (p + 3)" "?L = k - 3 + (p + 4)" using kL by simp_all
    have ge: "2 ^ (k - 3 + (p + 3)) \<le> unat R" using True unfolding bit_top_iff by (simp only: e(1))
    have lt: "unat R < 2 ^ (k - 3 + (p + 4))" using unsigned_less [of R, where ?'a = nat] by (metis e(2))
    have "v = sgn_of (xs \<noteq> ys) * (P / 2 ^ ?L / 2 ^ (k - 3) * 2 powi (xe + ye + 1 - int p - 3))"
      using P [of "k - 3"] kL(2) by simp
    from mul_normalise [OF nod _ ge lt R this] True e show ?thesis
      by (simp only: core if_True)
  next
    case False
    have e: "?L - 1 = k - 4 + (p + 4)" "p + k - 1 = k - 4 + (p + 3)" using kL by simp_all
    have lt: "unat R < 2 ^ (k - 4 + (p + 4))" using False unfolding bit_top_iff by (simp only: e(1) not_le)
    have "v = sgn_of (xs \<noteq> ys) * (P / 2 ^ ?L / 2 ^ (k - 4) * 2 powi (xe + ye - int p - 3))"
      using P [of "k - 4"] kL(2) by simp
    from mul_normalise [OF nod _ R2 [unfolded e] lt R this] False e show ?thesis
      by (simp only: core if_False)
  qed
qed

end

section \<open>Finite operands\<close>

definition fp_mul_finite :: "nat \<Rightarrow> int \<Rightarrow> int \<Rightarrow> ieee754_csr \<Rightarrow> 'a::len word \<Rightarrow> 'a word \<Rightarrow> ieee754_csr \<times> 'a word" where
  "fp_mul_finite p emin emax c x y =
     (let (xc, xs, xe, xm) = fp_explode p emin emax (1 - emin) x;
          (yc, ys, ye, ym) = fp_explode p emin emax (1 - emin) y
      in if xc = CLASS_ZERO \<or> yc = CLASS_ZERO then (c, fp_zero p (xs \<noteq> ys))
         else
           let (xm, xe) = (if xc = CLASS_DNORM then norm_up p (xm, xe) else (xm, xe));
               (ym, ye) = (if yc = CLASS_DNORM then norm_up p (ym, ye) else (ym, ye))
           in fp_mul_core p (fp_fmt p emin emax) c xs xe xm ys ye ym)"

context fp_word
begin

lemma mul_finite_zero:
  fixes x y :: "'a word"
  assumes "fp_fin p x" "fp_fin p y" and "fp_val p emin x = 0 \<or> fp_val p emin y = 0"
  shows "fp_mul_finite p emin emax c x y = (c, fp_zero p (fsign x \<noteq> fsign y))"
proof -
  obtain kx xs xe xm where x: "fp_explode p emin emax ebias x = (kx, xs, xe, xm)" by (metis prod_cases4)
  obtain ky ys ye ym where y: "fp_explode p emin emax ebias y = (ky, ys, ye, ym)" by (metis prod_cases4)
  have "kx = CLASS_ZERO \<or> ky = CLASS_ZERO"
    using assms val_zero_iff [of x] val_zero_iff [of y] explode_class [OF x] explode_class [OF y] by simp
  then show ?thesis
    using x y explode_class(2) [OF x] explode_class(2) [OF y] unfolding bias by (simp add: fp_mul_finite_def)
qed

lemma mul_finite_correct:
  fixes x y :: "'a word"
  assumes nod: "csr_nod c = 0" and fin: "fp_fin p x" "fp_fin p y" and even: "LENGTH('a) = 2 * h"
    and v: "v = fp_val p emin x * fp_val p emin y"
  shows "\<exists>r. fp_mul_finite p emin emax c x y =
      (if v = 0 then c else SETCX (ieee_flags p emin emax (uf_enabled c) (rmode_of c) v) c, r) \<and>
    (if v = 0 then r = fp_zero p (fsign x \<noteq> fsign y) else fp_correct p emin emax (rmode_of c) v r)"
proof (cases "fp_val p emin x = 0 \<or> fp_val p emin y = 0")
  case True
  then show ?thesis using mul_finite_zero [OF fin True] v by auto
next
  case False
  obtain kx xe xm xm' xe' where x: "fp_explode p emin emax ebias x = (kx, fsign x, xe, xm)"
    "kx = CLASS_NORM \<or> kx = CLASS_DNORM" "(if kx = CLASS_DNORM then norm_up p (xm, xe) else (xm, xe)) = (xm', xe')"
    "2 ^ p \<le> unat xm'" "unat xm' < 2 ^ (p + 1)" "fp_val p emin x = sgn_of (fsign x) * (unat xm' * 2 powi (xe' - int p))"
    using nonzero_operand [OF fin(1)] False by blast
  obtain ky ye ym ym' ye' where y: "fp_explode p emin emax ebias y = (ky, fsign y, ye, ym)"
    "ky = CLASS_NORM \<or> ky = CLASS_DNORM" "(if ky = CLASS_DNORM then norm_up p (ym, ye) else (ym, ye)) = (ym', ye')"
    "2 ^ p \<le> unat ym'" "unat ym' < 2 ^ (p + 1)" "fp_val p emin y = sgn_of (fsign y) * (unat ym' * 2 powi (ye' - int p))"
    using nonzero_operand [OF fin(2)] False by blast
  have "fp_mul_finite p emin emax c x y = fp_mul_core p (fp_fmt p emin emax) c (fsign x) xe' xm' (fsign y) ye' ym'"
    using x(1-3) y(1-3) unfolding bias by (auto simp: fp_mul_finite_def)
  moreover have "v \<noteq> 0" using False v by simp
  ultimately show ?thesis
    using mul_core_correct [OF nod x(4,5) y(4,5) even v [unfolded x(6) y(6)]] by simp
qed

end

end
