(* ===== verification/Fp_Add.thy ===== *)
theory Fp_Add
  imports Fp_Encoding
begin

text \<open>
  The common tail of addition and subtraction (\<^verbatim>\<open>sp_add.c\<close>, \<^verbatim>\<open>sp_sub.c\<close>, \<^verbatim>\<open>dp_add.c\<close>,
  \<^verbatim>\<open>dp_sub.c\<close>): both mantissas are normalised, the one of the smaller exponent is shifted right
  with a sticky bit, the magnitudes are added or subtracted, and the result is normalised and
  formatted. \<open>add_core_correct\<close> shows that the sum of the two real values is correctly rounded.
\<close>

section \<open>The code\<close>

definition fp_align ::
  "nat \<Rightarrow> int \<Rightarrow> 'a::len word \<Rightarrow> int \<Rightarrow> 'a word \<Rightarrow> int \<times> 'a word \<times> int \<times> 'a word" where
  "fp_align p xe xm ye ym =
     (if xe > ye then (xe, xm, ye + (xe - ye), xsrs p (xe - ye) ym)
      else if ye > xe then (xe + (ye - xe), xsrs p (ye - xe) xm, ye, ym)
      else (xe, xm, ye, ym))"

definition fp_add_core ::
  "nat \<Rightarrow> (ieee754_csr \<Rightarrow> bool \<Rightarrow> int \<Rightarrow> 'a::len word \<Rightarrow> ieee754_csr \<times> 'a word) \<Rightarrow> (bool \<Rightarrow> 'a word) \<Rightarrow>
   ieee754_csr \<Rightarrow> bool \<Rightarrow> int \<Rightarrow> 'a word \<Rightarrow> bool \<Rightarrow> int \<Rightarrow> 'a word \<Rightarrow> ieee754_csr \<times> 'a word" where
  "fp_add_core p normret fzero c xs xe xm ys ye ym =
     (let xm = push_bit 3 xm; ym = push_bit 3 ym;
          (xe, xm, ye, ym) = fp_align p xe xm ye ym
      in if xs = ys then
           let xm = xm + ym
           in if drop_bit (p + 1 + 3) xm \<noteq> 0 then normret c xs (xe + 1) (xsrs1 xm)
              else normret c xs xe xm
         else
           let (xm, xs) = (if xm \<ge> ym then (xm - ym, xs) else (ym - xm, ys))
           in if xm = 0 then (c, fzero (csr_rm c = IEEE754_RD))
              else let (xm, xe) = norm_up (p + 3) (xm, xe) in normret c xs xe xm)"

section \<open>Sums and differences of aligned mantissas\<close>

lemma cell_sum_srs:
  assumes "(X::nat) mod 8 = 0"
  shows "cell 2 (real (X + srs Y d)) (real X + Y / 2 ^ d)"
proof -
  have "X = X div 2 * 2" using assms(1) by presburger
  then have "real X = of_int (int (X div 2)) * 2" by (metis of_int_of_nat_eq of_nat_mult of_nat_numeral)
  then show ?thesis using cell_add [of 2 "int (X div 2)" "srs Y d" "Y / 2 ^ d"] cell_srs by simp
qed

lemma cell_diff_srs:
  assumes "(X::nat) mod 8 = 0" and "srs Y d \<le> X"
  shows "cell 2 (real (X - srs Y d)) (real X - Y / 2 ^ d)"
proof -
  have "X = X div 2 * 2" using assms(1) by presburger
  then have "real X = of_int (int (X div 2)) * 2" by (metis of_int_of_nat_eq of_nat_mult of_nat_numeral)
  then show ?thesis
    using cell_diff [of 2 "int (X div 2)" "srs Y d" "Y / 2 ^ d"] cell_srs assms(2) by (simp add: of_nat_diff)
qed

lemma diff_exact:
  assumes "Y mod 8 = 0" and "2 ^ (p + 3) \<le> X" and "Y < 2 ^ (p + 4)" and "srs Y d \<le> X"
    and "X - srs Y d < 2 ^ (p + 2)"
  shows "real (srs Y d) = Y / 2 ^ d"
proof -
  have "d \<le> 1"
  proof (rule ccontr)
    assume "\<not> d \<le> 1"
    then have "(2::nat) ^ (p + 4) \<le> 2 ^ (d + (p + 2))" by (intro power_increasing) simp_all
    with assms(3) have "srs Y d < 2 ^ (p + 2)" by (intro srs_less) (erule less_le_trans, assumption, simp)
    with assms(2,4,5) show False by (simp add: power_add)
  qed
  then consider "d = 0" | "d = 1" by linarith
  then show ?thesis
  proof cases
    case 2
    have "Y mod 2 = 0" using assms(1) by presburger
    then show ?thesis using 2 by (auto simp: srs_def)
  qed simp
qed

lemma cell4_diff_norm:
  assumes X: "X mod 8 = 0" "2 ^ (p + 3) \<le> X" and Y: "Y mod 8 = 0" "Y < 2 ^ (p + 4)"
    and le: "srs Y d \<le> X" and j: "(X - srs Y d) * 2 ^ j < 2 ^ (p + 4)"
  shows "cell 4 (real ((X - srs Y d) * 2 ^ j)) ((real X - Y / 2 ^ d) * 2 ^ j)"
proof -
  have c2: "cell 2 (real (X - srs Y d)) (real X - Y / 2 ^ d)" by (rule cell_diff_srs [OF X(1) le])
  consider "j = 0" | "j = 1" | "2 \<le> j" by linarith
  then show ?thesis
  proof cases
    case 1 then show ?thesis using cell_2_4 [OF c2] by simp
  next
    case 2
    then show ?thesis using cell_scale [of 2 2 "real (X - srs Y d)" "real X - Y / 2 ^ d"] c2 by (simp add: mult.commute)
  next
    case 3
    have "(X - srs Y d) * 2 ^ 2 \<le> (X - srs Y d) * 2 ^ j" using 3 by (intro mult_left_mono power_increasing) simp_all
    also have "\<dots> < 2 ^ (p + 2) * 2 ^ 2" using j by (simp add: power_add)
    finally have "(X - srs Y d) * 2 ^ 2 < 2 ^ (p + 2) * 2 ^ 2" .
    then have "X - srs Y d < 2 ^ (p + 2)" by (simp only: mult_less_cancel2)
    then have "real (srs Y d) = Y / 2 ^ d" using X Y le by (intro diff_exact)
    then show ?thesis using le by (simp add: of_nat_diff)
  qed
qed

lemma sgn_of_sum_0:
  assumes "0 < a" and "0 < b" and "sgn_of s * a + sgn_of t * b = 0"
  shows "s \<noteq> t"
proof
  assume "s = t"
  then have "sgn_of s * (a + b) = 0" using assms(3) by (simp add: distrib_left)
  then show False using assms(1,2) by simp
qed

lemma guard_scale:
  assumes "ye = xe - int d"
  shows "(2::real) powi (xe - int p) = 8 * 2 powi (xe - int p - 3)"
    and "(2::real) powi (ye - int p) = 8 * 2 powi (xe - int p - 3) / 2 ^ d"
proof -
  show 1: "(2::real) powi (xe - int p) = 8 * 2 powi (xe - int p - 3)"
    by (simp add: powi_diff2 [of "xe - int p" 3])
  have "ye - int p = xe - int p - int d" using assms by simp
  then have "(2::real) powi (ye - int p) = 2 powi (xe - int p) / 2 ^ d"
    by (simp only: powi_diff2 [of "xe - int p" "int d"] power_int_of_nat)
  then show "(2::real) powi (ye - int p) = 8 * 2 powi (xe - int p - 3) / 2 ^ d" by (simp only: 1)
qed

context fp_word
begin

lemma sum_tail:
  fixes w :: "'a word"
  assumes nod: "csr_nod c = 0" and X: "X mod 8 = 0" "2 ^ (p + 3) \<le> X" "X < 2 ^ (p + 4)"
    and Y: "Y < 2 ^ (p + 4)" and w: "unat w = X + srs Y d"
    and v: "v = sgn_of s * ((real X + Y / 2 ^ d) * 2 powi (e - int p - 3))"
  shows "\<exists>r. (if drop_bit (p + 1 + 3) w \<noteq> 0 then fp_fmt p emin emax c s (e + 1) (xsrs1 w)
      else fp_fmt p emin emax c s e w) = (SETCX (ieee_flags p emin emax (uf_enabled c) (rmode_of c) v) c, r) \<and>
    fp_correct p emin emax (rmode_of c) v r"
proof -
  have cl: "cell 2 (unat w) (real X + Y / 2 ^ d)" unfolding w by (rule cell_sum_srs [OF X(1)])
  have c: "drop_bit (p + 1 + 3) w \<noteq> 0 \<longleftrightarrow> 2 ^ (p + 4) \<le> unat w"
    by (simp only: drop_bit_eq_0_iff_unat not_less) (simp add: add.commute)
  have big: "2 ^ (p + 3) \<le> unat w" using X(2) w by simp
  show ?thesis
  proof (cases "2 ^ (p + 4) \<le> unat w")
    case True
    have "srs Y d < 2 ^ (p + 4)"
      using Y by (intro srs_less) (auto intro: less_le_trans simp: power_increasing)
    moreover have "(2::nat) ^ (1 + (p + 4)) = 2 * 2 ^ (p + 4)" by (simp add: power_add)
    ultimately have "unat w < 2 ^ (1 + (p + 4))" using X(3) w by linarith
    then have lt: "unat (xsrs1 w) < 2 ^ (p + 4)" unfolding unat_xsrs1 by (rule srs_less) simp
    have ge: "2 ^ (p + 3) \<le> unat (xsrs1 w)"
      using True srs_ge [of "unat w" 1] unfolding unat_xsrs1 by (simp add: power_add)
    have "cell 4 (unat (xsrs1 w)) ((real X + Y / 2 ^ d) / 2)"
      unfolding unat_xsrs1 using cell_srs_shift [OF cl, of 1] by (intro cell_2_4) simp
    moreover have "v = sgn_of s * ((real X + Y / 2 ^ d) / 2 * 2 powi (e + 1 - int p - 3))"
      unfolding v by (simp add: powi_add2 powi_diff2)
    ultimately show ?thesis using fmt_correct [OF nod ge lt] True by (simp only: c if_True)
  next
    case False
    then show ?thesis
      using fmt_correct [OF nod big _ cell_2_4 [OF cl] v] by (simp only: c if_False not_le simp_thms) simp
  qed
qed

lemma diff_tail:
  fixes w :: "'a word"
  assumes nod: "csr_nod c = 0" and X: "X mod 8 = 0" "2 ^ (p + 3) \<le> X" "X < 2 ^ (p + 4)"
    and Y: "Y mod 8 = 0" "Y < 2 ^ (p + 4)" and le: "srs Y d \<le> X" and w: "unat w = X - srs Y d" "w \<noteq> 0"
    and v: "v = sgn_of s * ((real X - Y / 2 ^ d) * 2 powi (e - int p - 3))"
  shows "\<exists>r. (let (xm, xe) = norm_up (p + 3) (w, e) in fp_fmt p emin emax c s xe xm) =
      (SETCX (ieee_flags p emin emax (uf_enabled c) (rmode_of c) v) c, r) \<and>
    fp_correct p emin emax (rmode_of c) v r"
proof -
  have "0 < unat w" using w(2) by (simp add: word_neq_0_conv unat_gt_0)
  moreover have e4: "p + 3 + 1 = p + 4" by simp
  then have "unat w < 2 ^ (p + 3 + 1)" using X(3) w(1) by (simp only: e4)
  ultimately obtain m' j where m': "norm_up (p + 3) (w, e) = (m', e - int j)" "unat m' = unat w * 2 ^ j"
      "2 ^ (p + 3) \<le> unat m'" "unat m' < 2 ^ (p + 3 + 1)"
    using width by (elim norm_up [of w "p + 3" e]) simp_all
  then have lt: "unat m' < 2 ^ (p + 4)" by (simp only: e4)
  then have "cell 4 (unat m') ((real X - Y / 2 ^ d) * 2 ^ j)"
    using cell4_diff_norm [OF X(1,2) Y le, of j] by (simp only: m'(2) w(1))
  moreover have "v = sgn_of s * ((real X - Y / 2 ^ d) * 2 ^ j * 2 powi (e - int j - int p - 3))"
    unfolding v by (simp add: powi_diff2 power_int_of_nat)
  ultimately show ?thesis using fmt_correct [OF nod m'(3) lt] m'(1) by simp
qed

text \<open>Alignment, seen from the operand of the larger exponent.\<close>

lemma shifted:
  fixes m :: "'a word"
  assumes "2 ^ p \<le> unat m" and "unat m < 2 ^ (p + 1)"
  shows "unat (push_bit 3 m) = 8 * unat m" "2 ^ (p + 3) \<le> 8 * unat m" "8 * unat m < 2 ^ (p + 4)"
    "0 \<le> d \<Longrightarrow> unat (xsrs p d (push_bit 3 m)) = srs (8 * unat m) (nat d)"
proof -
  show b: "2 ^ (p + 3) \<le> 8 * unat m" "8 * unat m < 2 ^ (p + 4)" using assms by (simp_all add: power_add)
  have "(2::nat) ^ (p + 4) \<le> 2 ^ LENGTH('a)" using width by (intro power_increasing) simp_all
  with b(2) have "8 * unat m < 2 ^ LENGTH('a)" by (rule less_le_trans)
  then show s: "unat (push_bit 3 m) = 8 * unat m" by (subst unat_push_bit) (simp_all add: mult.commute)
  show "unat (xsrs p d (push_bit 3 m)) = srs (8 * unat m) (nat d)" if "0 \<le> d"
    using unat_xsrs [of "push_bit 3 m" p d] b width that assms(1) unfolding s
    by (simp add: less_le_trans [OF _ assms(1)])
qed

lemma srs_below:
  assumes "0 < d" and "Y < 2 ^ (p + 4)"
  shows "srs Y d < 2 ^ (p + 3)"
proof -
  have "(2::nat) ^ (p + 4) \<le> 2 ^ (d + (p + 3))" using assms(1) by (intro power_increasing) simp_all
  with assms(2) show ?thesis by (intro srs_less) (erule less_le_trans, assumption, simp)
qed

lemma aligned_add:
  fixes xm ym :: "'a word"
  assumes nod: "csr_nod c = 0" and x: "2 ^ p \<le> unat xm" "unat xm < 2 ^ (p + 1)"
    and y: "2 ^ p \<le> unat ym" "unat ym < 2 ^ (p + 1)"
    and a: "unat a = 8 * unat xm" "unat b = srs (8 * unat ym) d"
    and w: "unat w = unat a + unat b" and ye: "ye = xe - int d"
    and v: "v = sgn_of s * (unat xm * 2 powi (xe - int p)) + sgn_of s * (unat ym * 2 powi (ye - int p))"
  shows "\<exists>r. (if drop_bit (p + 1 + 3) w \<noteq> 0 then fp_fmt p emin emax c s (xe + 1) (xsrs1 w)
      else fp_fmt p emin emax c s xe w) = (SETCX (ieee_flags p emin emax (uf_enabled c) (rmode_of c) v) c, r) \<and>
    fp_correct p emin emax (rmode_of c) v (r :: 'a word)"
proof (rule sum_tail [OF nod])
  show "unat w = 8 * unat xm + srs (8 * unat ym) d" using w a by simp
  show "v = sgn_of s * ((real (8 * unat xm) + real (8 * unat ym) / 2 ^ d) * 2 powi (xe - int p - 3))"
    unfolding v guard_scale [OF ye] by (simp add: algebra_simps)
qed (use shifted [OF x] shifted [OF y] in simp_all)

lemma aligned_sub:
  fixes xm ym :: "'a word"
  assumes nod: "csr_nod c = 0" and x: "2 ^ p \<le> unat xm" "unat xm < 2 ^ (p + 1)"
    and y: "2 ^ p \<le> unat ym" "unat ym < 2 ^ (p + 1)"
    and a: "unat a = 8 * unat xm" "unat b = srs (8 * unat ym) d"
    and w: "unat w = unat a - unat b" "unat b \<le> unat a" and ye: "ye = xe - int d"
    and v: "v = sgn_of s * (unat xm * 2 powi (xe - int p)) - sgn_of s * (unat ym * 2 powi (ye - int p))"
  shows "w \<noteq> 0 \<Longrightarrow> v \<noteq> 0 \<and> (\<exists>r. (let (xm, xe) = norm_up (p + 3) (w, xe) in fp_fmt p emin emax c s xe xm) =
      (SETCX (ieee_flags p emin emax (uf_enabled c) (rmode_of c) v) c, r) \<and>
    fp_correct p emin emax (rmode_of c) v (r :: 'a word))"
    and "w = 0 \<Longrightarrow> v = 0"
proof -
  let ?X = "8 * unat xm" let ?Y = "8 * unat ym"
  have v': "v = sgn_of s * ((real ?X - real ?Y / 2 ^ d) * 2 powi (xe - int p - 3))"
    unfolding v guard_scale [OF ye] by (simp add: algebra_simps)
  have cl: "cell 2 (unat w) (real ?X - real ?Y / 2 ^ d)"
    using cell_diff_srs [of ?X ?Y d] w a by simp
  show "w = 0 \<Longrightarrow> v = 0"
    using cell_even_eq [OF cl, of 0] v' by simp
  show "w \<noteq> 0 \<Longrightarrow> v \<noteq> 0 \<and> (\<exists>r. (let (xm, xe) = norm_up (p + 3) (w, xe) in fp_fmt p emin emax c s xe xm) =
      (SETCX (ieee_flags p emin emax (uf_enabled c) (rmode_of c) v) c, r) \<and>
    fp_correct p emin emax (rmode_of c) v (r :: 'a word))"
  proof
    assume nz: "w \<noteq> 0"
    show "v \<noteq> 0"
      using cell_even_eq [OF cell_sym [OF cl], of 0] v' nz by (auto simp: unat_eq_0)
    show "\<exists>r. (let (xm, xe) = norm_up (p + 3) (w, xe) in fp_fmt p emin emax c s xe xm) =
        (SETCX (ieee_flags p emin emax (uf_enabled c) (rmode_of c) v) c, r) \<and>
      fp_correct p emin emax (rmode_of c) v (r :: 'a word)"
    proof (rule diff_tail [OF nod _ _ _ _ _ _ _ nz v'])
      show "srs ?Y d \<le> ?X" "unat w = ?X - srs ?Y d" using w a by simp_all
    qed (use shifted [OF x] shifted [OF y] in simp_all)
  qed
qed

lemma add_core_same:
  fixes xm ym :: "'a word"
  assumes nod: "csr_nod c = 0" and x: "2 ^ p \<le> unat xm" "unat xm < 2 ^ (p + 1)"
    and y: "2 ^ p \<le> unat ym" "unat ym < 2 ^ (p + 1)"
    and v: "v = sgn_of s * (unat xm * 2 powi (xe - int p)) + sgn_of s * (unat ym * 2 powi (ye - int p))"
  shows "\<exists>r. fp_add_core p (fp_fmt p emin emax) fzero c s xe xm s ye ym =
      (SETCX (ieee_flags p emin emax (uf_enabled c) (rmode_of c) v) c, r) \<and>
    fp_correct p emin emax (rmode_of c) v r"
proof -
  let ?x = "push_bit 3 xm" let ?y = "push_bit 3 ym"
  have sum: "unat (a + b) = unat a + unat b" if "unat a < 2 ^ (p + 4)" "unat b < 2 ^ (p + 4)" for a b :: "'a word"
  proof (rule unat_add_small)
    have "(2::nat) ^ (p + 5) \<le> 2 ^ LENGTH('a)" using width by (intro power_increasing) simp_all
    moreover have "(2::nat) ^ (p + 5) = 2 ^ (p + 4) + 2 ^ (p + 4)" by (simp add: power_add)
    ultimately show "unat a + unat b < 2 ^ LENGTH('a)" using that by linarith
  qed
  note sx = shifted [OF x] note sy = shifted [OF y]
  have below: "srs Y d < 2 ^ (p + 4)" if "0 < d" "Y < 2 ^ (p + 4)" for Y d
    using srs_below [OF that] by (rule less_trans) simp
  consider (xbig) "xe > ye" | (ybig) "ye > xe" | (eq) "xe = ye" by linarith
  then show ?thesis
  proof cases
    case xbig
    then have b: "unat (xsrs p (xe - ye) ?y) = srs (8 * unat ym) (nat (xe - ye))" by (intro sy(4)) simp
    then have "unat (?x + xsrs p (xe - ye) ?y) = unat ?x + unat (xsrs p (xe - ye) ?y)"
      by (intro sum) (use sx sy below xbig in simp_all)
    from aligned_add [OF nod x y sx(1) b this _ v] xbig show ?thesis
      by (simp add: fp_add_core_def fp_align_def Let_def)
  next
    case ybig
    then have b: "unat (xsrs p (ye - xe) ?x) = srs (8 * unat xm) (nat (ye - xe))" by (intro sx(4)) simp
    then have "unat (xsrs p (ye - xe) ?x + ?y) = unat ?y + unat (xsrs p (ye - xe) ?x)"
      by (subst add.commute, intro sum) (use sx sy below ybig in simp_all)
    from aligned_add [OF nod y x sy(1) b this, of xe ye v s] ybig show ?thesis
      by (simp add: fp_add_core_def fp_align_def Let_def v add.commute)
  next
    case eq
    have "unat (?x + ?y) = unat ?x + unat ?y"
      by (intro sum) (use sx sy in simp_all)
    from aligned_add [OF nod x y sx(1) _ this _ v, where d = 0] eq sy(1) show ?thesis
      by (simp add: fp_add_core_def fp_align_def Let_def split: if_splits)
  qed
qed

lemma add_core_diff:
  fixes xm ym :: "'a word"
  assumes nod: "csr_nod c = 0" and x: "2 ^ p \<le> unat xm" "unat xm < 2 ^ (p + 1)"
    and y: "2 ^ p \<le> unat ym" "unat ym < 2 ^ (p + 1)" and ys: "ys = (\<not> xs)"
    and v: "v = sgn_of xs * (unat xm * 2 powi (xe - int p)) + sgn_of ys * (unat ym * 2 powi (ye - int p))"
  shows "if v = 0 then fp_add_core p (fp_fmt p emin emax) fzero c xs xe xm ys ye ym =
      (c, fzero (csr_rm c = IEEE754_RD))
    else \<exists>r. fp_add_core p (fp_fmt p emin emax) fzero c xs xe xm ys ye ym =
        (SETCX (ieee_flags p emin emax (uf_enabled c) (rmode_of c) v) c, r) \<and>
      fp_correct p emin emax (rmode_of c) v r"
proof -
  let ?x = "push_bit 3 xm" let ?y = "push_bit 3 ym"
  note sx = shifted [OF x] note sy = shifted [OF y]
  have ms: "sgn_of ys = - sgn_of xs" using ys by (cases xs) simp_all
  have vx: "v = sgn_of xs * (unat xm * 2 powi (xe - int p)) - sgn_of xs * (unat ym * 2 powi (ye - int p))"
    and vy: "v = sgn_of ys * (unat ym * 2 powi (ye - int p)) - sgn_of ys * (unat xm * 2 powi (xe - int p))"
    unfolding v ms by simp_all
  have core: "fp_add_core p (fp_fmt p emin emax) fzero c xs xe xm ys ye ym =
     (let (xe, a, ye, b) = fp_align p xe ?x ye ?y; (w, s) = (if a \<ge> b then (a - b, xs) else (b - a, ys))
      in if w = 0 then (c, fzero (csr_rm c = IEEE754_RD))
         else let (xm, xe) = norm_up (p + 3) (w, xe) in fp_fmt p emin emax c s xe xm)"
    using ys by (auto simp: fp_add_core_def Let_def split: prod.splits)
  have minus: "unat (a - b) = unat a - unat b \<and> unat b \<le> unat a" if "b \<le> a" for a b :: "'a word"
    using that by (simp add: unat_sub word_le_nat_alt)
  consider (xbig) "xe > ye" | (ybig) "ye > xe" | (eq) "xe = ye" by linarith
  then show ?thesis
  proof cases
    case xbig
    then have b: "unat (xsrs p (xe - ye) ?y) = srs (8 * unat ym) (nat (xe - ye))" by (intro sy(4)) simp
    then have le: "xsrs p (xe - ye) ?y \<le> ?x"
      using srs_below [of "nat (xe - ye)" "8 * unat ym"] xbig sx sy(3) by (simp add: word_le_nat_alt)
    from aligned_sub [OF nod x y sx(1) b _ _ _ vx, of "?x - xsrs p (xe - ye) ?y"] minus [OF le] le xbig
    show ?thesis by (auto simp: core fp_align_def)
  next
    case ybig
    then have b: "unat (xsrs p (ye - xe) ?x) = srs (8 * unat xm) (nat (ye - xe))" by (intro sx(4)) simp
    then have lt: "xsrs p (ye - xe) ?x < ?y"
      using srs_below [of "nat (ye - xe)" "8 * unat xm"] ybig sy sx(3) by (simp add: word_less_nat_alt)
    then have le: "xsrs p (ye - xe) ?x \<le> ?y" by simp
    from aligned_sub [OF nod y x sy(1) b _ _ _ vy, of "?y - xsrs p (ye - xe) ?x"] minus [OF le] lt ybig
    show ?thesis by (auto simp: core fp_align_def)
  next
    case eq
    show ?thesis
    proof (cases "?y \<le> ?x")
      case True
      from aligned_sub [OF nod x y sx(1) _ _ _ _ vx, where d = 0 and b = ?y, of "?x - ?y"] minus [OF True] True eq sy(1)
      show ?thesis unfolding core by (auto simp: fp_align_def)
    next
      case False
      then have le: "?x \<le> ?y" by simp
      from aligned_sub [OF nod y x sy(1) _ _ _ _ vy, where d = 0 and b = ?x, of "?y - ?x"] minus [OF le] False eq sx(1)
      show ?thesis unfolding core by (auto simp: fp_align_def)
    qed
  qed
qed

lemma add_core_correct:
  fixes xm ym :: "'a word"
  assumes nod: "csr_nod c = 0" and x: "2 ^ p \<le> unat xm" "unat xm < 2 ^ (p + 1)"
    and y: "2 ^ p \<le> unat ym" "unat ym < 2 ^ (p + 1)"
    and v: "v = sgn_of xs * (unat xm * 2 powi (xe - int p)) + sgn_of ys * (unat ym * 2 powi (ye - int p))"
  shows "if v = 0 then fp_add_core p (fp_fmt p emin emax) fzero c xs xe xm ys ye ym =
      (c, fzero (csr_rm c = IEEE754_RD))
    else \<exists>r. fp_add_core p (fp_fmt p emin emax) fzero c xs xe xm ys ye ym =
        (SETCX (ieee_flags p emin emax (uf_enabled c) (rmode_of c) v) c, r) \<and>
      fp_correct p emin emax (rmode_of c) v r"
proof (cases "xs = ys")
  case True
  have "0 < unat xm" "0 < unat ym" using x(1) y(1) by (auto intro: less_le_trans [rotated])
  then have "0 < unat xm * 2 powi (xe - int p) + unat ym * (2 powi (ye - int p) :: real)"
    by (intro add_pos_pos mult_pos_pos) simp_all
  then have "v \<noteq> 0" unfolding v True by (simp flip: distrib_left)
  then show ?thesis using add_core_same [OF nod x y] v True by simp
next
  case False
  then show ?thesis using add_core_diff [OF nod x y _ v, of fzero] by simp
qed

end

section \<open>Finite operands\<close>

text \<open>The part of the switch of addition that finite operands reach, and its specification.\<close>

definition fp_add_finite :: "nat \<Rightarrow> int \<Rightarrow> int \<Rightarrow> ieee754_csr \<Rightarrow> 'a::len word \<Rightarrow> 'a word \<Rightarrow> ieee754_csr \<times> 'a word" where
  "fp_add_finite p emin emax c x y =
     (let (xc, xs, xe, xm) = fp_explode p emin emax (1 - emin) x;
          (yc, ys, ye, ym) = fp_explode p emin emax (1 - emin) y
      in if xc = CLASS_ZERO \<and> yc = CLASS_ZERO then
           (c, if xs = ys then x else fp_zero p (csr_rm c = IEEE754_RD))
         else if yc = CLASS_ZERO then (c, x)
         else if xc = CLASS_ZERO then (c, y)
         else
           let (xm, xe) = (if xc = CLASS_DNORM then norm_up p (xm, xe) else (xm, xe));
               (ym, ye) = (if yc = CLASS_DNORM then norm_up p (ym, ye) else (ym, ye))
           in fp_add_core p (fp_fmt p emin emax) (fp_zero p) c xs xe xm ys ye ym)"

context fp_word
begin

lemma add_finite_zero:
  fixes x y :: "'a word"
  assumes fin: "fp_fin p x" "fp_fin p y" and zero: "fp_val p emin x = 0 \<or> fp_val p emin y = 0"
  shows "\<exists>r. fp_add_finite p emin emax c x y = (c, r) \<and>
    (if fp_val p emin x + fp_val p emin y = 0
     then r = fp_zero p (if fsign x = fsign y then fsign x else csr_rm c = IEEE754_RD)
     else fp_correct p emin emax rm (fp_val p emin x + fp_val p emin y) r)"
proof -
  obtain kx xs xe xm where x: "fp_explode p emin emax ebias x = (kx, xs, xe, xm)" by (metis prod_cases4)
  obtain ky ys ye ym where y: "fp_explode p emin emax ebias y = (ky, ys, ye, ym)" by (metis prod_cases4)
  note cx = explode_class [OF x] note cy = explode_class [OF y]
  have vx: "fp_val p emin x = 0 \<longleftrightarrow> kx = CLASS_ZERO" and vy: "fp_val p emin y = 0 \<longleftrightarrow> ky = CLASS_ZERO"
    using val_zero_iff [OF fin(1)] val_zero_iff [OF fin(2)] cx cy by simp_all
  have "fp_add_finite p emin emax c x y = (c, if kx = CLASS_ZERO \<and> ky = CLASS_ZERO then
      if xs = ys then x else fp_zero p (csr_rm c = IEEE754_RD) else if ky = CLASS_ZERO then x else y)"
    using zero x y unfolding vx vy bias by (auto simp: fp_add_finite_def)
  moreover have "x = fp_zero p (fsign x)" if "kx = CLASS_ZERO"
    using class_zero(3) [of x] that cx by (simp add: fp_zero_def)
  ultimately show ?thesis
    using zero cx(2) cy(2) vx vy correct_self(1) [OF fin(1), of rm] correct_self(1) [OF fin(2), of rm] by auto
qed

lemma add_finite_correct:
  fixes x y :: "'a word"
  assumes nod: "csr_nod c = 0" and fin: "fp_fin p x" "fp_fin p y" and v: "v = fp_val p emin x + fp_val p emin y"
  shows "\<exists>r. fp_add_finite p emin emax c x y =
      (if fp_val p emin x = 0 \<or> fp_val p emin y = 0 \<or> v = 0 then c
       else SETCX (ieee_flags p emin emax (uf_enabled c) (rmode_of c) v) c, r) \<and>
    (if v = 0 then r = fp_zero p (if fsign x = fsign y then fsign x else csr_rm c = IEEE754_RD)
     else fp_correct p emin emax (rmode_of c) v r)"
proof (cases "fp_val p emin x = 0 \<or> fp_val p emin y = 0")
  case True
  then have t: "fp_val p emin x = 0 \<or> fp_val p emin y = 0 \<or> v = 0" by blast
  show ?thesis
    using add_finite_zero [OF fin True, of c "rmode_of c"] unfolding v [symmetric] by (simp only: t if_True)
next
  case False
  obtain kx xs xe xm where x: "fp_explode p emin emax ebias x = (kx, xs, xe, xm)" by (metis prod_cases4)
  obtain ky ys ye ym where y: "fp_explode p emin emax ebias y = (ky, ys, ye, ym)" by (metis prod_cases4)
  note cx = explode_class [OF x] note cy = explode_class [OF y]
  have k: "kx = CLASS_NORM \<or> kx = CLASS_DNORM" "ky = CLASS_NORM \<or> ky = CLASS_DNORM"
    using val_nonzero_iff [OF fin(1)] val_nonzero_iff [OF fin(2)] False cx cy by simp_all
  obtain xm' xe' where x': "(if kx = CLASS_DNORM then norm_up p (xm, xe) else (xm, xe)) = (xm', xe')"
      "2 ^ p \<le> unat xm'" "unat xm' < 2 ^ (p + 1)" "fp_val p emin x = sgn_of xs * (unat xm' * 2 powi (xe' - int p))"
    by (rule operand [OF x k(1)])
  obtain ym' ye' where y': "(if ky = CLASS_DNORM then norm_up p (ym, ye) else (ym, ye)) = (ym', ye')"
      "2 ^ p \<le> unat ym'" "unat ym' < 2 ^ (p + 1)" "fp_val p emin y = sgn_of ys * (unat ym' * 2 powi (ye' - int p))"
    by (rule operand [OF y k(2)])
  have core: "fp_add_finite p emin emax c x y = fp_add_core p (fp_fmt p emin emax) (fp_zero p) c xs xe' xm' ys ye' ym'"
    using x y k x'(1) y'(1) unfolding bias by (auto simp: fp_add_finite_def)
  have "0 < unat xm' * (2 powi (xe' - int p) :: real)" "0 < unat ym' * (2 powi (ye' - int p) :: real)"
    using less_le_trans [OF _ x'(2)] less_le_trans [OF _ y'(2)] by simp_all
  then have "xs \<noteq> ys" if "v = 0" using that unfolding v x'(4) y'(4) by (rule sgn_of_sum_0)
  then show ?thesis
    using add_core_correct [OF nod x'(2,3) y'(2,3) v [unfolded x'(4) y'(4)], of "fp_zero p"] False cx(2) cy(2)
    unfolding core by (auto split: if_splits)
qed

end

end
