(* ===== verification/Fp_Div.thy ===== *)
theory Fp_Div
  imports Fp_Add
begin

text \<open>
  The tail of division (\<^verbatim>\<open>sp_div.c\<close>, \<^verbatim>\<open>dp_div.c\<close>): the restoring division loop over the bits of
  the quotient, the sticky bit for a nonzero remainder, and the normalisation. \<open>div_loop_value\<close> is
  the functional correctness of the loop: it delivers the integer quotient and whether a
  remainder is left.
\<close>

section \<open>The code\<close>

lemma drop_bit_1_less: "bm \<noteq> 0 \<Longrightarrow> unat (drop_bit 1 bm) < unat bm"
  by (simp add: unat_drop_bit unat_gt_0 del: drop_bit_Suc)

function div_loop :: "'a::len word \<Rightarrow> 'a word \<Rightarrow> 'a word \<Rightarrow> 'a word \<Rightarrow> 'a word \<times> 'a word" where
  "div_loop ym bm xm rm =
     (if bm = 0 then (xm, rm)
      else if xm \<ge> ym then
        let xm = xm - ym; rm = rm OR bm
        in if xm = 0 then (xm, rm) else div_loop ym (drop_bit 1 bm) (push_bit 1 xm) rm
      else div_loop ym (drop_bit 1 bm) (push_bit 1 xm) rm)"
  by pat_completeness auto

termination div_loop
  by (relation "measure (\<lambda>(ym, bm, xm, rm). unat bm)") (use drop_bit_1_less in auto)

declare div_loop.simps [simp del]

definition fp_div_core ::
  "nat \<Rightarrow> (ieee754_csr \<Rightarrow> bool \<Rightarrow> int \<Rightarrow> 'a::len word \<Rightarrow> ieee754_csr \<times> 'a word) \<Rightarrow>
   ieee754_csr \<Rightarrow> bool \<Rightarrow> int \<Rightarrow> 'a word \<Rightarrow> bool \<Rightarrow> int \<Rightarrow> 'a word \<Rightarrow> ieee754_csr \<times> 'a word" where
  "fp_div_core p normret c xs xe xm ys ye ym =
     (let xm = push_bit 3 xm; ym = push_bit 3 ym;
          re = xe - ye;
          (xm, rm) = div_loop ym (push_bit (p + 2) 1) xm 0;
          rm = push_bit 1 rm;
          rm = (if xm \<noteq> 0 then rm OR 1 else rm);
          (rm, re) = norm_up (p + 3) (rm, re)
      in normret c (if xs = ys then False else True) re rm)"

section \<open>The quotient\<close>

lemma mod_power_Suc_0: "n mod 2 ^ Suc k = 0 \<Longrightarrow> (n::nat) mod 2 ^ k = 0"
  by (metis dvd_mult_right mod_eq_0_iff_dvd power_Suc)

lemma unat_or_bit:
  fixes r b :: "'a::len word"
  assumes "unat b = 2 ^ k" and "unat r mod 2 ^ Suc k = 0"
  shows "unat (r OR b) = unat r + 2 ^ k" and "unat (r OR b) mod 2 ^ k = 0"
proof -
  have "unat (r OR b) = unat r OR 2 ^ k" by (simp add: unsigned_or_eq assms(1))
  also have "\<dots> = unat r + 2 ^ k"
  proof (rule disjunctive_add [symmetric])
    fix n
    have "unat r div 2 ^ k mod 2 = 0" using assms(2) by (metis div_exp_mod_exp_eq mod_0 div_0 add.commute plus_1_eq_Suc power_one_right)
    then have "\<not> bit (unat r) k" by (simp add: bit_iff_odd even_iff_mod_2_eq_zero)
    then show "\<not> bit (unat r) n \<or> \<not> bit (2 ^ k :: nat) n" by (auto simp: bit_exp_iff)
  qed
  finally show u: "unat (r OR b) = unat r + 2 ^ k" .
  have "unat r mod 2 ^ k = 0" using assms(2) by (rule mod_power_Suc_0)
  then show "unat (r OR b) mod 2 ^ k = 0" unfolding u by simp
qed

lemma div_loop_value:
  fixes ym :: "'a::len word"
  assumes "unat bm = 2 ^ n div 2" and "unat xm < 2 * unat ym" and "2 * unat ym \<le> 2 ^ LENGTH('a)"
    and "unat rm mod 2 ^ n = 0" and "div_loop ym bm xm rm = (x', r')"
  shows "unat r' = unat rm + unat xm * 2 ^ n div (2 * unat ym) \<and>
    (x' = 0 \<longleftrightarrow> unat xm * 2 ^ n mod (2 * unat ym) = 0)"
  using assms
proof (induction n arbitrary: bm xm rm)
  case 0
  then have "bm = 0" by (simp add: unat_eq_0)
  with 0 show ?case by (simp add: div_loop.simps unat_eq_0)
next
  case (Suc k)
  define X Y where "X = unat xm" and "Y = unat ym"
  have bm: "unat bm = 2 ^ k" "bm \<noteq> 0" using Suc.prems(1) unat_eq_0 [of bm] by auto
  have half: "unat (drop_bit 1 bm) = 2 ^ k div 2" by (simp only: unat_drop_bit bm(1) power_one_right)
  note ob = unat_or_bit [OF bm(1) Suc.prems(4)]
  have dbl: "unat (push_bit 1 w) = 2 * unat w" if "unat w < Y" for w :: "'a word"
    using that Suc.prems(3) by (subst unat_push_bit) (simp_all add: Y_def)
  show ?case
  proof (cases "ym \<le> xm")
    case True
    then have sub: "unat (xm - ym) = X - Y" "Y \<le> X" by (simp_all add: X_def Y_def unat_sub word_le_nat_alt)
    show ?thesis
    proof (cases "xm - ym = 0")
      case True
      then have "x' = 0" "r' = rm OR bm" using Suc.prems(5) bm(2) by (simp_all add: div_loop.simps [of ym bm])
      moreover have "X = Y" "0 < Y" using True Suc.prems(2) by (simp_all add: X_def Y_def)
      ultimately show ?thesis using ob(1) by (simp flip: X_def Y_def)
    next
      case False
      have lt: "X - Y < Y" using Suc.prems(2) sub(2) by (simp add: X_def Y_def)
      have "div_loop ym (drop_bit 1 bm) (push_bit 1 (xm - ym)) (rm OR bm) = (x', r')"
        using Suc.prems(5) True False bm(2) by (simp add: div_loop.simps [of ym bm] Let_def)
      from Suc.IH [OF half _ Suc.prems(3) ob(2) this] dbl [of "xm - ym"] sub lt
      have ih: "unat r' = unat rm + 2 ^ k + 2 * (X - Y) * 2 ^ k div (2 * Y) \<and>
          (x' = 0 \<longleftrightarrow> 2 * (X - Y) * 2 ^ k mod (2 * Y) = 0)"
        by (simp only: ob(1) Y_def)
      have "X * 2 ^ Suc k = 2 * (X - Y) * 2 ^ k + 2 ^ k * (2 * Y)"
        using sub(2) by (simp add: algebra_simps diff_mult_distrib)
      moreover have "0 < 2 * Y" using lt by simp
      ultimately have "X * 2 ^ Suc k div (2 * Y) = 2 ^ k + 2 * (X - Y) * 2 ^ k div (2 * Y)"
        "X * 2 ^ Suc k mod (2 * Y) = 2 * (X - Y) * 2 ^ k mod (2 * Y)"
        by (simp_all only: div_mult_self1 mod_mult_self1 neq0_conv) 
      with ih show ?thesis by (simp only: X_def [symmetric] Y_def [symmetric] add.assoc) 
    qed
  next
    case False
    then have lt: "X < Y" by (simp add: X_def Y_def word_le_nat_alt)
    have "div_loop ym (drop_bit 1 bm) (push_bit 1 xm) rm = (x', r')"
      using Suc.prems(5) False bm(2) by (simp add: div_loop.simps [of ym bm])
    from Suc.IH [OF half _ Suc.prems(3) mod_power_Suc_0 [OF Suc.prems(4)] this] dbl [of xm] lt
    have ih: "unat r' = unat rm + 2 * X * 2 ^ k div (2 * Y) \<and> (x' = 0 \<longleftrightarrow> 2 * X * 2 ^ k mod (2 * Y) = 0)"
      by (simp only: X_def Y_def)
    have "X * 2 ^ Suc k = 2 * X * 2 ^ k" by simp
    with ih show ?thesis by (simp only: X_def [symmetric] Y_def [symmetric])
  qed
qed

section \<open>Correct rounding\<close>

context fp_word
begin

lemma cell_quotient:
  assumes "0 < (b::nat)"
  shows "cell 2 (real (2 * (a div b) + of_bool (a mod b \<noteq> 0))) (2 * (a / b))"
proof -
  have "cell 1 (real (a div b) + of_bool (a mod b \<noteq> 0) / 2) (a / b)"
  proof (cases "a mod b = 0")
    case True
    then have "b dvd a" by (simp add: mod_eq_0_iff_dvd)
    with True show ?thesis by (simp add: real_of_nat_div)
  next
    case False
    have fl: "\<lfloor>a / b\<rfloor> = int (a div b)" by (simp add: floor_divide_of_nat_eq)
    have "real a / b \<noteq> real (a div b)"
    proof
      assume "real a / b = real (a div b)"
      then have "real a = real (a div b * b)" using assms by (simp add: field_simps)
      then have "a = a div b * b" by (simp only: of_nat_eq_iff)
      then show False using False by (metis mod_mult_self2_is_0)
    qed
    then have "\<lceil>a / b\<rceil> = int (a div b) + 1" by (simp add: ceiling_altdef fl)
    moreover have "\<lfloor>real (a div b) + 1 / 2\<rfloor> = int (a div b)" "\<lceil>real (a div b) + 1 / 2\<rceil> = int (a div b) + 1"
      by linarith+
    ultimately show ?thesis using False fl by (simp add: cell_def)
  qed
  then show ?thesis using cell_scale [of 2 1 "real (a div b) + of_bool (a mod b \<noteq> 0) / 2" "a / b"] by (simp add: algebra_simps)
qed

lemma div_core_correct:
  fixes xm ym :: "'a word"
  assumes nod: "csr_nod c = 0" and x: "2 ^ p \<le> unat xm" "unat xm < 2 ^ (p + 1)"
    and y: "2 ^ p \<le> unat ym" "unat ym < 2 ^ (p + 1)"
    and v: "v = (sgn_of xs * (unat xm * 2 powi (xe - int p))) / (sgn_of ys * (unat ym * 2 powi (ye - int p)))"
  shows "\<exists>r. fp_div_core p (fp_fmt p emin emax) c xs xe xm ys ye ym =
      (SETCX (ieee_flags p emin emax (uf_enabled c) (rmode_of c) v) c, r) \<and>
    fp_correct p emin emax (rmode_of c) v r"
proof -
  define a b where "a = unat xm * 2 ^ (p + 2)" and "b = unat ym"
  define rm where "rm = 2 * (a div b) + of_bool (a mod b \<noteq> 0)"
  have b0: "0 < b" using y(1) unfolding b_def by (rule less_le_trans [rotated]) simp
  obtain x' r' where dl: "div_loop (push_bit 3 ym) (push_bit (p + 2) 1) (push_bit 3 xm) 0 = (x', r')" by fastforce
  define T where "T = (2::nat) ^ p"
  have p4: "(2::nat) ^ (p + 4) = 16 * T" "(2::nat) ^ (p + 1) = 2 * T" "(2::nat) ^ (p + 3) = 8 * T"
      "(2::nat) ^ (p + 2) = 4 * T" "(2::nat) ^ p = T" "(2::nat) ^ (4 + p) = 16 * T"
    by (simp_all add: T_def power_add)
  have T0: "0 < T" by (simp add: T_def)
  have pL: "32 * T \<le> (2::nat) ^ LENGTH('a)"
    using power_increasing [OF width, of "2::nat"] by (simp add: power_add T_def)
  note sx = shifted [OF x] note sy = shifted [OF y]
  have "unat r' = unat (0 :: 'a word) + unat (push_bit 3 xm) * 2 ^ (p + 3) div (2 * unat (push_bit 3 ym)) \<and>
      (x' = 0 \<longleftrightarrow> unat (push_bit 3 xm) * 2 ^ (p + 3) mod (2 * unat (push_bit 3 ym)) = 0)"
  proof (rule div_loop_value [OF _ _ _ _ dl])
    show "unat (push_bit (p + 2) 1 :: 'a word) = 2 ^ (p + 3) div 2"
      using pL T0 by (subst unat_push_bit) (simp_all add: p4)
  qed (use x y pL T0 in \<open>simp_all add: sx(1) sy(1) p4\<close>)
  moreover have "8 * unat xm * 2 ^ (p + 3) = 16 * a" "2 * (8 * unat ym) = 16 * b"
    by (simp_all add: a_def b_def p4)
  ultimately have r: "unat r' = a div b" "x' = 0 \<longleftrightarrow> a mod b = 0"
    by (simp_all add: sx(1) sy(1) flip: mult_mod_right)
  have lo: "2 ^ (p + 1) \<le> a div b"
    using mult_mono [of b "2 * T" "2 * T" "2 * T"] mult_mono [of T "unat xm" "4 * T" "4 * T"] x(1) y(2) b0
    by (simp add: less_eq_div_iff_mult_less_eq p4 a_def b_def mult_ac)
  have hi: "a div b < 2 ^ (p + 3)"
    using mult_mono [of T b "8 * T" "8 * T"] mult_strict_mono [of "unat xm" "2 * T" "4 * T" "4 * T + 1"] x(2) y(1) b0 T0
    by (simp add: div_less_iff_less_mult p4 a_def b_def mult_ac)
  define w where "w = (if x' \<noteq> 0 then push_bit 1 r' OR 1 else push_bit 1 r')"
  have "unat (push_bit 1 r') = 2 * (a div b)"
    using hi pL r(1) by (subst unat_push_bit) (simp_all add: p4)
  then have w: "unat w = rm"
    unfolding w_def rm_def using r(2) by (auto simp: unat_or_1)
  have cl: "cell 2 (unat w) (2 * (a / b))" unfolding w rm_def using b0 by (rule cell_quotient)
  have "unat w < 2 ^ (p + 3 + 1)" "2 ^ (p + 2) \<le> unat w" "0 < unat w" "p + 3 < LENGTH('a)"
    using lo hi width unfolding w rm_def by (simp_all add: p4)
  then obtain m' j where m': "norm_up (p + 3) (w, xe - ye) = (m', xe - ye - int j)" "unat m' = unat w * 2 ^ j"
      "2 ^ (p + 3) \<le> unat m'" "unat m' < 2 ^ (p + 3 + 1)"
    by (elim norm_up [of w "p + 3" "xe - ye"])
  then have lt: "unat m' < 2 ^ (p + 4)" by (simp add: p4)
  have cl4: "cell 4 (unat m') (2 * (a / b) * 2 ^ j)"
  proof -
    have "j < 2"
    proof (rule ccontr)
      assume "\<not> j < 2"
      then have "4 \<le> (2::nat) ^ j" using power_increasing [of 2 j "2::nat"] by simp
      with \<open>2 ^ (p + 2) \<le> unat w\<close> have "2 ^ (p + 2) * 4 \<le> unat w * 2 ^ j" by (rule mult_le_mono)
      then show False using lt by (simp add: m'(2) p4)
    qed
    then consider "j = 0" | "j = 1" by linarith
    then show ?thesis
      using cell_2_4 [OF cl] cell_scale [of 2 2 "unat w" "2 * (a / b)"] cl
      by cases (simp_all add: m'(2) mult.commute)
  qed
  have vv: "v = sgn_of (xs \<noteq> ys) * (2 * (a / b) * 2 ^ j * 2 powi (xe - ye - int j - int p - 3))"
  proof -
    have "sgn_of xs / sgn_of ys = sgn_of (xs \<noteq> ys)" by (cases xs; cases ys) simp_all
    then have "v = sgn_of (xs \<noteq> ys) * (unat xm / unat ym * (2 powi (xe - int p) / 2 powi (ye - int p)))"
      unfolding v by (metis (no_types, opaque_lifting) times_divide_times_eq times_divide_eq_right mult.assoc)
    moreover have "(2::real) powi (xe - int p) / 2 powi (ye - int p) = 2 ^ (p + 3) * 2 ^ j * 2 powi (xe - ye - int j - int p - 3)"
      unfolding power_int_of_nat [symmetric] by (simp only: flip: powi_add2 powi_diff2) (simp add: algebra_simps)
    ultimately show ?thesis by (simp add: a_def b_def power_add)
  qed
  have core: "fp_div_core p (fp_fmt p emin emax) c xs xe xm ys ye ym =
      fp_fmt p emin emax c (xs \<noteq> ys) (xe - ye - int j) m'"
    unfolding fp_div_core_def Let_def dl prod.case w_def [symmetric] m'(1) by simp
  show ?thesis unfolding core by (rule fmt_correct [OF nod m'(3) lt cl4 vv])
qed

end

section \<open>Finite operands\<close>

definition fp_div_finite :: "nat \<Rightarrow> int \<Rightarrow> int \<Rightarrow> ieee754_csr \<Rightarrow> 'a::len word \<Rightarrow> 'a word \<Rightarrow> ieee754_csr \<times> 'a word" where
  "fp_div_finite p emin emax c x y =
     (let (xc, xs, xe, xm) = fp_explode p emin emax (1 - emin) x;
          (yc, ys, ye, ym) = fp_explode p emin emax (1 - emin) y
      in if xc = CLASS_ZERO then (c, fp_zero p (xs \<noteq> ys))
         else
           let (xm, xe) = (if xc = CLASS_DNORM then norm_up p (xm, xe) else (xm, xe));
               (ym, ye) = (if yc = CLASS_DNORM then norm_up p (ym, ye) else (ym, ye))
           in fp_div_core p (fp_fmt p emin emax) c xs xe xm ys ye ym)"

context fp_word
begin

lemma div_finite_correct:
  fixes x y :: "'a word"
  assumes nod: "csr_nod c = 0" and fin: "fp_fin p x" "fp_fin p y" and nz: "fp_val p emin y \<noteq> 0"
    and v: "v = fp_val p emin x / fp_val p emin y"
  shows "\<exists>r. fp_div_finite p emin emax c x y =
      (if v = 0 then c else SETCX (ieee_flags p emin emax (uf_enabled c) (rmode_of c) v) c, r) \<and>
    (if v = 0 then r = fp_zero p (fsign x \<noteq> fsign y) else fp_correct p emin emax (rmode_of c) v r)"
proof -
  obtain ky ye ym ym' ye' where y: "fp_explode p emin emax ebias y = (ky, fsign y, ye, ym)"
    "ky = CLASS_NORM \<or> ky = CLASS_DNORM" "(if ky = CLASS_DNORM then norm_up p (ym, ye) else (ym, ye)) = (ym', ye')"
    "2 ^ p \<le> unat ym'" "unat ym' < 2 ^ (p + 1)" "fp_val p emin y = sgn_of (fsign y) * (unat ym' * 2 powi (ye' - int p))"
    using nonzero_operand [OF fin(2) nz] by blast
  show ?thesis
  proof (cases "fp_val p emin x = 0")
    case True
    obtain xe xm where "fp_explode p emin emax ebias x = (CLASS_ZERO, fsign x, xe, xm)"
      by (rule zero_operand [OF fin(1) True])
    then show ?thesis using True v y(1) unfolding bias by (simp add: fp_div_finite_def)
  next
    case False
    obtain kx xe xm xm' xe' where x: "fp_explode p emin emax ebias x = (kx, fsign x, xe, xm)"
      "kx = CLASS_NORM \<or> kx = CLASS_DNORM" "(if kx = CLASS_DNORM then norm_up p (xm, xe) else (xm, xe)) = (xm', xe')"
      "2 ^ p \<le> unat xm'" "unat xm' < 2 ^ (p + 1)" "fp_val p emin x = sgn_of (fsign x) * (unat xm' * 2 powi (xe' - int p))"
      using nonzero_operand [OF fin(1) False] by blast
    have "fp_div_finite p emin emax c x y = fp_div_core p (fp_fmt p emin emax) c (fsign x) xe' xm' (fsign y) ye' ym'"
      using x(1-3) y(1-3) unfolding bias by (auto simp: fp_div_finite_def)
    moreover have "v \<noteq> 0" using False nz v by simp
    ultimately show ?thesis
      using div_core_correct [OF nod x(4,5) y(4,5) v [unfolded x(6) y(6)]] by simp
  qed
qed

end

end
