(* ===== verification/Fp_Conv.thy ===== *)
theory Fp_Conv
  imports Fp_Mul Fp_Div
begin

text \<open>
  Code and facts the conversions, comparisons and exact operations of both precisions share.
\<close>

section \<open>The code\<close>

text \<open>
  The rounding of the four truncating conversions: \<open>rnd\<close> is the first bit shifted out and
  \<open>sticky\<close> whether any later one was set.
\<close>

definition tint_round :: "ieee754_csr \<Rightarrow> bool \<Rightarrow> bool \<Rightarrow> bool \<Rightarrow> 'a::len word \<Rightarrow> 'a word" where
  "tint_round c xs rnd sticky xm =
     (let odd = (xm AND 0x1 \<noteq> 0x0)
      in if csr_rm c = IEEE754_RN then if rnd \<and> (sticky \<or> odd) then xm + 1 else xm
         else if csr_rm c = IEEE754_RZ then xm
         else if csr_rm c = IEEE754_RU then if (rnd \<or> sticky) \<and> \<not> xs then xm + 1 else xm
         else if (rnd \<or> sticky) \<and> xs then xm + 1 else xm)"

text \<open>What three of them do with the rounded magnitude, for an integer as wide as the mantissa temporary.\<close>

definition tint_finish ::
  "(ieee754_csr \<Rightarrow> 'a word \<Rightarrow> 'a word) \<Rightarrow> 'a::len word \<Rightarrow> ieee754_csr \<Rightarrow> bool \<Rightarrow> bool \<Rightarrow> bool \<Rightarrow> 'a word \<Rightarrow>
   ieee754_csr \<times> 'a word" where
  "tint_finish xcpt indef c xs rnd sticky xm =
     (let xm = tint_round c xs rnd sticky xm
      in if drop_bit (LENGTH('a) - 1) xm \<noteq> 0 then
           let c = SETCX IEEE754_INVALID_OPERATION c in (c, xcpt c indef)
         else
           let c = (if rnd \<or> sticky then SETCX IEEE754_INEXACT c else c)
           in (c, if xs then - xm else xm))"

text \<open>
  The conversion from a signed integer, for any width \<open>'b\<close> of the integer and its mantissa temporary:
  the special cases, the magnitude \<open>int_mag\<close> (\<^verbatim>\<open>max neg can't be safely negated\<close>), and the
  normalisation to guard precision. The mantissa is cut to the width of the format when it is passed on.
\<close>

definition int_mag :: "'a::len word \<Rightarrow> 'a word" where
  "int_mag x = (if sint x < 0 then if x = push_bit (LENGTH('a) - 1) 1 then push_bit (LENGTH('a) - 1) 1 else - x else x)"

definition fp_fint ::
  "nat \<Rightarrow> (ieee754_csr \<Rightarrow> bool \<Rightarrow> int \<Rightarrow> 'a::len word \<Rightarrow> ieee754_csr \<times> 'a word) \<Rightarrow>
   (bool \<Rightarrow> 'a word) \<Rightarrow> (bool \<Rightarrow> 'a word) \<Rightarrow> (bool \<Rightarrow> 'a word) \<Rightarrow>
   ieee754_csr \<Rightarrow> 'b::len word \<Rightarrow> ieee754_csr \<times> 'a word" where
  "fp_fint p normret fzero fone ften c x =
     (let c = CLEARCX c
      in if x = 0 then (c, fzero False)
         else if x = 1 \<or> x = - 1 then (c, fone (sint x < 0))
         else if x = 10 \<or> x = - 10 then (c, ften (sint x < 0))
         else
           let xs = (sint x < 0);
               xm = int_mag x;
               xe = int p + 3;
               (xm, xe) = (if drop_bit (p + 1 + 3) xm \<noteq> 0 then norm_down (p + 1 + 3) (xm, xe)
                 else norm_up (p + 3) (xm, xe))
           in normret c xs xe (ucast xm))"

section \<open>Rounding to an integer\<close>

text \<open>
  A natural \<open>n\<close> cut at bit \<open>k\<close>: the first bit cut off and whether any later one is set determine
  the rounded quotient in every mode.
\<close>

lemma mod_pow2_split:
  "(n::nat) mod 2 ^ Suc j = (if odd (n div 2 ^ j) then 2 ^ j else 0) + n mod 2 ^ j"
proof -
  have "n mod 2 ^ Suc j = 2 ^ j * (n div 2 ^ j mod 2) + n mod 2 ^ j"
    by (simp only: power_Suc2 mod_mult2_eq)
  then show ?thesis by (simp add: mod_2_eq_odd)
qed

lemma floor_div_pow2: "\<lfloor>real n / 2 ^ k\<rfloor> = int (n div 2 ^ k)"
  using floor_divide_of_nat_eq [of n "2 ^ k"] by simp

lemma frac_div_pow2: "real n / 2 ^ k - real (n div 2 ^ k) = real (n mod 2 ^ k) / 2 ^ k"
proof -
  have "real n = real (n div 2 ^ k * 2 ^ k + n mod 2 ^ k)" by (simp only: div_mult_mod_eq)
  then have "real n = real (n div 2 ^ k) * 2 ^ k + real (n mod 2 ^ k)"
    by (simp only: of_nat_add of_nat_mult of_nat_power of_nat_numeral)
  then have "real n / 2 ^ k = (real (n div 2 ^ k) * 2 ^ k + real (n mod 2 ^ k)) / 2 ^ k" by (rule arg_cong)
  then show ?thesis by (simp add: add_divide_distrib)
qed

lemma exact_div_pow2: "real n / 2 ^ k = real (n div 2 ^ k) \<longleftrightarrow> n mod 2 ^ k = 0"
  using frac_div_pow2 [of n k]
  by (metis divide_eq_0_iff eq_iff_diff_eq_0 of_nat_eq_0_iff power_not_zero zero_neq_numeral)

lemma Ints_div_pow2: "real n / 2 ^ k \<in> \<int> \<longleftrightarrow> n mod 2 ^ k = 0"
  unfolding exact_div_pow2 [symmetric] rmag_Ints [of RZ False, symmetric] by (auto simp: floor_div_pow2)

lemma ceiling_div_pow2: "\<lceil>real n / 2 ^ k\<rceil> = int (n div 2 ^ k) + of_bool (n mod 2 ^ k \<noteq> 0)"
  using exact_div_pow2 [of n k] by (simp add: ceiling_altdef floor_div_pow2)

lemma half_even_div_pow2:
  "half_even (real n / 2 ^ Suc j) = int (n div 2 ^ Suc j) +
    of_bool (odd (n div 2 ^ j) \<and> (n mod 2 ^ j \<noteq> 0 \<or> odd (n div 2 ^ Suc j)))"
proof -
  define f where "f = real (n mod 2 ^ Suc j) / 2 ^ Suc j"
  have f: "real n / 2 ^ Suc j - real (n div 2 ^ Suc j) = f" unfolding f_def by (rule frac_div_pow2)
  define r where "r = real (n mod 2 ^ j) / 2 ^ Suc j"
  have "n mod 2 ^ j < 2 ^ j" by simp
  then have "real (n mod 2 ^ j) < 2 ^ j" by (metis of_nat_less_numeral_power_cancel_iff)
  then have r: "0 \<le> r" "r < 1 / 2" "r = 0 \<longleftrightarrow> n mod 2 ^ j = 0" by (simp_all add: r_def)
  have "f = (if odd (n div 2 ^ j) then 1 / 2 else 0) + r"
    unfolding f_def r_def mod_pow2_split by (simp add: add_divide_distrib)
  then have "f < 1 / 2 \<longleftrightarrow> \<not> odd (n div 2 ^ j)" "f = 1 / 2 \<longleftrightarrow> odd (n div 2 ^ j) \<and> n mod 2 ^ j = 0"
    using r by auto
  then show ?thesis unfolding half_even_def floor_div_pow2 of_int_of_nat_eq f by auto
qed

lemma rmag_div_pow2:
  "rmag rm s (real n / 2 ^ Suc j) = int (n div 2 ^ Suc j) + of_bool (case rm of
      RN \<Rightarrow> odd (n div 2 ^ j) \<and> (n mod 2 ^ j \<noteq> 0 \<or> odd (n div 2 ^ Suc j))
    | RZ \<Rightarrow> False
    | RU \<Rightarrow> (odd (n div 2 ^ j) \<or> n mod 2 ^ j \<noteq> 0) \<and> \<not> s
    | RD \<Rightarrow> (odd (n div 2 ^ j) \<or> n mod 2 ^ j \<noteq> 0) \<and> s)"
  by (cases rm; cases s)
    (simp_all only: rmag.simps half_even_div_pow2 floor_div_pow2 ceiling_div_pow2 mod_pow2_split rmode.case if_True if_False,
      simp_all)

lemma unat_tint_round:
  fixes xm :: "'a::len word"
  assumes "unat xm = n div 2 ^ Suc j" and "unat xm + 1 < 2 ^ LENGTH('a)"
    and "rnd \<longleftrightarrow> odd (n div 2 ^ j)" and "sticky \<longleftrightarrow> n mod 2 ^ j \<noteq> 0"
  shows "int (unat (tint_round c s rnd sticky xm)) = rmag (rmode_of c) s (real n / 2 ^ Suc j)"
    and "rnd \<or> sticky \<longleftrightarrow> real n / 2 ^ Suc j \<notin> \<int>"
proof -
  have inc: "unat (xm + 1) = unat xm + 1" using assms(2) by (subst unat_add_small) simp_all
  have odd: "xm AND 1 \<noteq> 0 \<longleftrightarrow> odd (unat xm)"
    by (simp only: unat_eq_0 [symmetric] unat_and_1 odd_iff_mod_2_eq_one) simp
  show "int (unat (tint_round c s rnd sticky xm)) = rmag (rmode_of c) s (real n / 2 ^ Suc j)"
    unfolding rmag_div_pow2 tint_round_def Let_def odd assms(1) [symmetric] assms(3,4) [symmetric]
    by (cases c rule: rm_cases) (simp_all add: inc)
  show "rnd \<or> sticky \<longleftrightarrow> real n / 2 ^ Suc j \<notin> \<int>"
    unfolding Ints_div_pow2 mod_pow2_split by (auto simp: assms(3,4))
qed

section \<open>Signed integers\<close>

declare of_int_sint [simp del]

lemma sint_neg_iff: "sint (x :: 'a::len word) < 0 \<longleftrightarrow> 2 ^ (LENGTH('a) - 1) \<le> unat x"
  using bit_last_iff [of x] bit_top_iff [of x] by simp

lemma sint_unat: "sint (x :: 'a::len word) = (if sint x < 0 then int (unat x) - 2 ^ LENGTH('a) else int (unat x))"
proof -
  have "sint x = take_bit LENGTH('a) (uint x) - 2 ^ LENGTH('a) * of_bool (bit (uint x) (LENGTH('a) - Suc 0))"
    using signed_take_bit_eq_take_bit_minus [of "LENGTH('a) - Suc 0" "uint x"] by (simp add: sint_uint)
  moreover have "take_bit LENGTH('a) (uint x) = uint x" by (simp add: take_bit_int_eq_self)
  moreover have "bit (uint x) (LENGTH('a) - Suc 0) \<longleftrightarrow> sint x < 0" by (simp add: bit_uint_iff bit_last_iff)
  ultimately show ?thesis by (simp add: uint_nat)
qed

lemma unat_minus_pos:
  fixes x :: "'a::len word"
  assumes "0 < unat x"
  shows "unat (- x) = 2 ^ LENGTH('a) - unat x"
proof -
  have lt: "unat x < 2 ^ LENGTH('a)" by (rule unsigned_less)
  have "of_nat (2 ^ LENGTH('a) - unat x) + x = of_nat (2 ^ LENGTH('a) - unat x + unat x)" by (simp add: of_nat_unat)
  also have "2 ^ LENGTH('a) - unat x + unat x = 2 ^ LENGTH('a)" using lt by linarith
  also have "of_nat (2 ^ LENGTH('a)) = (0 :: 'a word)" by simp
  finally have "- x = of_nat (2 ^ LENGTH('a) - unat x)" by (metis add.commute minus_unique)
  then have "unat (- x) = (2 ^ LENGTH('a) - unat x) mod 2 ^ LENGTH('a)" by (simp add: unat_of_nat)
  also have "\<dots> = 2 ^ LENGTH('a) - unat x" using assms by (intro mod_less) simp
  finally show ?thesis .
qed

lemma unat_int_mag: "int (unat (int_mag (x :: 'a::len word))) = \<bar>sint x\<bar>"
proof (cases "sint x < 0")
  case True
  then have s: "sint x = int (unat x) - 2 ^ LENGTH('a)" using sint_unat [of x] by simp
  have lt: "unat x < 2 ^ LENGTH('a)" by (rule unsigned_less)
  have pos: "0 < unat x" using True sint_neg_iff [of x] by (auto intro: less_le_trans [rotated])
  note mx = unat_minus_pos [OF pos]
  show ?thesis
  proof (cases "x = push_bit (LENGTH('a) - 1) 1")
    case eq: True
    have "unat x = 2 ^ (LENGTH('a) - 1)" unfolding eq by (subst unat_push_bit) (simp_all add: power_strict_increasing)
    moreover have "(2::int) ^ LENGTH('a) = 2 * 2 ^ (LENGTH('a) - 1)" by (simp flip: power_Suc)
    ultimately show ?thesis using True s eq by (simp add: int_mag_def)
  next
    case False
    then have "int_mag x = - x" using True by (simp add: int_mag_def)
    then have "int (unat (int_mag x)) = 2 ^ LENGTH('a) - int (unat x)"
      using mx less_imp_le [OF lt] by (simp only: of_nat_diff) simp
    then show ?thesis using s True by simp
  qed
next
  case False
  then show ?thesis using sint_unat [of x] by (simp add: int_mag_def)
qed

section \<open>Conversion to integers\<close>

text \<open>
  What a conversion to the signed integers of width \<open>'a\<close> owes for the real \<open>v\<close>: \<open>v\<close> rounded to an integer
  in the current mode, inexact if that changed it, and the indefinite value with the invalid
  operation exception if the integer does not fit.
\<close>

definition int_outcome :: "ieee754_csr \<Rightarrow> 'a::len word \<Rightarrow> real \<Rightarrow> ieee754_csr \<times> 'a word" where
  "int_outcome c indef v =
     (let n = rint (rmode_of c) v
      in if - (2 ^ (LENGTH('a) - 1)) \<le> n \<and> n < 2 ^ (LENGTH('a) - 1)
         then (if of_int n = v then c else SETCX IEEE754_INEXACT c, word_of_int n)
         else (SETCX IEEE754_INVALID_OPERATION c, indef))"

lemma int_outcome_exact:
  assumes "v = of_int n" and "- (2 ^ (LENGTH('a) - 1)) \<le> n" and "n < 2 ^ (LENGTH('a) - 1)"
  shows "int_outcome c (i :: 'a::len word) v = (c, word_of_int n)"
  using assms by (simp add: int_outcome_def)

lemma int_outcome_0 [simp]: "int_outcome c (i :: 'a::len word) 0 = (c, 0)"
  using int_outcome_exact [of 0 0 c i] by simp

lemma tint_sign: "(if s then - w else w) = (word_of_int (if s then - int (unat w) else int (unat w)) :: 'a::len word)"
  by (simp add: of_nat_unat)

lemma tint_round_exact: "tint_round c s False False xm = xm"
  by (simp add: tint_round_def Let_def)

text \<open>The two bits of the residue word: the mantissa pushed up until the bits to be cut are at the top.\<close>

lemma residue_bits:
  fixes xm :: "'a::len word"
  assumes "j < LENGTH('a)" and "k = LENGTH('a) - 1 - j"
  shows "drop_bit (LENGTH('a) - 1) (push_bit k xm) \<noteq> 0 \<longleftrightarrow> odd (unat xm div 2 ^ j)"
    and "push_bit 1 (push_bit k xm) \<noteq> 0 \<longleftrightarrow> unat xm mod 2 ^ j \<noteq> 0"
proof -
  have "bit (push_bit k xm) (LENGTH('a) - 1) \<longleftrightarrow> bit xm j" using assms by (auto simp: bit_simps)
  moreover have "bit xm j \<longleftrightarrow> odd (unat xm div 2 ^ j)"
    using assms(1) bit_unsigned_iff [of xm j, where ?'a = nat] by (simp add: bit_iff_odd)
  ultimately show "drop_bit (LENGTH('a) - 1) (push_bit k xm) \<noteq> 0 \<longleftrightarrow> odd (unat xm div 2 ^ j)"
    unfolding drop_bit_eq_0_iff_unat bit_top_iff by (simp add: not_less)
  have "1 + k = LENGTH('a) - j" using assms by simp
  then have "push_bit 1 (push_bit k xm) = push_bit (LENGTH('a) - j) xm" by (simp only: push_bit_push_bit)
  then show "push_bit 1 (push_bit k xm) \<noteq> 0 \<longleftrightarrow> unat xm mod 2 ^ j \<noteq> 0"
    using push_bit_eq_0_iff_unat [of j xm] assms(1) by simp
qed

text \<open>The rounded integer, when the mantissa \<open>n\<close> has \<open>Suc j\<close> bits below the binary point.\<close>

lemma tint_rounds:
  fixes xm :: "'a::len word"
  assumes n: "0 < n" and j: "int p - e = int (Suc j)" and v: "v = sgn_of s * (real n * 2 powi (e - int p))"
    and xm: "unat xm = n div 2 ^ Suc j" "unat xm + 1 < 2 ^ LENGTH('a)"
    and bits: "rnd \<longleftrightarrow> odd (n div 2 ^ j)" "sticky \<longleftrightarrow> n mod 2 ^ j \<noteq> 0"
  shows "rint (rmode_of c) v = (if s then - int (unat (tint_round c s rnd sticky xm)) else int (unat (tint_round c s rnd sticky xm)))"
    and "rnd \<or> sticky \<longleftrightarrow> of_int (rint (rmode_of c) v) \<noteq> v"
proof -
  have "e - int p = - int (Suc j)" using j by simp
  then have v: "v = sgn_of s * (real n / 2 ^ Suc j)" unfolding v by (simp only: power_int_minus power_int_of_nat divide_inverse)
  have pos: "0 < real n / 2 ^ Suc j" using n by simp
  note tr = unat_tint_round(1) [OF xm bits, where c = c and s = s] unat_tint_round(2) [OF xm bits]
  have r: "rint (rmode_of c) v = (if s then - rmag (rmode_of c) s (real n / 2 ^ Suc j) else rmag (rmode_of c) s (real n / 2 ^ Suc j))"
    unfolding v by (rule rint_signed [OF pos])
  then show "rint (rmode_of c) v = (if s then - int (unat (tint_round c s rnd sticky xm)) else int (unat (tint_round c s rnd sticky xm)))"
    unfolding tr(1) .
  have "of_int (rint (rmode_of c) v) = v \<longleftrightarrow> of_int (rmag (rmode_of c) s (real n / 2 ^ Suc j)) = real n / 2 ^ Suc j"
    unfolding r unfolding v by (cases s) simp_all
  then show "rnd \<or> sticky \<longleftrightarrow> of_int (rint (rmode_of c) v) \<noteq> v" unfolding tr(2) by (simp only: rmag_Ints)
qed

lemma tint_outcome:
  fixes xm :: "'a::len word" and i :: "'b::len word"
  assumes "0 < n" and "int p - e = int (Suc j)" and "v = sgn_of s * (real n * 2 powi (e - int p))"
    and "unat xm = n div 2 ^ Suc j" "unat xm + 1 < 2 ^ LENGTH('a)"
    and "rnd \<longleftrightarrow> odd (n div 2 ^ j)" "sticky \<longleftrightarrow> n mod 2 ^ j \<noteq> 0"
    and k: "k = (if s then - int (unat (tint_round c s rnd sticky xm)) else int (unat (tint_round c s rnd sticky xm)))"
  shows "int_outcome c i v =
    (if - (2 ^ (LENGTH('b) - 1)) \<le> k \<and> k < 2 ^ (LENGTH('b) - 1)
     then (if rnd \<or> sticky then SETCX IEEE754_INEXACT c else c, word_of_int k)
     else (SETCX IEEE754_INVALID_OPERATION c, i))"
  using tint_rounds(2) [OF assms(1-7), of c] unfolding int_outcome_def Let_def tint_rounds(1) [OF assms(1-7)] k [symmetric]
  by auto

lemma unat_tint_round_le: "unat (tint_round c s rnd sticky (xm :: 'a::len word)) \<le> unat xm + 1"
proof -
  have "unat (xm + 1) = (unat xm + 1) mod 2 ^ LENGTH('a)" by (simp add: unat_word_ariths)
  then have "unat (xm + 1) \<le> unat xm + 1" by (simp only: mod_less_eq_dividend)
  then show ?thesis by (simp add: tint_round_def Let_def)
qed

lemma tint_tail:
  fixes xm i :: "'a::len word"
  assumes "0 < n" and "int p - e = int (Suc j)" and "v = sgn_of s * (real n * 2 powi (e - int p))"
    and xm: "unat xm = n div 2 ^ Suc j" and small: "unat xm + 1 < 2 ^ (LENGTH('a) - 1)"
    and "rnd \<longleftrightarrow> odd (n div 2 ^ j)" "sticky \<longleftrightarrow> n mod 2 ^ j \<noteq> 0"
    and x: "\<And>c r. xcpt c r = r"
  shows "int_outcome c i v = tint_finish xcpt i c s rnd sticky xm"
proof -
  let ?r = "tint_round c s rnd sticky xm"
  have "(2::nat) ^ (LENGTH('a) - 1) \<le> 2 ^ LENGTH('a)" by (intro power_increasing) simp_all
  then have xm1: "unat xm + 1 < 2 ^ LENGTH('a)" using small by linarith
  have r: "unat ?r < 2 ^ (LENGTH('a) - 1)" using unat_tint_round_le [of c s rnd sticky xm] small by linarith
  define k where "k = (if s then - int (unat ?r) else int (unat ?r))"
  have "int (unat ?r) < int (2 ^ (LENGTH('a) - 1))" using r by (simp only: of_nat_less_iff)
  then have "int (unat ?r) < 2 ^ (LENGTH('a) - 1)" "0 \<le> int (unat ?r)" by simp_all
  then have "- (2 ^ (LENGTH('a) - 1)) \<le> k" "k < 2 ^ (LENGTH('a) - 1)" unfolding k_def by (cases s; simp only: if_True if_False; linarith)+
  moreover have "drop_bit (LENGTH('a) - 1) ?r = 0" using r by (simp only: drop_bit_eq_0_iff_unat)
  ultimately show ?thesis
    unfolding tint_outcome [OF assms(1-4) xm1 assms(6,7) k_def] tint_finish_def Let_def tint_sign k_def [symmetric]
    by (simp add: x)
qed

lemma tint_whole:
  assumes "int p \<le> e" and "v = sgn_of s * (real n * 2 powi (e - int p))"
  shows "v = of_int (if s then - int (n * 2 ^ nat (e - int p)) else int (n * 2 ^ nat (e - int p)))"
proof -
  have "(2::real) powi (e - int p) = 2 ^ nat (e - int p)" using assms(1) by (simp add: power_int_def)
  then show ?thesis unfolding assms(2) by (cases s) simp_all
qed

lemma cut_all:
  assumes "(n::nat) < 2 ^ (p + 1)" and "p < j"
  shows "n div 2 ^ Suc j = 0" "even (n div 2 ^ j)" "n mod 2 ^ j = n"
proof -
  have "(2::nat) ^ (p + 1) \<le> 2 ^ j" "(2::nat) ^ j \<le> 2 ^ Suc j" using assms(2) by (intro power_increasing; simp)+
  then have "n < 2 ^ j" "n < 2 ^ Suc j" using assms(1) by linarith+
  then show "n div 2 ^ Suc j = 0" "even (n div 2 ^ j)" "n mod 2 ^ j = n" by (simp_all only: div_less mod_less) simp_all
qed

lemma outcome_whole:
  assumes "int p \<le> e" and "v = sgn_of s * (real n * 2 powi (e - int p))" and "n * 2 ^ nat (e - int p) < 2 ^ (LENGTH('a) - 1)"
  shows "int_outcome c (i :: 'a::len word) v =
    (c, word_of_int (if s then - int (n * 2 ^ nat (e - int p)) else int (n * 2 ^ nat (e - int p))))"
proof (rule int_outcome_exact [OF tint_whole [OF assms(1,2)]])
  define k where "k = int (n * 2 ^ nat (e - int p))"
  have "k < int (2 ^ (LENGTH('a) - 1))" "0 \<le> k" using assms(3) unfolding k_def by (simp_all only: of_nat_less_iff of_nat_0_le_iff)
  moreover have "int (2 ^ (LENGTH('a) - 1)) = 2 ^ (LENGTH('a) - 1)" by simp
  ultimately show "- (2 ^ (LENGTH('a) - 1)) \<le> (if s then - int (n * 2 ^ nat (e - int p)) else int (n * 2 ^ nat (e - int p)))"
    "(if s then - int (n * 2 ^ nat (e - int p)) else int (n * 2 ^ nat (e - int p))) < 2 ^ (LENGTH('a) - 1)"
    unfolding k_def [symmetric] by (cases s; simp only: if_True if_False; linarith)+
qed

lemma outcome_large:
  assumes "v = sgn_of s * m" and "2 ^ (LENGTH('a) - 1) \<le> m" and "s \<Longrightarrow> 2 ^ (LENGTH('a) - 1) + 1 \<le> m"
  shows "int_outcome c (i :: 'a::len word) v = (SETCX IEEE754_INVALID_OPERATION c, i)"
proof -
  have pos: "0 < m" using assms(2) less_le_trans [of 0 "2 ^ (LENGTH('a) - 1)" m] by simp
  have "(2::int) ^ (LENGTH('a) - 1) \<le> \<lfloor>m\<rfloor>" "s \<Longrightarrow> (2::int) ^ (LENGTH('a) - 1) + 1 \<le> \<lfloor>m\<rfloor>"
    using assms(2,3) by (simp_all add: le_floor_iff)
  then have "(2::int) ^ (LENGTH('a) - 1) \<le> rmag (rmode_of c) s m" "s \<Longrightarrow> (2::int) ^ (LENGTH('a) - 1) + 1 \<le> rmag (rmode_of c) s m"
    using rmag_bounds(1) [of m "rmode_of c" s] by linarith+
  then show ?thesis unfolding int_outcome_def Let_def assms(1) rint_signed [OF pos] by auto
qed

lemma outcome_top:
  assumes "v = sgn_of s * (real n * 2 powi (e - int p))" and "2 ^ p \<le> n" and "int LENGTH('a) - 1 \<le> e" and "p < LENGTH('a)"
  shows "int_outcome c (i :: 'a::len word) v =
    (if e = int LENGTH('a) - 1 \<and> s \<and> n = 2 ^ p then (c, - (2 ^ (LENGTH('a) - 1)))
     else (SETCX IEEE754_INVALID_OPERATION c, i))"
proof -
  define k where "k = n * 2 ^ nat (e - int p)"
  have pe: "int p \<le> e" using assms(3,4) by simp
  have rk: "real k = real n * 2 powi (e - int p)" using pe by (simp add: k_def power_int_def)
  have pk: "2 ^ p * 2 ^ nat (e - int p) = (2::nat) ^ nat e" using pe by (simp add: nat_add_distrib flip: power_add)
  have ek: "(2::nat) ^ (LENGTH('a) - 1) \<le> 2 ^ nat e" using assms(3) by (intro power_increasing) simp_all
  have nk: "2 ^ p * 2 ^ nat (e - int p) \<le> k" unfolding k_def using assms(2) by simp
  have k: "2 ^ (LENGTH('a) - 1) \<le> k" using pk ek nk by linarith
  show ?thesis
  proof (cases "e = int LENGTH('a) - 1 \<and> s \<and> n = 2 ^ p")
    case True
    then have "k = 2 ^ (LENGTH('a) - 1)" unfolding k_def using assms(4) by (simp add: of_nat_diff flip: power_add)
    then have "v = of_int (- (2 ^ (LENGTH('a) - 1)))" using assms(1) True unfolding rk [symmetric] by simp
    then have "int_outcome c i v = (c, word_of_int (- (2 ^ (LENGTH('a) - 1))))" by (rule int_outcome_exact) simp_all
    then show ?thesis using True by simp
  next
    case False
    have "k \<noteq> 2 ^ (LENGTH('a) - 1)" if s
    proof
      assume eq: "k = 2 ^ (LENGTH('a) - 1)"
      then have "(2::nat) ^ nat e = 2 ^ (LENGTH('a) - 1)" "k = 2 ^ p * 2 ^ nat (e - int p)" using pk ek nk by linarith+
      then have "nat e = LENGTH('a) - 1" "n = 2 ^ p" unfolding k_def by simp_all
      then show False using False that assms(3,4) by linarith
    qed
    then have s: "s \<Longrightarrow> 2 ^ (LENGTH('a) - 1) + 1 \<le> k" using k by (simp add: less_iff_succ_less_eq [symmetric] le_neq_implies_less)
    have "real (2 ^ (LENGTH('a) - 1)) \<le> real k" "s \<Longrightarrow> real (2 ^ (LENGTH('a) - 1) + 1) \<le> real k"
      using k s by (simp_all only: of_nat_le_iff)
    then have "int_outcome c i v = (SETCX IEEE754_INVALID_OPERATION c, i)"
      by (intro outcome_large [of v s "real k"]) (simp_all add: assms(1) rk)
    then show ?thesis by (simp only: False if_False)
  qed
qed

section \<open>Conversion from integers\<close>

lemma norm_int:
  fixes m :: "'a::len word"
  assumes "0 < unat m" and "k < LENGTH('a)"
  obtains m' e' where "(if drop_bit (Suc k) m \<noteq> 0 then norm_down (Suc k) (m, e) else norm_up k (m, e)) = (m', e')"
    and "2 ^ k \<le> unat m'" and "unat m' < 2 ^ (k + 1)" and "cell 2 (unat m') (unat m * 2 powi (e - e'))"
proof (cases "drop_bit (Suc k) m = 0")
  case True
  then have "unat m < 2 ^ (k + 1)" by (simp only: drop_bit_eq_0_iff_unat) simp
  then obtain m' j where "norm_up k (m, e) = (m', e - int j)" "unat m' = unat m * 2 ^ j"
      "2 ^ k \<le> unat m'" "unat m' < 2 ^ (k + 1)"
    using norm_up [OF assms(1) _ assms(2), of e] by blast
  then show thesis using that True by (simp add: power_int_of_nat)
next
  case False
  then have "2 ^ k \<le> unat m" by (simp only: drop_bit_eq_0_iff_unat) simp
  then obtain m' j where "norm_down (Suc k) (m, e) = (m', e + int j)" "cell 2 (unat m') (unat m / 2 ^ j)"
      "2 ^ k \<le> unat m'" "unat m' < 2 ^ Suc k"
    by (rule norm_down)
  then show thesis using that False by (simp add: power_int_minus power_int_of_nat divide_inverse)
qed

context fp_word
begin

text \<open>
  A nonzero magnitude, of any width, normalised to \<open>p + 4\<close> bits at exponent \<open>p + 3\<close> and formatted.
\<close>

lemma fint_correct:
  fixes xm :: "'b::len word"
  assumes nod: "csr_nod c = 0" and pos: "0 < unat xm" and w: "p + 4 \<le> LENGTH('b)"
    and nrm: "(if drop_bit (p + 1 + 3) xm \<noteq> 0 then norm_down (p + 1 + 3) (xm, int p + 3)
      else norm_up (p + 3) (xm, int p + 3)) = (xm', xe')"
    and v: "v = sgn_of s * unat xm"
  shows "\<exists>r. fp_fmt p emin emax c s xe' (ucast xm' :: 'a word) =
      (SETCX (ieee_flags p emin emax (uf_enabled c) (rmode_of c) v) c, r) \<and>
    fp_correct p emin emax (rmode_of c) v r"
proof -
  have e: "p + 1 + 3 = Suc (p + 3)" by simp
  obtain m' e' where m': "(if drop_bit (Suc (p + 3)) xm \<noteq> 0 then norm_down (Suc (p + 3)) (xm, int p + 3)
      else norm_up (p + 3) (xm, int p + 3)) = (m', e')" "2 ^ (p + 3) \<le> unat m'" "unat m' < 2 ^ (p + 3 + 1)"
      "cell 2 (unat m') (unat xm * 2 powi (int p + 3 - e'))"
    by (rule norm_int [OF pos, of "p + 3" "int p + 3"]) (use w in simp)
  have m: "xm' = m'" "xe' = e'" using nrm m'(1) unfolding e by simp_all
  have p4: "p + 3 + 1 = p + 4" by simp
  have "(2::nat) ^ (p + 4) \<le> 2 ^ LENGTH('a)" using width by (intro power_increasing) simp_all
  then have "unat m' < 2 ^ LENGTH('a)" using m'(3) unfolding p4 by (rule less_le_trans [rotated])
  then have u: "unat (ucast m' :: 'a word) = unat m'" by (simp add: unsigned_ucast_eq take_bit_nat_eq_self)
  show ?thesis unfolding m
  proof (rule fmt_correct [OF nod])
    show "2 ^ (p + 3) \<le> unat (ucast m' :: 'a word)" "unat (ucast m' :: 'a word) < 2 ^ (p + 4)"
      using m'(2,3) unfolding u p4 .
    show "cell 4 (unat (ucast m' :: 'a word)) (unat xm * 2 powi (int p + 3 - e'))"
      unfolding u using m'(4) by (rule cell_2_4)
    show "v = sgn_of s * (unat xm * 2 powi (int p + 3 - e') * 2 powi (e' - int p - 3))"
      unfolding v mult.assoc powi_add2 [symmetric] by simp
  qed
qed

text \<open>
  The whole conversion, for a width of at least \<open>p + 4\<close> bits, given that the two special
  constants encode 1 and 10.
\<close>

definition fp_const :: "(bool \<Rightarrow> 'a word) \<Rightarrow> real \<Rightarrow> bool" where
  "fp_const f v \<longleftrightarrow> (\<forall>s. fp_fin p (f s) \<and> fp_class p (f s) = CLASS_NORM \<and> fp_val p emin (f s) = sgn_of s * v)"

lemma const_rounds:
  assumes "fp_const f v" and "v \<noteq> 0"
  shows "fp_correct p emin emax rm (sgn_of s * v) (f s) \<and> ieee_flags p emin emax trap rm (sgn_of s * v) = 0"
  using correct_self [of "f s"] assms unfolding fp_const_def by (metis mult_eq_0_iff sgn_of_neq_0)

lemma fp_fint_correct:
  fixes x :: "'b::len word"
  assumes nod: "csr_nod c = 0" and w: "p + 4 \<le> LENGTH('b)" 
    and sx: "sint (1 :: 'b word) = 1" "sint (- 1 :: 'b word) = - 1" "sint (10 :: 'b word) = 10" "sint (- 10 :: 'b word) = - 10"
    and c1: "fp_const fone 1" and c10: "fp_const ften 10"
  shows "\<exists>r. fp_fint p (fp_fmt p emin emax) fzero fone ften c x =
      (if x = 0 then CLEARCX c
       else SETCX (ieee_flags p emin emax (uf_enabled c) (rmode_of c) (sint x)) (CLEARCX c), r) \<and>
    (if x = 0 then r = fzero False else fp_correct p emin emax (rmode_of c) (sint x) r)"
proof -
  consider "x = 0" | (one) "x = 1 \<or> x = - 1" "x \<noteq> 0" | (ten) "x = 10 \<or> x = - 10" "x \<noteq> 0" "x \<noteq> 1" "x \<noteq> - 1"
    | (gen) "x \<noteq> 0" "x \<noteq> 1" "x \<noteq> - 1" "x \<noteq> 10" "x \<noteq> - 10" by blast
  then show ?thesis
  proof cases
    case gen
    obtain xm' xe' where nrm: "(if drop_bit (p + 1 + 3) (int_mag x) \<noteq> 0 then norm_down (p + 1 + 3) (int_mag x, int p + 3)
      else norm_up (p + 3) (int_mag x, int p + 3)) = (xm', xe')" by fastforce
    have "sint x \<noteq> 0" using gen(1) signed_word_eqI [of x 0] by auto
    then have pos: "0 < unat (int_mag x)" using unat_int_mag [of x] by linarith
    have "real_of_int (sint x) = sgn_of (sint x < 0) * real_of_int \<bar>sint x\<bar>" by (simp add: sgn_of_def)
    then have v: "real_of_int (sint x) = sgn_of (sint x < 0) * unat (int_mag x)"
      unfolding unat_int_mag [symmetric] by simp
    have "fp_fint p (fp_fmt p emin emax) fzero fone ften c x = fp_fmt p emin emax (CLEARCX c) (sint x < 0) xe' (ucast xm')"
      using gen unfolding fp_fint_def Let_def nrm by simp
    then show ?thesis
      using fint_correct [OF _ pos w nrm v, of "CLEARCX c"] nod gen(1) by simp
  next
    case one
    then have v: "real_of_int (sint x) = sgn_of (sint x < 0) * 1" using sx by (auto simp: sgn_of_def)
    have "fp_fint p (fp_fmt p emin emax) fzero fone ften c x = (CLEARCX c, fone (sint x < 0))"
      using one unfolding fp_fint_def Let_def by simp
    then show ?thesis using const_rounds [OF c1, of "rmode_of c" "sint x < 0"] one(2) unfolding v by simp
  next
    case ten
    then have v: "real_of_int (sint x) = sgn_of (sint x < 0) * 10" using sx by (auto simp: sgn_of_def)
    have "fp_fint p (fp_fmt p emin emax) fzero fone ften c x = (CLEARCX c, ften (sint x < 0))"
      using ten unfolding fp_fint_def Let_def by simp
    then show ?thesis using const_rounds [OF c10, of "rmode_of c" "sint x < 0"] ten(2) unfolding v by simp
  qed (simp add: fp_fint_def)
qed

end

section \<open>Order\<close>

text \<open>
  The words below the sign bit are ordered like the magnitudes of the numbers they stand for. An infinity is
  read by \<open>fp_val\<close> as the power of two above all finite numbers. \<open>cmp_key\<close> is the integer the
  comparison functions compute from a word, \<^verbatim>\<open>if (vx < 0) vx = -vx ^ SP_SIGN_BIT\<close>.
\<close>

definition fp_mag :: "'a::len word \<Rightarrow> nat" where
  "fp_mag w = unat w mod 2 ^ (LENGTH('a) - 1)"

definition cmp_key :: "'a::len word \<Rightarrow> 'a word" where
  "cmp_key v = (if sint v < 0 then (- v) XOR push_bit (LENGTH('a) - 1) 1 else v)"

lemma fp_mag_fields:
  fixes w :: "'a::len word"
  assumes "p < LENGTH('a)"
  shows "int (fp_mag w) = fbexp p w * 2 ^ p + int (unat (fmant p w))"
proof -
  have "(2::nat) ^ (LENGTH('a) - 1) = 2 ^ p * 2 ^ (LENGTH('a) - 1 - p)" using assms by (simp flip: power_add)
  then have "fp_mag w = 2 ^ p * (unat w div 2 ^ p mod 2 ^ (LENGTH('a) - 1 - p)) + unat w mod 2 ^ p"
    unfolding fp_mag_def by (simp only: mod_mult2_eq)
  moreover have "fbexp p w = int (unat w div 2 ^ p mod 2 ^ (LENGTH('a) - 1 - p))"
    unfolding fbexp_def uint_nat unat_take_bit unat_drop_bit ..
  ultimately show ?thesis by (simp add: unat_fmant)
qed

lemma fp_val_abs:
  "\<bar>fp_val p emin w\<bar> = (if fbexp p w = 0 then unat (fmant p w) * 2 powi (emin - int p)
      else (2 ^ p + unat (fmant p w)) * 2 powi (fbexp p w + emin - 1 - int p))"
  by (simp add: fp_val_def)

lemma fp_val_abs_bounds:
  "\<bar>fp_val p emin w\<bar> < 2 powi (fbexp p w + emin)"
  "fbexp p w \<noteq> 0 \<Longrightarrow> 2 powi (fbexp p w + emin - 1) \<le> \<bar>fp_val p emin w\<bar>"
proof -
  have "real (unat (fmant p w)) < real (2 ^ p)" using unat_fmant_less [of p w] by (simp only: of_nat_less_iff)
  then have m: "real (unat (fmant p w)) < 2 ^ p" by simp
  have p0: "(2::real) ^ p * 2 powi (emin - int p) = 2 powi emin" by (rule powi_shift2)
  have p1: "(2::real) ^ p * 2 powi (fbexp p w + emin - 1 - int p) = 2 powi (fbexp p w + emin - 1)" by (rule powi_shift2)
  have p2: "(2::real) powi (fbexp p w + emin) = 2 * 2 powi (fbexp p w + emin - 1)"
    using powi_add2 [of "fbexp p w + emin - 1" 1] by simp
  show "\<bar>fp_val p emin w\<bar> < 2 powi (fbexp p w + emin)"
  proof (cases "fbexp p w = 0")
    case True
    have "real (unat (fmant p w)) * 2 powi (emin - int p) < 2 ^ p * 2 powi (emin - int p)" using m by simp
    then show ?thesis using True p0 by (simp add: fp_val_abs)
  next
    case False
    have "(2 ^ p + real (unat (fmant p w))) * 2 powi (fbexp p w + emin - 1 - int p) <
      (2 ^ p + 2 ^ p) * 2 powi (fbexp p w + emin - 1 - int p)" using m by simp
    also have "\<dots> = 2 powi (fbexp p w + emin)" unfolding distrib_right p1 p2 by simp
    finally show ?thesis using False by (simp add: fp_val_abs)
  qed
  show "2 powi (fbexp p w + emin - 1) \<le> \<bar>fp_val p emin w\<bar>" if "fbexp p w \<noteq> 0"
    using that p1 by (simp add: fp_val_abs distrib_right)
qed

lemma fp_mag_less:
  fixes a b :: "'a::len word"
  assumes "p < LENGTH('a)" and "fp_mag a < fp_mag b"
  shows "\<bar>fp_val p emin a\<bar> < \<bar>fp_val p emin b\<bar>"
proof -
  have "int (fp_mag a) < int (fp_mag b)" using assms(2) by simp
  then have lt: "fbexp p a * 2 ^ p + int (unat (fmant p a)) < fbexp p b * 2 ^ p + int (unat (fmant p b))"
    by (simp only: fp_mag_fields [OF assms(1)])
  have bm: "int (unat (fmant p b)) < 2 ^ p" using unat_fmant_less [of p b] by (metis of_nat_less_numeral_power_cancel_iff)
  have "fbexp p a * 2 ^ p < (fbexp p b + 1) * 2 ^ p" unfolding distrib_right using lt bm by linarith
  then have "fbexp p a < fbexp p b + 1" by simp
  then consider "fbexp p a < fbexp p b" | "fbexp p a = fbexp p b" by linarith
  then show ?thesis
  proof cases
    case 1
    then have nz: "fbexp p b \<noteq> 0" using fbexp_nonneg [of p a] by linarith
    have "\<bar>fp_val p emin a\<bar> < 2 powi (fbexp p a + emin)" by (rule fp_val_abs_bounds)
    also have "\<dots> \<le> 2 powi (fbexp p b + emin - 1)" using 1 by simp
    also have "\<dots> \<le> \<bar>fp_val p emin b\<bar>" by (rule fp_val_abs_bounds(2) [OF nz])
    finally show ?thesis .
  next
    case 2
    then have "unat (fmant p a) < unat (fmant p b)" using lt by simp
    then show ?thesis using 2 by (simp add: fp_val_abs)
  qed
qed

lemma fp_mag_eq:
  fixes a b :: "'a::len word"
  assumes "p < LENGTH('a)" and "fp_mag a = fp_mag b"
  shows "\<bar>fp_val p emin a\<bar> = \<bar>fp_val p emin b\<bar>"
proof -
  have "fbexp p w = int (fp_mag w) div 2 ^ p" "int (unat (fmant p w)) = int (fp_mag w) mod 2 ^ p" for w :: "'a word"
  proof -
    have "int (unat (fmant p w)) < 2 ^ p" using unat_fmant_less [of p w] by (metis of_nat_less_numeral_power_cancel_iff)
    then show "fbexp p w = int (fp_mag w) div 2 ^ p" "int (unat (fmant p w)) = int (fp_mag w) mod 2 ^ p"
      unfolding fp_mag_fields [OF assms(1)] by simp_all
  qed
  then have "fbexp p a = fbexp p b" "unat (fmant p a) = unat (fmant p b)" using assms(2) by (metis, metis of_nat_eq_iff)
  then show ?thesis by (simp add: fp_val_abs)
qed

lemma fsign_iff: "fsign (w :: 'a::len word) \<longleftrightarrow> sint w < 0"
  by (simp add: fsign_def bit_last_iff)

lemma unat_fp_mag: "unat (w :: 'a::len word) = (if fsign w then 2 ^ (LENGTH('a) - 1) else 0) + fp_mag w"
proof -
  have l: "(2::nat) ^ LENGTH('a) = 2 * 2 ^ (LENGTH('a) - 1)" by (simp flip: power_Suc)
  have "unat w < 2 ^ LENGTH('a)" by (rule unsigned_less)
  then have lt: "unat w < 2 * 2 ^ (LENGTH('a) - 1)" unfolding l .
  show ?thesis
  proof (cases "fsign w")
    case True
    then have "2 ^ (LENGTH('a) - 1) \<le> unat w" by (simp only: fsign_def bit_top_iff)
    then show ?thesis using True lt unfolding fp_mag_def by (simp add: mod_if [of "unat w"])
  next
    case False
    then show ?thesis unfolding fp_mag_def fsign_def bit_top_iff by simp
  qed
qed

lemma fp_mag_lt: "fp_mag (w :: 'a::len word) < 2 ^ (LENGTH('a) - 1)"
  by (simp add: fp_mag_def)

lemma sint_cmp_key: "sint (cmp_key (w :: 'a::len word)) = (if fsign w then - int (fp_mag w) else int (fp_mag w))"
proof (cases "fsign w")
  case False
  then show ?thesis using sint_unat [of w] unat_fp_mag [of w] by (simp add: cmp_key_def fsign_iff)
next
  case True
  define S where "S = (2::nat) ^ (LENGTH('a) - 1)"
  have l: "(2::nat) ^ LENGTH('a) = 2 * S" by (simp add: S_def flip: power_Suc)
  have key: "cmp_key w = (- w) XOR push_bit (LENGTH('a) - 1) 1" using True by (simp add: cmp_key_def fsign_iff)
  have uw: "unat w = S + fp_mag w" using unat_fp_mag [of w] True by (simp add: S_def)
  have S: "0 < S" "fp_mag w < S" using fp_mag_lt [of w] by (simp_all add: S_def)
  have um: "unat (- w) = S - fp_mag w" using unat_minus_pos [of w] uw S l by simp
  show ?thesis
  proof (cases "fp_mag w = 0")
    case zero: True
    have "unat (push_bit (LENGTH('a) - 1) 1 :: 'a word) = S" unfolding S_def by (subst unat_push_bit) simp_all
    then have "- w = push_bit (LENGTH('a) - 1) 1" using um zero by (simp only: word_unat_eq_iff)
    then show ?thesis using key zero by simp
  next
    case False
    then have lt: "unat (- w) < 2 ^ (LENGTH('a) - 1)" using um S unfolding S_def by simp
    then have "\<not> bit (- w) (LENGTH('a) - 1)" by (simp only: bit_top_iff)
    then have "cmp_key w = (- w) OR push_bit (LENGTH('a) - 1) 1" unfolding key
      by (intro bit_word_eqI) (auto simp: bit_simps)
    then have "unat (cmp_key w) = S + (S - fp_mag w)" using unat_or_hidden [OF lt] um by (simp add: S_def)
    then have u: "unat (cmp_key w) = 2 * S - fp_mag w" using S by simp
    have "sint (cmp_key w) < 0" unfolding sint_neg_iff u S_def [symmetric] using S by simp
    then have "sint (cmp_key w) = int (2 * S - fp_mag w) - int (2 * S)"
      using sint_unat [of "cmp_key w"] u l by (metis of_nat_numeral of_nat_power)
    then show ?thesis using S True by simp
  qed
qed

lemma signed_order:
  fixes m n :: nat and V W :: real
  assumes "m < n \<Longrightarrow> V < W" and "n < m \<Longrightarrow> W < V" and "m = n \<Longrightarrow> V = W"
    and "0 < m \<Longrightarrow> 0 < V" and "m = 0 \<Longrightarrow> V = 0" and "0 < n \<Longrightarrow> 0 < W" and "n = 0 \<Longrightarrow> W = 0"
  shows "(if s then - int m else int m) < (if t then - int n else int n) \<longleftrightarrow> (if s then - V else V) < (if t then - W else W)"
    and "(if s then - int m else int m) = (if t then - int n else int n) \<longleftrightarrow> (if s then - V else V) = (if t then - W else W)"
proof -
  have mn: "m < n \<longleftrightarrow> V < W" "n < m \<longleftrightarrow> W < V" "m = n \<longleftrightarrow> V = W" using assms(1-3) by (cases m n rule: linorder_cases; simp)+
  have m: "m = 0 \<longleftrightarrow> V = 0" "0 \<le> V" using assms(4,5) by (cases "m = 0"; simp)+
  have n: "n = 0 \<longleftrightarrow> W = 0" "0 \<le> W" using assms(6,7) by (cases "n = 0"; simp)+
  have tf: "int m < - int n \<longleftrightarrow> V < - W" "int m = - int n \<longleftrightarrow> V = - W" "- int m < int n \<longleftrightarrow> - V < W" "- int m = int n \<longleftrightarrow> - V = W"
    using m n by auto
  show "(if s then - int m else int m) < (if t then - int n else int n) \<longleftrightarrow> (if s then - V else V) < (if t then - W else W)"
    using mn tf by (cases s; cases t) simp_all
  show "(if s then - int m else int m) = (if t then - int n else int n) \<longleftrightarrow> (if s then - V else V) = (if t then - W else W)"
    using mn tf by (cases s; cases t) simp_all
qed

lemma cmp_key_order:
  fixes a b :: "'a::len word"
  assumes p: "p < LENGTH('a)"
  shows "sint (cmp_key a) < sint (cmp_key b) \<longleftrightarrow> fp_val p emin a < fp_val p emin b"
    and "cmp_key a = cmp_key b \<longleftrightarrow> fp_val p emin a = fp_val p emin b"
proof -
  let ?V = "\<lambda>w. \<bar>fp_val p emin w\<bar>"
  have v: "fp_val p emin w = (if fsign w then - ?V w else ?V w)" for w by (simp add: fp_val_def)
  have "fp_mag (0 :: 'a word) = 0" "?V (0 :: 'a word) = 0" by (simp_all add: fp_mag_def fp_val_def fbexp_def fmant_def)
  then have z: "0 < fp_mag w \<Longrightarrow> 0 < ?V w" "fp_mag w = 0 \<Longrightarrow> ?V w = 0" for w :: "'a word"
    using fp_mag_less [OF p, of 0 w emin] fp_mag_eq [OF p, of w 0 emin] by simp_all
  note so = signed_order [OF fp_mag_less [OF p, of a b emin] fp_mag_less [OF p, of b a emin] fp_mag_eq [OF p, of a b emin]
    z [of a] z [of b], where s = "fsign a" and t = "fsign b"]
  show "sint (cmp_key a) < sint (cmp_key b) \<longleftrightarrow> fp_val p emin a < fp_val p emin b"
    using so(1) unfolding sint_cmp_key v [symmetric] .
  have "sint (cmp_key a) = sint (cmp_key b) \<longleftrightarrow> fp_val p emin a = fp_val p emin b"
    using so(2) unfolding sint_cmp_key v [symmetric] .
  then show "cmp_key a = cmp_key b \<longleftrightarrow> fp_val p emin a = fp_val p emin b"
    using signed_word_eqI [of "cmp_key a" "cmp_key b"] by auto
qed

section \<open>Results built from an integer significand\<close>

lemma rmag_range:
  assumes "2 ^ p \<le> y" and "y < 2 ^ (p + 1)" and k: "int k = rmag rm s y"
  shows "2 ^ p \<le> k" and "k \<le> 2 ^ (p + 1)"
proof -
  have "\<lfloor>y\<rfloor> \<le> int k" "int k \<le> \<lceil>y\<rceil>" unfolding k by (rule rmag_bounds)+
  moreover have "2 ^ p \<le> \<lfloor>y\<rfloor>" "\<lceil>y\<rceil> \<le> 2 ^ (p + 1)" using assms by (simp_all add: le_floor_iff ceiling_le_iff less_imp_le)
  moreover have "int (2 ^ p) = 2 ^ p" "int (2 ^ (p + 1)) = 2 ^ (p + 1)" by simp_all
  ultimately have "int (2 ^ p) \<le> int k" "int k \<le> int (2 ^ (p + 1))" by linarith+
  then show "2 ^ p \<le> k" "k \<le> 2 ^ (p + 1)" by (simp_all only: of_nat_le_iff)
qed

context fp_word
begin

text \<open>
  A word whose fields were added up as one integer: a significand \<open>k\<close> that rounding carried to
  \<open>2 ^ (p + 1)\<close> moves the exponent up by one.
\<close>

lemma packed_val:
  fixes r :: "'a word"
  assumes "int (unat r) = (e + ebias) * 2 ^ p + int k - 2 ^ p" and "2 ^ p \<le> k" and "k \<le> 2 ^ (p + 1)"
    and "emin \<le> e" and "e < emax"
  shows "fp_fin p r" and "\<not> fsign r" and "fp_val p emin r = real k * 2 powi (e - int p)"
proof -
  define k' where "k' = (if k = 2 ^ (p + 1) then 2 ^ p else k)"
  define e' where "e' = (if k = 2 ^ (p + 1) then e + 1 else e)"
  define m where "m = (of_nat (k' - 2 ^ p) :: 'a word)"
  have k': "2 ^ p \<le> k'" "k' < 2 ^ (p + 1)" using assms(2,3) unfolding k'_def by (auto simp: le_neq_implies_less)
  have pl: "(2::nat) ^ (p + 1) \<le> 2 ^ LENGTH('a)" using len by (intro power_increasing) simp_all
  have "unat m = (k' - 2 ^ p) mod 2 ^ LENGTH('a)" unfolding m_def by (simp add: unat_of_nat)
  also have "\<dots> = k' - 2 ^ p" using k' pl by (intro mod_less) linarith
  finally have um: "unat m = k' - 2 ^ p" .
  then have m: "unat m < 2 ^ p" using k' by simp
  have e': "emin \<le> e'" "e' \<le> emax" using assms(4,5) by (simp_all add: e'_def)
  define b where "b = fbuild p False (e' + ebias) m"
  note bn = build_norm [OF m e', of False, folded b_def]
  have ub: "int (unat b) = (e' + ebias) * 2 ^ p + int (k' - 2 ^ p)"
  proof -
    have "unat b = fp_mag b" using unat_fp_mag [of b] bn(2) by simp
    moreover have "fbexp p b = e' + ebias" "fmant p b = m" unfolding b_def
      using fbexp_build [of e' False m] e' m by (simp_all add: fmant_fbuild len)
    ultimately show ?thesis using fp_mag_fields [OF len(1), of b] um by simp
  qed
  have "(e' + ebias) * 2 ^ p + int (k' - 2 ^ p) = (e + ebias) * 2 ^ p + int k - 2 ^ p"
    using assms(2) k'(1) by (auto simp: e'_def k'_def of_nat_diff algebra_simps)
  then have "r = b" using assms(1) ub by (simp only: word_unat_eq_iff)
  moreover have "real k' * 2 powi (e' - int p) = real k * 2 powi (e - int p)"
    using powi_add2 [of "e - int p" 1] by (auto simp: k'_def e'_def algebra_simps)
  moreover have "2 ^ p + real (unat m) = real k'" using k' um by (simp add: of_nat_diff)
  ultimately show "fp_fin p r" "\<not> fsign r" "fp_val p emin r = real k * 2 powi (e - int p)" using bn by simp_all
qed

lemma normal_correct:
  fixes r :: "'a word"
  assumes y: "2 ^ p \<le> y" "y < 2 ^ (p + 1)" and e: "emin \<le> e" "e < emax"
    and k: "int k = rmag rm False y" and r: "int (unat r) = (e + ebias) * 2 ^ p + int k - 2 ^ p"
  shows "fp_correct p emin emax rm (y * 2 powi (e - int p)) r"
    and "ieee_flags p emin emax trap rm (y * 2 powi (e - int p)) = (if real k = y then 0 else IEEE754_INEXACT)"
proof -
  let ?v = "y * 2 powi (e - int p)"
  have "(8::real) = 2 powi 3" by simp
  then have v: "?v = sgn_of False * (8 * y * 2 powi (e - int p - 3))" by (simp only: powi_diff2) simp
  have y8: "2 ^ (p + 3) \<le> 8 * y" "8 * y < 2 ^ (p + 4)" using y by (simp_all add: power_add)
  have k8: "rmag rm False (8 * y / 8) = int k" by (simp add: k)
  have fr: "fround p emin rm ?v = real k * 2 powi (e - int p)" "uround p rm ?v = real k * 2 powi (e - int p)"
    unfolding v scaled_fround [OF y8 e(1)] scaled_uround [OF y8] k8 by simp_all
  note kb = rmag_range [OF y k]
  note pv = packed_val [OF r kb e]
  have "real (2 ^ p) \<le> real k" "real k \<le> real (2 ^ (p + 1))" using kb by (simp_all only: of_nat_le_iff)
  then have b: "2 ^ p * 2 powi (e - int p) \<le> real k * 2 powi (e - int p)" "real k * 2 powi (e - int p) \<le> 2 ^ (p + 1) * 2 powi (e - int p)"
    by simp_all
  have h: "(2::real) powi (e + 1) < 2 powi (emax + 1)" "(2::real) powi emin \<le> 2 powi e" using e by simp_all
  have "real k * 2 powi (e - int p) < 2 powi (emax + 1)" using b(2) h(1) unfolding powi_shift2_Suc by (rule le_less_trans)
  then have ov: "\<not> overflows p emin emax rm ?v" by (simp add: overflows_def fr)
  have "2 powi emin \<le> real k * 2 powi (e - int p)" using h(2) b(1) unfolding powi_shift2 by (rule order_trans)
  then have ti: "\<not> tiny p emin rm ?v" by (simp add: tiny_def fr)
  have "0 < y" using y(1) less_le_trans [of 0 "2 ^ p" y] by simp
  then have "\<not> ?v < 0" by (simp add: not_less)
  then show "fp_correct p emin emax rm ?v r" using ov pv fr by (simp add: fp_correct_def fp_rounds_def)
  show "ieee_flags p emin emax trap rm ?v = (if real k = y then 0 else IEEE754_INEXACT)"
    using ov ti by (simp add: ieee_flags_def fr)
qed

end

end
