(* ===== verification/Fp_Exact.thy ===== *)
theory Fp_Exact
  imports Fp_Conv
begin

text \<open>
  Results that need no rounding, for words of any format: a word packed from a normalised
  significand, the integral and the fractional part of a number, and the scaling of a number by a
  power of two.
\<close>

context fp_word
begin

lemma build_sig:
  fixes w :: "'a word"
  assumes "2 ^ p \<le> unat w" and "unat w < 2 ^ (p + 1)" and "emin \<le> e" and "e \<le> emax"
  shows "fp_fin p (fbuild p s (e + ebias) (w AND NOT (push_bit p 1)))"
    and "fsign (fbuild p s (e + ebias) (w AND NOT (push_bit p 1))) = s"
    and "fp_val p emin (fbuild p s (e + ebias) (w AND NOT (push_bit p 1))) = sgn_of s * (unat w * 2 powi (e - int p))"
proof -
  have u: "unat (w AND NOT (push_bit p 1)) = unat w - 2 ^ p" by (rule unat_clear_hidden [OF assms(1,2) len(1)])
  then have lt: "unat (w AND NOT (push_bit p 1)) < 2 ^ p" using assms(1,2) by simp
  have r: "real (unat w) = 2 ^ p + real (unat w - 2 ^ p)" using assms(1) by (simp add: of_nat_diff)
  from build_norm [OF lt assms(3,4)] show "fp_fin p (fbuild p s (e + ebias) (w AND NOT (push_bit p 1)))"
    "fsign (fbuild p s (e + ebias) (w AND NOT (push_bit p 1))) = s"
    "fp_val p emin (fbuild p s (e + ebias) (w AND NOT (push_bit p 1))) = sgn_of s * (unat w * 2 powi (e - int p))"
    unfolding r u by simp_all
qed

text \<open>The bits of the significand above and below the binary point, \<open>k\<close> bits from the right.\<close>

lemma modf_integral:
  fixes m :: "'a word"
  assumes m: "2 ^ p \<le> unat m" "unat m < 2 ^ (p + 1)" and e: "0 \<le> e" "e < int p" "emin \<le> 0" "e \<le> emax"
    and k: "k = p - nat e"
  shows "fp_fin p (fbuild p s (e + ebias) (push_bit k (drop_bit k m) AND NOT (push_bit p 1)))"
    and "fp_val p emin (fbuild p s (e + ebias) (push_bit k (drop_bit k m) AND NOT (push_bit p 1))) =
      sgn_of s * of_int \<lfloor>unat m * 2 powi (e - int p)\<rfloor>"
    and "fsign (fbuild p s (e + ebias) (push_bit k (drop_bit k m) AND NOT (push_bit p 1))) = s"
proof -
  let ?w = "push_bit k (drop_bit k m)"
  have kp: "k \<le> p" "int k = int p - e" using k e by (simp_all add: of_nat_diff)
  have le: "unat m div 2 ^ k * 2 ^ k \<le> unat m" by (rule div_times_less_eq_dividend)
  have "(2::nat) ^ (p + 1) \<le> 2 ^ LENGTH('a)" using len by (intro power_increasing) simp_all
  then have "unat (drop_bit k m) * 2 ^ k < 2 ^ LENGTH('a)" unfolding unat_drop_bit using le m(2) by linarith
  then have u: "unat ?w = unat m div 2 ^ k * 2 ^ k" unfolding unat_drop_bit [symmetric] by (rule unat_push_bit)
  have "(2::nat) ^ p div 2 ^ k * 2 ^ k = 2 ^ p" using kp(1) by (simp add: le_imp_power_dvd)
  moreover have "(2::nat) ^ p div 2 ^ k * 2 ^ k \<le> unat m div 2 ^ k * 2 ^ k" using m(1) by (intro mult_right_mono div_le_mono) simp_all
  ultimately have w: "2 ^ p \<le> unat ?w" "unat ?w < 2 ^ (p + 1)" using le m(2) unfolding u by linarith+
  have "e - int p = - int k" using kp(2) by simp
  then have pw: "(2::real) powi (e - int p) = 1 / 2 ^ k" by (simp add: power_int_minus power_int_of_nat divide_inverse)
  have "real (unat ?w) * 2 powi (e - int p) = of_int \<lfloor>unat m * 2 powi (e - int p)\<rfloor>"
    using floor_div_pow2 [of "unat m" k] unfolding pw u by simp
  then show "fp_fin p (fbuild p s (e + ebias) (?w AND NOT (push_bit p 1)))"
    "fp_val p emin (fbuild p s (e + ebias) (?w AND NOT (push_bit p 1))) = sgn_of s * of_int \<lfloor>unat m * 2 powi (e - int p)\<rfloor>"
    "fsign (fbuild p s (e + ebias) (?w AND NOT (push_bit p 1))) = s"
    using build_sig [OF w, of e s] e by simp_all
qed

lemma modf_low:
  fixes m :: "'a word"
  assumes "0 \<le> e" and "e < int p" and k: "k = p - nat e" and f: "f = drop_bit (LENGTH('a) - k) (push_bit (LENGTH('a) - k) m)"
  shows "unat f * 2 powi (e - int p) = unat m * 2 powi (e - int p) - of_int \<lfloor>unat m * 2 powi (e - int p)\<rfloor>"
    and "unat f \<le> unat m"
proof -
  have kp: "k \<le> p" "int k = int p - e" using k assms(1,2) by (simp_all add: of_nat_diff)
  have "f = take_bit k m" unfolding f using kp(1) len by (intro bit_word_eqI) (auto simp: bit_simps)
  then have u: "unat f = unat m mod 2 ^ k" by (simp only: unat_take_bit)
  have "e - int p = - int k" using kp(2) by simp
  then have pw: "(2::real) powi (e - int p) = 1 / 2 ^ k" by (simp add: power_int_minus power_int_of_nat divide_inverse)
  show "unat f * 2 powi (e - int p) = unat m * 2 powi (e - int p) - of_int \<lfloor>unat m * 2 powi (e - int p)\<rfloor>"
    using frac_div_pow2 [of "unat m" k] floor_div_pow2 [of "unat m" k] unfolding u pw by simp
  show "unat f \<le> unat m" unfolding u by simp
qed

lemma modf_fraction:
  fixes m :: "'a word"
  assumes m: "unat m < 2 ^ (p + 1)" and e: "0 \<le> e" "e < int p" "e \<le> emax" "emin \<le> - int p" and k: "k = p - nat e"
    and f: "f = drop_bit (LENGTH('a) - k) (push_bit (LENGTH('a) - k) m)" and nz: "f \<noteq> 0"
  obtains w e' where "norm_up p (f, e) = (w, e')"
    and "fp_fin p (fbuild p s (e' + ebias) (w AND NOT (push_bit p 1)))"
    and "fp_val p emin (fbuild p s (e' + ebias) (w AND NOT (push_bit p 1))) =
      sgn_of s * (unat m * 2 powi (e - int p) - of_int \<lfloor>unat m * 2 powi (e - int p)\<rfloor>)"
    and "fsign (fbuild p s (e' + ebias) (w AND NOT (push_bit p 1))) = s"
proof -
  note low = modf_low [OF e(1,2) k f]
  have fb: "0 < unat f" "unat f < 2 ^ (p + 1)" using m nz low(2) by (simp_all add: unat_gt_0)
  obtain w j where w: "norm_up p (f, e) = (w, e - int j)" "unat w = unat f * 2 ^ j" "2 ^ p \<le> unat w" "unat w < 2 ^ (p + 1)"
    by (rule norm_up [OF fb len(1)])
  have "1 * 2 ^ j \<le> unat f * 2 ^ j" using fb(1) by (intro mult_right_mono) simp_all
  then have "(2::nat) ^ j < 2 ^ (p + 1)" using w(2,4) by linarith
  then have "j < p + 1" by (rule power_less_imp_less_exp [rotated]) simp
  then have ej: "emin \<le> e - int j" "e - int j \<le> emax" using e by simp_all
  have "real (unat w) * 2 powi (e - int j - int p) = unat f * 2 powi (e - int p)"
    unfolding w(2) by (simp add: powi_diff2 power_int_of_nat)
  also have "\<dots> = unat m * 2 powi (e - int p) - of_int \<lfloor>unat m * 2 powi (e - int p)\<rfloor>"
    by (rule low(1))
  finally show thesis using that w(1) build_sig [OF w(3,4) ej, of s] by simp
qed

lemma operand_exponent:
  fixes x :: "'a word"
  assumes ex: "fp_explode p emin emax ebias x = (k, s, e, m)" and k: "k = CLASS_NORM \<or> k = CLASS_DNORM"
    and nrm: "(if k = CLASS_DNORM then norm_up p (m, e) else (m, e)) = (m', e')"
  shows "emin - int p \<le> e'" and "e' \<le> emax"
proof -
  note ez = explode_nonzero [OF ex k]
  obtain w j where w: "norm_up p (m, e) = (w, e - int j)" "unat w = unat m * 2 ^ j" "unat w < 2 ^ (p + 1)"
    using norm_up [OF ez(3,4) len(1), of e] by blast
  have "1 * 2 ^ j \<le> unat m * 2 ^ j" using ez(3) by (intro mult_right_mono) simp_all
  then have "(2::nat) ^ j < 2 ^ (p + 1)" using w(2,3) by linarith
  then have "j < p + 1" by (rule power_less_imp_less_exp [rotated]) simp
  then show "emin - int p \<le> e'" "e' \<le> emax" using nrm w(1) ez(5,6) by (auto split: if_splits)
qed

text \<open>Scaling by \<open>2 powi n\<close>: the normalised operand with three guard bits, formatted.\<close>

lemma scalb_correct:
  fixes x :: "'a word"
  assumes nod: "csr_nod c = 0" and ex: "fp_explode p emin emax ebias x = (k, s, e, m)" and k: "k = CLASS_NORM \<or> k = CLASS_DNORM"
    and nrm: "(if k = CLASS_DNORM then norm_up p (m, e) else (m, e)) = (m', e')"
  shows "\<exists>r. fp_fmt p emin emax c s (e' + n) (push_bit 3 m') =
      (SETCX (ieee_flags p emin emax (uf_enabled c) (rmode_of c) (fp_val p emin x * 2 powi n)) c, r) \<and>
    fp_correct p emin emax (rmode_of c) (fp_val p emin x * 2 powi n) r"
proof -
  obtain m1 e1 where "(if k = CLASS_DNORM then norm_up p (m, e) else (m, e)) = (m1, e1)"
    "2 ^ p \<le> unat m1" "unat m1 < 2 ^ (p + 1)" "fp_val p emin x = sgn_of s * (unat m1 * 2 powi (e1 - int p))"
    by (rule operand [OF ex k])
  then have m': "2 ^ p \<le> unat m'" "unat m' < 2 ^ (p + 1)" "fp_val p emin x = sgn_of s * (unat m' * 2 powi (e' - int p))"
    using nrm by simp_all
  have "(2::nat) ^ (p + 4) \<le> 2 ^ LENGTH('a)" using width by (intro power_increasing) simp_all
  then have "unat m' * 2 ^ 3 < 2 ^ LENGTH('a)" using m'(2) by (simp add: power_add)
  then have u: "unat (push_bit 3 m') = 8 * unat m'" by (subst unat_push_bit) simp_all
  have "(2::real) powi (e' + n - int p - 3) = 2 powi (e' - int p) * 2 powi n / 8"
    by (simp add: powi_diff2 powi_add2)
  then have "fp_val p emin x * 2 powi n = sgn_of s * (real (unat (push_bit 3 m')) * 2 powi (e' + n - int p - 3))"
    unfolding m'(3) u by simp
  then show ?thesis by (intro fmt_correct [OF nod, where m = "real (unat (push_bit 3 m'))"]) (use m' u in \<open>simp_all add: power_add\<close>)
qed

text \<open>Integers of at most \<open>p + 1\<close> bits are represented exactly.\<close>

lemma int_rounding:
  fixes N :: int
  assumes "N \<noteq> 0" and "\<bar>N\<bar> < 2 ^ (p + 1)" and "emin \<le> 0" and "int p < emax"
  shows "fround p emin rm (of_int N) = of_int N" and "uround p rm (of_int N) = of_int N"
    and "\<not> overflows p emin emax rm (of_int N)" and "\<not> tiny p emin rm (of_int N)"
proof -
  let ?l = "\<lfloor>log 2 \<bar>real_of_int N\<bar>\<rfloor>"
  have n1: "1 \<le> \<bar>real_of_int N\<bar>" using assms(1) by linarith
  have "real_of_int \<bar>N\<bar> < real_of_int (2 ^ (p + 1))" using assms(2) by (simp only: of_int_less_iff)
  then have lt: "\<bar>real_of_int N\<bar> < 2 ^ (p + 1)" by simp
  then have "\<bar>real_of_int N\<bar> < 2 powr (real (p + 1))" by (simp only: powr_realpow)
  then have "log 2 \<bar>real_of_int N\<bar> < real (p + 1)" using n1 by (subst log_less_iff) simp_all
  then have l: "?l \<le> int p" by linarith
  have r: "round_at rm e (of_int N) = of_int N" if "e \<le> 0" for e
  proof -
    have "e = - int (nat (- e))" using that by simp
    then have "(2::real) powi e = inverse (2 ^ nat (- e))" by (metis power_int_minus power_int_of_nat)
    then have "real_of_int N / 2 powi e = of_int (N * 2 ^ nat (- e))" by (simp add: divide_inverse)
    then have "rint rm (real_of_int N / 2 powi e) = N * 2 ^ nat (- e)" by (simp only: rint_of_int)
    then show ?thesis using \<open>(2::real) powi e = _\<close> by (simp add: round_at_def)
  qed
  show f: "fround p emin rm (of_int N) = of_int N" unfolding fround_def fexp_def by (rule r) (use l assms(3) in simp)
  show u: "uround p rm (of_int N) = of_int N" unfolding uround_def by (rule r) (use l in simp)
  have "(2::real) ^ (p + 1) = 2 powi (int p + 1)" by (metis of_nat_1 of_nat_add power_int_of_nat)
  moreover have "(2::real) powi (int p + 1) \<le> 2 powi (emax + 1)" using assms(4) by (simp only: powi_le2)
  ultimately show "\<not> overflows p emin emax rm (of_int N)" using lt unfolding overflows_def f by linarith
  have "(2::real) powi emin \<le> 2 powi 0" using assms(3) by (simp only: powi_le2)
  then show "\<not> tiny p emin rm (of_int N)" using n1 unfolding tiny_def u by simp
qed

lemma correct_int:
  fixes r :: "'a word"
  assumes "fp_correct p emin emax rm (of_int N) r" and "N \<noteq> 0" and "\<bar>N\<bar> < 2 ^ (p + 1)" and "emin \<le> 0" and "int p < emax"
  shows "fp_fin p r" and "fp_val p emin r = of_int N" and "ieee_flags p emin emax trap rm (of_int N) = 0"
  using assms(1) int_rounding [OF assms(2-5), of rm]
  by (simp_all add: fp_correct_def fp_rounds_def ieee_flags_def)

end

end
