(* ===== verification/Ieee754sp.thy ===== *)
theory Ieee754sp
  imports Fp_Exact
begin

text \<open>
  Single precision: the packed word and its fields, the special constants, the unpacking and
  flushing macros, NaN handling and \<^verbatim>\<open>ieee754sp_format\<close>
  (\<^verbatim>\<open>ieee754int.h\<close>, \<^verbatim>\<open>ieee754sp.h\<close>, \<^verbatim>\<open>ieee754sp.c\<close>, \<^verbatim>\<open>ieee754.c\<close>). An \<^verbatim>\<open>ieee754sp\<close> is its 32 bit
  word. The end of the theory interprets \<open>fp_word\<close> on these definitions.
\<close>

section \<open>Words and constants\<close>

type_synonym ieee754sp = u32

definition SP_MBIT :: "nat \<Rightarrow> u32" where
  "SP_MBIT x = push_bit x 1"

abbreviation SP_HIDDEN_BIT :: u32 where "SP_HIDDEN_BIT \<equiv> SP_MBIT SP_MBITS"
abbreviation SP_SIGN_BIT :: u32 where "SP_SIGN_BIT \<equiv> SP_MBIT 31"

definition SPSIGN :: "ieee754sp \<Rightarrow> bool" where
  "SPSIGN sp = bit sp 31"

definition SPBEXP :: "ieee754sp \<Rightarrow> int" where
  "SPBEXP sp = uint (take_bit 8 (drop_bit 23 sp))"

definition SPMANT :: "ieee754sp \<Rightarrow> u32" where
  "SPMANT sp = take_bit 23 sp"

definition buildsp :: "bool \<Rightarrow> int \<Rightarrow> u32 \<Rightarrow> ieee754sp" where
  "buildsp s bx m = push_bit 31 (of_bool s) OR push_bit 23 (take_bit 8 (word_of_int bx)) OR take_bit 23 m"

definition ieee754sp_spcvals :: "ieee754sp list" where
  "ieee754sp_spcvals =
    [buildsp False (SP_EMIN - 1 + SP_EBIAS) 0, buildsp True (SP_EMIN - 1 + SP_EBIAS) 0,
     buildsp False SP_EBIAS 0, buildsp True SP_EBIAS 0,
     buildsp False (3 + SP_EBIAS) 0x200000, buildsp True (3 + SP_EBIAS) 0x200000,
     buildsp False (SP_EMAX + 1 + SP_EBIAS) 0, buildsp True (SP_EMAX + 1 + SP_EBIAS) 0,
     buildsp False (SP_EMAX + 1 + SP_EBIAS) 0x3FFFFF,
     buildsp False (SP_EMAX + SP_EBIAS) 0x7FFFFF, buildsp True (SP_EMAX + SP_EBIAS) 0x7FFFFF,
     buildsp False (SP_EMIN + SP_EBIAS) 0, buildsp True (SP_EMIN + SP_EBIAS) 0,
     buildsp False (SP_EMIN - 1 + SP_EBIAS) 1, buildsp True (SP_EMIN - 1 + SP_EBIAS) 1,
     buildsp False (31 + SP_EBIAS) 0, buildsp False (63 + SP_EBIAS) 0]"

definition ieee754sp_zero :: "bool \<Rightarrow> ieee754sp" where
  "ieee754sp_zero sn = ieee754sp_spcvals ! (0 + of_bool sn)"

definition ieee754sp_one :: "bool \<Rightarrow> ieee754sp" where
  "ieee754sp_one sn = ieee754sp_spcvals ! (2 + of_bool sn)"

definition ieee754sp_ten :: "bool \<Rightarrow> ieee754sp" where
  "ieee754sp_ten sn = ieee754sp_spcvals ! (4 + of_bool sn)"

definition ieee754sp_inf :: "bool \<Rightarrow> ieee754sp" where
  "ieee754sp_inf sn = ieee754sp_spcvals ! (6 + of_bool sn)"

definition ieee754sp_indef :: ieee754sp where
  "ieee754sp_indef = ieee754sp_spcvals ! 8"

definition ieee754sp_max :: "bool \<Rightarrow> ieee754sp" where
  "ieee754sp_max sn = ieee754sp_spcvals ! (9 + of_bool sn)"

definition ieee754sp_min :: "bool \<Rightarrow> ieee754sp" where
  "ieee754sp_min sn = ieee754sp_spcvals ! (11 + of_bool sn)"

definition ieee754sp_mind :: "bool \<Rightarrow> ieee754sp" where
  "ieee754sp_mind sn = ieee754sp_spcvals ! (13 + of_bool sn)"

definition ieee754sp_1e31 :: ieee754sp where
  "ieee754sp_1e31 = ieee754sp_spcvals ! 15"

definition ieee754sp_1e63 :: ieee754sp where
  "ieee754sp_1e63 = ieee754sp_spcvals ! 16"

section \<open>Unpacking and flushing\<close>

definition EXPLODESP :: "ieee754sp \<Rightarrow> ieee754_class \<times> bool \<times> int \<times> u32" where
  "EXPLODESP v =
     (let vs = SPSIGN v; ve = SPBEXP v; vm = SPMANT v
      in if ve = SP_EMAX + 1 + SP_EBIAS then
           if vm = 0 then (CLASS_INF, vs, ve, vm)
           else if vm AND SP_MBIT (SP_MBITS - 1) \<noteq> 0 then (CLASS_SNAN, vs, ve, vm)
           else (CLASS_QNAN, vs, ve, vm)
         else if ve = SP_EMIN - 1 + SP_EBIAS then
           if vm \<noteq> 0 then (CLASS_DNORM, vs, SP_EMIN, vm) else (CLASS_ZERO, vs, ve, vm)
         else (CLASS_NORM, vs, ve - SP_EBIAS, vm OR SP_HIDDEN_BIT))"

definition FLUSHSP ::
  "ieee754_csr \<Rightarrow> ieee754sp \<Rightarrow> ieee754_class \<Rightarrow> bool \<Rightarrow> int \<Rightarrow> u32 \<Rightarrow>
   ieee754_csr \<times> ieee754sp \<times> ieee754_class \<times> int \<times> u32" where
  "FLUSHSP c v vc vs ve vm =
     (if vc = CLASS_DNORM \<and> csr_nod c \<noteq> 0 then
        (SETCX IEEE754_INEXACT c, ieee754sp_zero vs, CLASS_ZERO, SP_EMIN - 1 + SP_EBIAS, 0)
      else (c, v, vc, ve, vm))"

definition SPDNORMx :: "u32 \<times> int \<Rightarrow> u32 \<times> int" where
  "SPDNORMx = norm_up SP_MBITS"

section \<open>Classes, NaNs and exceptions\<close>

definition ieee754sp_class :: "ieee754sp \<Rightarrow> ieee754_class" where
  "ieee754sp_class x = (let (xc, xs, xe, xm) = EXPLODESP x in xc)"

definition ieee754sp_isnan :: "ieee754sp \<Rightarrow> bool" where
  "ieee754sp_isnan x \<longleftrightarrow> class_num (ieee754sp_class x) \<ge> class_num CLASS_SNAN"

definition ieee754sp_issnan :: "ieee754sp \<Rightarrow> bool" where
  "ieee754sp_issnan x \<longleftrightarrow> SPMANT x AND SP_MBIT (SP_MBITS - 1) \<noteq> 0"

definition ieee754sp_xcpt :: "ieee754_csr \<Rightarrow> ieee754sp \<Rightarrow> ieee754sp" where
  "ieee754sp_xcpt c r = (if \<not> TSTX c then r else ieee754_xcpt r)"

definition ieee754sp_nanxcpt :: "ieee754_csr \<Rightarrow> ieee754sp \<Rightarrow> ieee754_csr \<times> ieee754sp" where
  "ieee754sp_nanxcpt c r =
     (if \<not> ieee754sp_issnan r then (c, r)
      else
        let (c, enabled) = SETANDTESTCX IEEE754_INVALID_OPERATION c
        in if \<not> enabled then
             let r = buildsp (SPSIGN r) (SPBEXP r) (SPMANT r AND NOT (SP_MBIT (SP_MBITS - 1)))
             in if ieee754sp_isnan r then (c, r) else (c, ieee754sp_indef)
           else (c, ieee754_xcpt r))"

definition ieee754sp_bestnan :: "ieee754sp \<Rightarrow> ieee754sp \<Rightarrow> ieee754sp" where
  "ieee754sp_bestnan x y = (if SPMANT x > SPMANT y then x else y)"

section \<open>Rounding and packing\<close>

definition ieee754sp_format :: "ieee754_csr \<Rightarrow> bool \<Rightarrow> int \<Rightarrow> u32 \<Rightarrow> ieee754_csr \<times> ieee754sp" where
  "ieee754sp_format =
     fp_format SP_MBITS SP_EMIN SP_EMAX SP_EBIAS
       ieee754sp_zero ieee754sp_min ieee754sp_inf ieee754sp_max buildsp"

definition SPNORMRET2 :: "ieee754_csr \<Rightarrow> bool \<Rightarrow> int \<Rightarrow> u32 \<Rightarrow> ieee754_csr \<times> ieee754sp" where
  "SPNORMRET2 c s e m =
     (let (c, V) = ieee754sp_format c s e m
      in if TSTX c then (c, ieee754sp_xcpt c V) else (c, V))"

section \<open>Single precision as an instance\<close>

abbreviation sp_val :: "ieee754sp \<Rightarrow> real" where "sp_val \<equiv> fp_val SP_MBITS SP_EMIN"
abbreviation sp_fin :: "ieee754sp \<Rightarrow> bool" where "sp_fin \<equiv> fp_fin SP_MBITS"
abbreviation sp_correct :: "rmode \<Rightarrow> real \<Rightarrow> ieee754sp \<Rightarrow> bool" where
  "sp_correct \<equiv> fp_correct SP_MBITS SP_EMIN SP_EMAX"
abbreviation sp_flags :: "ieee754_csr \<Rightarrow> real \<Rightarrow> 5 word" where
  "sp_flags c \<equiv> ieee_flags SP_MBITS SP_EMIN SP_EMAX (uf_enabled c) (rmode_of c)"

interpretation sp: fp_word SP_MBITS SP_EMIN SP_EMAX SP_EBIAS "TYPE(32)"
  by unfold_locales simp_all

lemma sp_fields: "SPSIGN = fsign" "SPBEXP = fbexp SP_MBITS" "SPMANT = fmant SP_MBITS" "buildsp = fbuild SP_MBITS"
  by (simp_all add: fun_eq_iff SPSIGN_def fsign_def SPBEXP_def fbexp_def SPMANT_def fmant_def buildsp_def fbuild_def)

lemma sp_constants: "ieee754sp_zero = fp_zero SP_MBITS" "ieee754sp_min = fp_min SP_MBITS"
  "ieee754sp_inf = fp_inf SP_MBITS" "ieee754sp_max = fp_max SP_MBITS"
  by (rule ext; rename_tac s; case_tac s; simp add: ieee754sp_zero_def ieee754sp_min_def ieee754sp_inf_def ieee754sp_max_def
    ieee754sp_spcvals_def sp_fields fp_zero_def fp_min_def fp_inf_def fp_max_def mask_eq_exp_minus_1)+

lemma sp_explode: "EXPLODESP = fp_explode SP_MBITS SP_EMIN SP_EMAX SP_EBIAS"
  by (simp add: fun_eq_iff EXPLODESP_def fp_explode_def sp_fields SP_MBIT_def Let_def)

lemma sp_class: "ieee754sp_class x = fp_class SP_MBITS x"
  by (cases "EXPLODESP x") (use sp.explode_class [of x] in \<open>simp add: ieee754sp_class_def sp_explode\<close>)

lemma sp_xcpt [simp]: "ieee754sp_xcpt c r = r"
  by (simp add: ieee754sp_xcpt_def)

lemma sp_format: "ieee754sp_format = fp_fmt SP_MBITS SP_EMIN SP_EMAX"
  by (simp add: ieee754sp_format_def fp_fmt_def sp_fields sp_constants)

lemma sp_normret: "SPNORMRET2 = fp_fmt SP_MBITS SP_EMIN SP_EMAX"
  by (simp add: fun_eq_iff SPNORMRET2_def sp_format split: prod.split)

lemma sp_indef: "ieee754sp_nanxcpt c ieee754sp_indef = (c, ieee754sp_indef)"
  "ieee754sp_class ieee754sp_indef = CLASS_QNAN"
  by (simp_all add: ieee754sp_nanxcpt_def ieee754sp_issnan_def ieee754sp_indef_def ieee754sp_spcvals_def
    buildsp_def SPMANT_def SP_MBIT_def ieee754sp_class_def EXPLODESP_def SPSIGN_def SPBEXP_def)

end
