(* ===== verification/Sp_Arith.thy ===== *)
theory Sp_Arith
  imports Ieee754sp
begin

text \<open>
  Single precision addition, subtraction, multiplication and division
  (\<^verbatim>\<open>sp_add.c\<close>, \<^verbatim>\<open>sp_sub.c\<close>, \<^verbatim>\<open>sp_mul.c\<close>, \<^verbatim>\<open>sp_div.c\<close>). Each definition is the whole function: the
  operands are unpacked and flushed, \<^verbatim>\<open>switch (CLPAIR(xc, yc))\<close> is the case expression over the two
  classes in the order of precedence of its labels, denormal operands are normalised, and the
  arithmetic tail follows. A function takes the csr and returns it updated with the result.
\<close>

section \<open>The code\<close>

definition ieee754sp_add :: "ieee754_csr \<Rightarrow> ieee754sp \<Rightarrow> ieee754sp \<Rightarrow> ieee754_csr \<times> ieee754sp" where
  "ieee754sp_add c x y =
     (let (xc, xs, xe, xm) = EXPLODESP x;
          (yc, ys, ye, ym) = EXPLODESP y;
          c = CLEARCX c;
          (c, x, xc, xe, xm) = FLUSHSP c x xc xs xe xm;
          (c, y, yc, ye, ym) = FLUSHSP c y yc ys ye ym
      in case (xc, yc) of
           (CLASS_SNAN, _) \<Rightarrow> ieee754sp_nanxcpt (SETCX IEEE754_INVALID_OPERATION c) ieee754sp_indef
         | (_, CLASS_SNAN) \<Rightarrow> ieee754sp_nanxcpt (SETCX IEEE754_INVALID_OPERATION c) ieee754sp_indef
         | (CLASS_QNAN, _) \<Rightarrow> (c, x)
         | (_, CLASS_QNAN) \<Rightarrow> (c, y)
         | (CLASS_INF, CLASS_INF) \<Rightarrow>
             if xs = ys then (c, x)
             else let c = SETCX IEEE754_INVALID_OPERATION c in (c, ieee754sp_xcpt c ieee754sp_indef)
         | (_, CLASS_INF) \<Rightarrow> (c, y)
         | (CLASS_INF, _) \<Rightarrow> (c, x)
         | (CLASS_ZERO, CLASS_ZERO) \<Rightarrow>
             if xs = ys then (c, x) else (c, ieee754sp_zero (csr_rm c = IEEE754_RD))
         | (_, CLASS_ZERO) \<Rightarrow> (c, x)
         | (CLASS_ZERO, _) \<Rightarrow> (c, y)
         | _ \<Rightarrow>
             let (xm, xe) = (if xc = CLASS_DNORM then SPDNORMx (xm, xe) else (xm, xe));
                 (ym, ye) = (if yc = CLASS_DNORM then SPDNORMx (ym, ye) else (ym, ye))
             in fp_add_core SP_MBITS SPNORMRET2 ieee754sp_zero c xs xe xm ys ye ym)"

definition ieee754sp_sub :: "ieee754_csr \<Rightarrow> ieee754sp \<Rightarrow> ieee754sp \<Rightarrow> ieee754_csr \<times> ieee754sp" where
  "ieee754sp_sub c x y =
     (let (xc, xs, xe, xm) = EXPLODESP x;
          (yc, ys, ye, ym) = EXPLODESP y;
          c = CLEARCX c;
          (c, x, xc, xe, xm) = FLUSHSP c x xc xs xe xm;
          (c, y, yc, ye, ym) = FLUSHSP c y yc ys ye ym
      in case (xc, yc) of
           (CLASS_SNAN, _) \<Rightarrow> ieee754sp_nanxcpt (SETCX IEEE754_INVALID_OPERATION c) ieee754sp_indef
         | (_, CLASS_SNAN) \<Rightarrow> ieee754sp_nanxcpt (SETCX IEEE754_INVALID_OPERATION c) ieee754sp_indef
         | (CLASS_QNAN, _) \<Rightarrow> (c, x)
         | (_, CLASS_QNAN) \<Rightarrow> (c, y)
         | (CLASS_INF, CLASS_INF) \<Rightarrow>
             if xs \<noteq> ys then (c, x)
             else let c = SETCX IEEE754_INVALID_OPERATION c in (c, ieee754sp_xcpt c ieee754sp_indef)
         | (_, CLASS_INF) \<Rightarrow> (c, ieee754sp_inf (\<not> ys))
         | (CLASS_INF, _) \<Rightarrow> (c, x)
         | (CLASS_ZERO, CLASS_ZERO) \<Rightarrow>
             if xs \<noteq> ys then (c, x) else (c, ieee754sp_zero (csr_rm c = IEEE754_RD))
         | (_, CLASS_ZERO) \<Rightarrow> (c, x)
         | (CLASS_ZERO, _) \<Rightarrow> (c, buildsp (\<not> SPSIGN y) (SPBEXP y) (SPMANT y))
         | _ \<Rightarrow>
             let (xm, xe) = (if xc = CLASS_DNORM then SPDNORMx (xm, xe) else (xm, xe));
                 (ym, ye) = (if yc = CLASS_DNORM then SPDNORMx (ym, ye) else (ym, ye));
                 ys = (\<not> ys)
             in fp_add_core SP_MBITS SPNORMRET2 ieee754sp_zero c xs xe xm ys ye ym)"

definition ieee754sp_mul :: "ieee754_csr \<Rightarrow> ieee754sp \<Rightarrow> ieee754sp \<Rightarrow> ieee754_csr \<times> ieee754sp" where
  "ieee754sp_mul c x y =
     (let (xc, xs, xe, xm) = EXPLODESP x;
          (yc, ys, ye, ym) = EXPLODESP y;
          c = CLEARCX c;
          (c, x, xc, xe, xm) = FLUSHSP c x xc xs xe xm;
          (c, y, yc, ye, ym) = FLUSHSP c y yc ys ye ym
      in case (xc, yc) of
           (CLASS_SNAN, _) \<Rightarrow> ieee754sp_nanxcpt (SETCX IEEE754_INVALID_OPERATION c) ieee754sp_indef
         | (_, CLASS_SNAN) \<Rightarrow> ieee754sp_nanxcpt (SETCX IEEE754_INVALID_OPERATION c) ieee754sp_indef
         | (CLASS_QNAN, _) \<Rightarrow> (c, x)
         | (_, CLASS_QNAN) \<Rightarrow> (c, y)
         | (CLASS_INF, CLASS_ZERO) \<Rightarrow>
             let c = SETCX IEEE754_INVALID_OPERATION c in (c, ieee754sp_xcpt c ieee754sp_indef)
         | (CLASS_ZERO, CLASS_INF) \<Rightarrow>
             let c = SETCX IEEE754_INVALID_OPERATION c in (c, ieee754sp_xcpt c ieee754sp_indef)
         | (_, CLASS_INF) \<Rightarrow> (c, ieee754sp_inf (xs \<noteq> ys))
         | (CLASS_INF, _) \<Rightarrow> (c, ieee754sp_inf (xs \<noteq> ys))
         | (CLASS_ZERO, _) \<Rightarrow> (c, ieee754sp_zero (xs \<noteq> ys))
         | (_, CLASS_ZERO) \<Rightarrow> (c, ieee754sp_zero (xs \<noteq> ys))
         | _ \<Rightarrow>
             let (xm, xe) = (if xc = CLASS_DNORM then SPDNORMx (xm, xe) else (xm, xe));
                 (ym, ye) = (if yc = CLASS_DNORM then SPDNORMx (ym, ye) else (ym, ye))
             in fp_mul_core SP_MBITS SPNORMRET2 c xs xe xm ys ye ym)"

definition ieee754sp_div :: "ieee754_csr \<Rightarrow> ieee754sp \<Rightarrow> ieee754sp \<Rightarrow> ieee754_csr \<times> ieee754sp" where
  "ieee754sp_div c x y =
     (let (xc, xs, xe, xm) = EXPLODESP x;
          (yc, ys, ye, ym) = EXPLODESP y;
          c = CLEARCX c;
          (c, x, xc, xe, xm) = FLUSHSP c x xc xs xe xm;
          (c, y, yc, ye, ym) = FLUSHSP c y yc ys ye ym
      in case (xc, yc) of
           (CLASS_SNAN, _) \<Rightarrow> ieee754sp_nanxcpt (SETCX IEEE754_INVALID_OPERATION c) ieee754sp_indef
         | (_, CLASS_SNAN) \<Rightarrow> ieee754sp_nanxcpt (SETCX IEEE754_INVALID_OPERATION c) ieee754sp_indef
         | (CLASS_QNAN, _) \<Rightarrow> (c, x)
         | (_, CLASS_QNAN) \<Rightarrow> (c, y)
         | (CLASS_INF, CLASS_INF) \<Rightarrow>
             let c = SETCX IEEE754_INVALID_OPERATION c in (c, ieee754sp_xcpt c ieee754sp_indef)
         | (_, CLASS_INF) \<Rightarrow> (c, ieee754sp_zero (xs \<noteq> ys))
         | (CLASS_INF, _) \<Rightarrow> (c, ieee754sp_inf (xs \<noteq> ys))
         | (CLASS_ZERO, CLASS_ZERO) \<Rightarrow>
             let c = SETCX IEEE754_INVALID_OPERATION c in (c, ieee754sp_xcpt c ieee754sp_indef)
         | (_, CLASS_ZERO) \<Rightarrow>
             let c = SETCX IEEE754_ZERO_DIVIDE c in (c, ieee754sp_xcpt c (ieee754sp_inf (xs \<noteq> ys)))
         | (CLASS_ZERO, _) \<Rightarrow> (c, ieee754sp_zero (if xs = ys then False else True))
         | _ \<Rightarrow>
             let (xm, xe) = (if xc = CLASS_DNORM then SPDNORMx (xm, xe) else (xm, xe));
                 (ym, ye) = (if yc = CLASS_DNORM then SPDNORMx (ym, ye) else (ym, ye))
             in fp_div_core SP_MBITS SPNORMRET2 c xs xe xm ys ye ym)"

section \<open>Finite operands\<close>

text \<open>
  On finite operands, with denormals enabled, each function is the shared code between unpacking
  and formatting. Subtraction is addition of the operand with its sign flipped.
\<close>

lemmas sp_instance = sp_normret sp_explode sp_constants sp_fields SPDNORMx_def

lemma sp_fin_explode:
  assumes "sp_fin x"
  obtains k s e m where "fp_explode SP_MBITS SP_EMIN SP_EMAX 127 x = (k, s, e, m)"
    and "k = CLASS_ZERO \<or> k = CLASS_NORM \<or> k = CLASS_DNORM"
proof -
  obtain k s e m where ex: "fp_explode SP_MBITS SP_EMIN SP_EMAX 127 x = (k, s, e, m)" by (metis prod_cases4)
  then show thesis using that sp.explode_class [OF ex] sp.class_fin [of x] assms by auto
qed

lemma sp_add_finite:
  assumes "csr_nod c = 0" and "sp_fin x" and "sp_fin y"
  shows "ieee754sp_add c x y = fp_add_finite SP_MBITS SP_EMIN SP_EMAX (CLEARCX c) x y"
proof -
  obtain kx xs xe xm where x: "fp_explode SP_MBITS SP_EMIN SP_EMAX 127 x = (kx, xs, xe, xm)"
    "kx = CLASS_ZERO \<or> kx = CLASS_NORM \<or> kx = CLASS_DNORM" by (rule sp_fin_explode [OF assms(2)])
  obtain ky ys ye ym where y: "fp_explode SP_MBITS SP_EMIN SP_EMAX 127 y = (ky, ys, ye, ym)"
    "ky = CLASS_ZERO \<or> ky = CLASS_NORM \<or> ky = CLASS_DNORM" by (rule sp_fin_explode [OF assms(3)])
  show ?thesis
    using assms(1) x y by (auto simp: ieee754sp_add_def fp_add_finite_def FLUSHSP_def sp_instance)
qed

lemma sp_sub_finite:
  assumes "csr_nod c = 0" and "sp_fin x" and "sp_fin y"
  shows "ieee754sp_sub c x y = fp_add_finite SP_MBITS SP_EMIN SP_EMAX (CLEARCX c) x (fneg SP_MBITS y)"
proof -
  obtain kx xs xe xm where x: "fp_explode SP_MBITS SP_EMIN SP_EMAX 127 x = (kx, xs, xe, xm)"
    "kx = CLASS_ZERO \<or> kx = CLASS_NORM \<or> kx = CLASS_DNORM" by (rule sp_fin_explode [OF assms(2)])
  obtain ky ys ye ym where y: "fp_explode SP_MBITS SP_EMIN SP_EMAX 127 y = (ky, ys, ye, ym)"
    "ky = CLASS_ZERO \<or> ky = CLASS_NORM \<or> ky = CLASS_DNORM" by (rule sp_fin_explode [OF assms(3)])
  note y' = fneg_explode [OF sp.len(1) y(1)]
  show ?thesis
    using assms(1) x y y' by (auto simp: ieee754sp_sub_def fp_add_finite_def FLUSHSP_def sp_instance fneg_def)
qed

lemma sp_mul_finite:
  assumes "csr_nod c = 0" and "sp_fin x" and "sp_fin y"
  shows "ieee754sp_mul c x y = fp_mul_finite SP_MBITS SP_EMIN SP_EMAX (CLEARCX c) x y"
proof -
  obtain kx xs xe xm where x: "fp_explode SP_MBITS SP_EMIN SP_EMAX 127 x = (kx, xs, xe, xm)"
    "kx = CLASS_ZERO \<or> kx = CLASS_NORM \<or> kx = CLASS_DNORM" by (rule sp_fin_explode [OF assms(2)])
  obtain ky ys ye ym where y: "fp_explode SP_MBITS SP_EMIN SP_EMAX 127 y = (ky, ys, ye, ym)"
    "ky = CLASS_ZERO \<or> ky = CLASS_NORM \<or> ky = CLASS_DNORM" by (rule sp_fin_explode [OF assms(3)])
  show ?thesis
    using assms(1) x y by (auto simp: ieee754sp_mul_def fp_mul_finite_def FLUSHSP_def sp_instance)
qed

lemma sp_div_finite:
  assumes "csr_nod c = 0" and "sp_fin x" and "sp_fin y" and "sp_val y \<noteq> 0"
  shows "ieee754sp_div c x y = fp_div_finite SP_MBITS SP_EMIN SP_EMAX (CLEARCX c) x y"
proof -
  obtain kx xs xe xm where x: "fp_explode SP_MBITS SP_EMIN SP_EMAX 127 x = (kx, xs, xe, xm)"
    "kx = CLASS_ZERO \<or> kx = CLASS_NORM \<or> kx = CLASS_DNORM" by (rule sp_fin_explode [OF assms(2)])
  obtain ky ys ye ym where y: "fp_explode SP_MBITS SP_EMIN SP_EMAX 127 y = (ky, ys, ye, ym)"
    "ky = CLASS_ZERO \<or> ky = CLASS_NORM \<or> ky = CLASS_DNORM" by (rule sp_fin_explode [OF assms(3)])
  have "ky \<noteq> CLASS_ZERO" using sp.val_zero_iff [OF assms(3)] assms(4) sp.explode_class [OF y(1)] by simp
  then show ?thesis
    using assms(1) x y by (auto simp: ieee754sp_div_def fp_div_finite_def FLUSHSP_def sp_instance)
qed

section \<open>Concrete operands\<close>

text \<open>Values of a few words, and runs of the four functions in the reset state of the csr.\<close>

lemma sp_ground:
  "sp_fin 0x3f800000" "sp_fin 0x33800000" "sp_fin 0x40400000" "sp_fin 0x3f800001"
  "sp_val 0x3f800000 = 1" "sp_val 0x33800000 = 1 / 2 ^ 24" "sp_val 0x40400000 = 3" "sp_val 0x3f800001 = 1 + 1 / 2 ^ 23"
  by (simp_all add: ground_value)

lemma sp_runs:
  "ieee754sp_add (csr_of_fcr31 0) 0x3f800000 0x33800000 = (csr_of_fcr31 0x1004, 0x3f800000)"
  "ieee754sp_sub (csr_of_fcr31 0) 0x3f800000 0x33800000 = (csr_of_fcr31 0, 0x3f7fffff)"
  "ieee754sp_mul (csr_of_fcr31 0) 0x3f800001 0x40400000 = (csr_of_fcr31 0x1004, 0x40400002)"
  "ieee754sp_div (csr_of_fcr31 0) 0x3f800000 0x40400000 = (csr_of_fcr31 0x1004, 0x3eaaaaab)"
  by code_simp+

section \<open>Correct rounding\<close>

text \<open>
  C1. Single precision addition: with denormals enabled, for finite operands the result of
  \<^verbatim>\<open>ieee754sp_add\<close> is the exact sum of the two real values rounded to the format in the current
  rounding mode (or the overflow result of that mode); an exact zero has the sign of equal signed
  operands and else is positive except when rounding down. The cause and sticky exception bits
  are exactly those of the specification, and none when an operand is zero.
\<close>

theorem sp_add_correct:
  assumes "csr_nod c = 0" and "sp_fin x" and "sp_fin y" and "v = sp_val x + sp_val y"
  shows "\<exists>r. ieee754sp_add c x y =
      (if sp_val x = 0 \<or> sp_val y = 0 \<or> v = 0 then CLEARCX c else SETCX (sp_flags c v) (CLEARCX c), r) \<and>
    (if v = 0 then r = ieee754sp_zero (if SPSIGN x = SPSIGN y then SPSIGN x else csr_rm c = IEEE754_RD)
     else sp_correct (rmode_of c) v r)"
  using sp.add_finite_correct [OF _ assms(2-4), of "CLEARCX c"] assms(1)
  unfolding sp_add_finite [OF assms(1-3)] sp_constants sp_fields CLEARCX_simps by blast

theorem sp_add_correct_witness:
  "sp_correct RN (1 + 1 / 2 ^ 24) 0x3f800000 \<and>
   csr_of_fcr31 0x1004 = SETCX (sp_flags (csr_of_fcr31 0) (1 + 1 / 2 ^ 24)) (CLEARCX (csr_of_fcr31 0))"
  using sp_add_correct [of "csr_of_fcr31 0" "0x3f800000" "0x33800000", OF _ _ _ refl]
  by (simp add: sp_ground csr_reset sp_runs)

text \<open>
  C2. Single precision subtraction rounds the exact difference of two finite operands in the same
  way; equal operands give a zero that is positive except when rounding down.
\<close>

theorem sp_sub_correct:
  assumes "csr_nod c = 0" and "sp_fin x" and "sp_fin y" and "v = sp_val x - sp_val y"
  shows "\<exists>r. ieee754sp_sub c x y =
      (if sp_val x = 0 \<or> sp_val y = 0 \<or> v = 0 then CLEARCX c else SETCX (sp_flags c v) (CLEARCX c), r) \<and>
    (if v = 0 then r = ieee754sp_zero (if SPSIGN x \<noteq> SPSIGN y then SPSIGN x else csr_rm c = IEEE754_RD)
     else sp_correct (rmode_of c) v r)"
proof -
  have y: "sp_fin (fneg SP_MBITS y)" "v = sp_val x + sp_val (fneg SP_MBITS y)"
    "sp_val (fneg SP_MBITS y) = 0 \<longleftrightarrow> sp_val y = 0" "fsign x = fsign (fneg SP_MBITS y) \<longleftrightarrow> fsign x \<noteq> fsign y"
    using assms(3,4) by (auto simp: fneg_val)
  from sp.add_finite_correct [OF _ assms(2) y(1,2), of "CLEARCX c"] assms(1) show ?thesis
    unfolding sp_sub_finite [OF assms(1-3)] sp_constants sp_fields CLEARCX_simps y(3,4) by blast
qed

theorem sp_sub_correct_witness:
  "sp_correct RN (1 - 1 / 2 ^ 24) 0x3f7fffff \<and>
   csr_of_fcr31 0 = SETCX (sp_flags (csr_of_fcr31 0) (1 - 1 / 2 ^ 24)) (CLEARCX (csr_of_fcr31 0))"
  using sp_sub_correct [of "csr_of_fcr31 0" "0x3f800000" "0x33800000", OF _ _ _ refl]
  by (simp add: sp_ground csr_reset sp_runs)

text \<open>
  C3. Single precision multiplication: the high word put together from half word products with its
  sticky bit leads to the correctly rounded product of two finite operands, with the exceptions of
  the specification; a zero product has the exclusive or of the signs.
\<close>

theorem sp_mul_correct:
  assumes "csr_nod c = 0" and "sp_fin x" and "sp_fin y" and "v = sp_val x * sp_val y"
  shows "\<exists>r. ieee754sp_mul c x y = (if v = 0 then CLEARCX c else SETCX (sp_flags c v) (CLEARCX c), r) \<and>
    (if v = 0 then r = ieee754sp_zero (SPSIGN x \<noteq> SPSIGN y) else sp_correct (rmode_of c) v r)"
  using sp.mul_finite_correct [OF _ assms(2,3) _ assms(4), of "CLEARCX c" 16] assms(1)
  unfolding sp_mul_finite [OF assms(1-3)] sp_constants sp_fields CLEARCX_simps by simp

theorem sp_mul_correct_witness:
  "sp_correct RN ((1 + 1 / 2 ^ 23) * 3) 0x40400002 \<and>
   csr_of_fcr31 0x1004 = SETCX (sp_flags (csr_of_fcr31 0) ((1 + 1 / 2 ^ 23) * 3)) (CLEARCX (csr_of_fcr31 0))"
  using sp_mul_correct [of "csr_of_fcr31 0" "0x3f800001" "0x40400000", OF _ _ _ refl]
  by (simp add: sp_ground csr_reset sp_runs)

text \<open>
  C4. Single precision division: the bitwise loop with its sticky remainder leads to the correctly
  rounded quotient of a finite operand by a finite nonzero one, with the exceptions of the
  specification.
\<close>

theorem sp_div_correct:
  assumes "csr_nod c = 0" and "sp_fin x" and "sp_fin y" and "sp_val y \<noteq> 0" and "v = sp_val x / sp_val y"
  shows "\<exists>r. ieee754sp_div c x y = (if v = 0 then CLEARCX c else SETCX (sp_flags c v) (CLEARCX c), r) \<and>
    (if v = 0 then r = ieee754sp_zero (SPSIGN x \<noteq> SPSIGN y) else sp_correct (rmode_of c) v r)"
  using sp.div_finite_correct [OF _ assms(2-5), of "CLEARCX c"] assms(1)
  unfolding sp_div_finite [OF assms(1-4)] sp_constants sp_fields CLEARCX_simps by blast

theorem sp_div_correct_witness:
  "sp_correct RN (1 / 3) 0x3eaaaaab \<and>
   csr_of_fcr31 0x1004 = SETCX (sp_flags (csr_of_fcr31 0) (1 / 3)) (CLEARCX (csr_of_fcr31 0))"
  using sp_div_correct [of "csr_of_fcr31 0" "0x3f800000" "0x40400000", OF _ _ _ _ refl]
  by (simp add: sp_ground csr_reset sp_runs)

end
