(* ===== verification/Sp_Cmp.thy ===== *)
theory Sp_Cmp
  imports Sp_Arith
begin

text \<open>
  Single precision comparison and the sign operations (\<^verbatim>\<open>sp_cmp.c\<close>, \<^verbatim>\<open>sp_simple.c\<close>, the inline
  comparisons of \<^verbatim>\<open>ieee754.h\<close>). The result of \<^verbatim>\<open>ieee754sp_cmp\<close>, an \<^verbatim>\<open>int\<close> that is 0 or 1, is a
  \<open>bool\<close>; \<^verbatim>\<open>x.bits\<close> read as a signed \<^verbatim>\<open>int\<close> is \<open>sint x\<close>.
\<close>

section \<open>The code\<close>

definition ieee754sp_cmp ::
  "ieee754_csr \<Rightarrow> ieee754sp \<Rightarrow> ieee754sp \<Rightarrow> 4 word \<Rightarrow> bool \<Rightarrow> ieee754_csr \<times> bool" where
  "ieee754sp_cmp c x y cmp sig =
     (let (xc, xs, xe, xm) = EXPLODESP x;
          (yc, ys, ye, ym) = EXPLODESP y;
          (c, x, xc, xe, xm) = FLUSHSP c x xc xs xe xm;
          (c, y, yc, ye, ym) = FLUSHSP c y yc ys ye ym;
          c = CLEARCX c
      in if ieee754sp_isnan x \<or> ieee754sp_isnan y then
           let c = (if sig \<or> xc = CLASS_SNAN \<or> yc = CLASS_SNAN then SETCX IEEE754_INVALID_OPERATION c else c)
           in if cmp AND IEEE754_CUN \<noteq> 0 then (c, True)
              else if cmp AND (IEEE754_CLT OR IEEE754_CGT) \<noteq> 0 \<and> sig then
                let (c, enabled) = SETANDTESTCX IEEE754_INVALID_OPERATION c
                in if enabled then (c, ieee754si_xcpt c 0 \<noteq> 0) else (c, False)
              else (c, False)
         else
           let vx = cmp_key x; vy = cmp_key y
           in if sint vx < sint vy then (c, cmp AND IEEE754_CLT \<noteq> 0)
              else if vx = vy then (c, cmp AND IEEE754_CEQ \<noteq> 0)
              else (c, cmp AND IEEE754_CGT \<noteq> 0))"

definition ieee754sp_eq :: "ieee754_csr \<Rightarrow> ieee754sp \<Rightarrow> ieee754sp \<Rightarrow> ieee754_csr \<times> bool" where
  "ieee754sp_eq c x y = ieee754sp_cmp c x y IEEE754_CEQ False"

definition ieee754sp_ne :: "ieee754_csr \<Rightarrow> ieee754sp \<Rightarrow> ieee754sp \<Rightarrow> ieee754_csr \<times> bool" where
  "ieee754sp_ne c x y = ieee754sp_cmp c x y (IEEE754_CLT OR IEEE754_CGT OR IEEE754_CUN) False"

definition ieee754sp_lt :: "ieee754_csr \<Rightarrow> ieee754sp \<Rightarrow> ieee754sp \<Rightarrow> ieee754_csr \<times> bool" where
  "ieee754sp_lt c x y = ieee754sp_cmp c x y IEEE754_CLT False"

definition ieee754sp_le :: "ieee754_csr \<Rightarrow> ieee754sp \<Rightarrow> ieee754sp \<Rightarrow> ieee754_csr \<times> bool" where
  "ieee754sp_le c x y = ieee754sp_cmp c x y (IEEE754_CLT OR IEEE754_CEQ) False"

definition ieee754sp_gt :: "ieee754_csr \<Rightarrow> ieee754sp \<Rightarrow> ieee754sp \<Rightarrow> ieee754_csr \<times> bool" where
  "ieee754sp_gt c x y = ieee754sp_cmp c x y IEEE754_CGT False"

definition ieee754sp_ge :: "ieee754_csr \<Rightarrow> ieee754sp \<Rightarrow> ieee754sp \<Rightarrow> ieee754_csr \<times> bool" where
  "ieee754sp_ge c x y = ieee754sp_cmp c x y (IEEE754_CGT OR IEEE754_CEQ) False"

definition ieee754sp_finite :: "ieee754sp \<Rightarrow> bool" where
  "ieee754sp_finite x \<longleftrightarrow> SPBEXP x \<noteq> SP_EMAX + 1 + SP_EBIAS"

text \<open>\<^verbatim>\<open>SPSIGN(x) = s\<close>\<close>

definition SP_SETSIGN :: "ieee754sp \<Rightarrow> bool \<Rightarrow> ieee754sp" where
  "SP_SETSIGN x s = buildsp s (SPBEXP x) (SPMANT x)"

definition ieee754sp_copysign :: "ieee754_csr \<Rightarrow> ieee754sp \<Rightarrow> ieee754sp \<Rightarrow> ieee754_csr \<times> ieee754sp" where
  "ieee754sp_copysign c x y = (CLEARCX c, SP_SETSIGN x (SPSIGN y))"

definition ieee754sp_neg :: "ieee754_csr \<Rightarrow> ieee754sp \<Rightarrow> ieee754_csr \<times> ieee754sp" where
  "ieee754sp_neg c x =
     (let (xc, xs, xe, xm) = EXPLODESP x;
          c = CLEARCX c;
          (c, x, xc, xe, xm) = FLUSHSP c x xc xs xe xm;
          x = SP_SETSIGN x (\<not> SPSIGN x)
      in if xc = CLASS_SNAN then
           let y = ieee754sp_indef;
               c = SETCX IEEE754_INVALID_OPERATION c;
               y = SP_SETSIGN y (SPSIGN x)
           in ieee754sp_nanxcpt c y
         else if ieee754sp_isnan x then ieee754sp_nanxcpt c x
         else (c, x))"

definition ieee754sp_abs :: "ieee754_csr \<Rightarrow> ieee754sp \<Rightarrow> ieee754_csr \<times> ieee754sp" where
  "ieee754sp_abs c x =
     (let (xc, xs, xe, xm) = EXPLODESP x;
          c = CLEARCX c;
          (c, x, xc, xe, xm) = FLUSHSP c x xc xs xe xm
      in if xc = CLASS_SNAN then
           ieee754sp_nanxcpt (SETCX IEEE754_INVALID_OPERATION c) ieee754sp_indef
         else if ieee754sp_isnan x then ieee754sp_nanxcpt c x
         else (c, SP_SETSIGN x False))"

section \<open>Correctness\<close>

lemma sp_isnan: "ieee754sp_isnan x \<longleftrightarrow> fp_class SP_MBITS x = CLASS_SNAN \<or> fp_class SP_MBITS x = CLASS_QNAN"
  unfolding ieee754sp_isnan_def sp_class by (cases "fp_class SP_MBITS x") simp_all

lemma sp_flush_off: "csr_nod c = 0 \<Longrightarrow> FLUSHSP c x xc xs xe xm = (c, x, xc, xe, xm)"
  by (simp add: FLUSHSP_def)

lemma sp_cmp_number:
  assumes "csr_nod c = 0" and "\<not> ieee754sp_isnan x" and "\<not> ieee754sp_isnan y"
  shows "ieee754sp_cmp c x y cmp sig = (CLEARCX c, cmp AND (if sp_val x < sp_val y then IEEE754_CLT
    else if sp_val x = sp_val y then IEEE754_CEQ else IEEE754_CGT) \<noteq> 0)"
proof -
  obtain xc xs xe xm where x: "EXPLODESP x = (xc, xs, xe, xm)" by (metis prod_cases4)
  obtain yc ys ye ym where y: "EXPLODESP y = (yc, ys, ye, ym)" by (metis prod_cases4)
  note ord = cmp_key_order [of SP_MBITS x y SP_EMIN] cmp_key_order [of SP_MBITS y x SP_EMIN]
  show ?thesis using assms ord by (simp add: ieee754sp_cmp_def x y sp_flush_off Let_def)
qed

lemma sp_cmp_correct:
  assumes "csr_nod c = 0"
  shows "ieee754sp_cmp c x y cmp sig =
    (if ieee754sp_isnan x \<or> ieee754sp_isnan y then
       (if sig \<or> ieee754sp_class x = CLASS_SNAN \<or> ieee754sp_class y = CLASS_SNAN
        then SETCX IEEE754_INVALID_OPERATION (CLEARCX c) else CLEARCX c, cmp AND IEEE754_CUN \<noteq> 0)
     else (CLEARCX c, cmp AND (if sp_val x < sp_val y then IEEE754_CLT
       else if sp_val x = sp_val y then IEEE754_CEQ else IEEE754_CGT) \<noteq> 0))"
proof (cases "ieee754sp_isnan x \<or> ieee754sp_isnan y")
  case True
  obtain xc xs xe xm where x: "EXPLODESP x = (xc, xs, xe, xm)" by (metis prod_cases4)
  obtain yc ys ye ym where y: "EXPLODESP y = (yc, ys, ye, ym)" by (metis prod_cases4)
  have k: "ieee754sp_class x = xc" "ieee754sp_class y = yc" by (simp_all add: ieee754sp_class_def x y)
  show ?thesis using True assms
    by (simp add: ieee754sp_cmp_def x y k sp_flush_off Let_def SETANDTESTCX_def SETCX_SETCX)
next
  case False
  then show ?thesis using sp_cmp_number [OF assms] by simp
qed

lemma sp_setsign: "SP_SETSIGN x s = (if s = SPSIGN x then x else fneg SP_MBITS x)"
  using fbuild_fields [of SP_MBITS x] by (auto simp: SP_SETSIGN_def fneg_def sp_fields)

lemma sp_fneg_isnan: "ieee754sp_isnan (fneg SP_MBITS x) = ieee754sp_isnan x"
proof -
  obtain k s e m where "fp_explode SP_MBITS SP_EMIN SP_EMAX SP_EBIAS x = (k, s, e, m)" by (metis prod_cases4)
  from this fneg_explode [OF _ this] show ?thesis
    by (simp add: ieee754sp_isnan_def ieee754sp_class_def sp_explode)
qed

lemma sp_fneg_fneg: "fneg SP_MBITS (fneg SP_MBITS (x :: ieee754sp)) = x"
  by (rule fields_eqI [of SP_MBITS]) simp_all

lemma sp_neg_number:
  assumes "csr_nod c = 0" and "\<not> ieee754sp_isnan x"
  shows "ieee754sp_neg c x = (CLEARCX c, fneg SP_MBITS x)"
proof -
  obtain xc xs xe xm where x: "EXPLODESP x = (xc, xs, xe, xm)" by (metis prod_cases4)
  then have "xc \<noteq> CLASS_SNAN" using assms(2) by (auto simp: ieee754sp_isnan_def ieee754sp_class_def)
  then show ?thesis using assms by (simp add: ieee754sp_neg_def x sp_flush_off sp_setsign sp_fneg_isnan)
qed

lemma sp_neg_correct:
  assumes "csr_nod c = 0" and "\<not> ieee754sp_isnan x"
  shows "\<exists>r. ieee754sp_neg c x = (CLEARCX c, r) \<and> SPSIGN r = (\<not> SPSIGN x) \<and> sp_val r = - sp_val x \<and>
    ieee754sp_neg c r = (CLEARCX c, x)"
  using assms by (simp add: sp_neg_number sp_fneg_isnan sp_fneg_fneg sp_fields fneg_val)

lemma sp_abs_correct:
  assumes "csr_nod c = 0" and "\<not> ieee754sp_isnan x"
  shows "\<exists>r. ieee754sp_abs c x = (CLEARCX c, r) \<and> SPSIGN r = False \<and> sp_val r = \<bar>sp_val x\<bar>"
proof -
  obtain xc xs xe xm where x: "EXPLODESP x = (xc, xs, xe, xm)" by (metis prod_cases4)
  then have "xc \<noteq> CLASS_SNAN" using assms(2) by (auto simp: ieee754sp_isnan_def ieee754sp_class_def)
  then have "ieee754sp_abs c x = (CLEARCX c, SP_SETSIGN x False)"
    using assms by (simp add: ieee754sp_abs_def x sp_flush_off)
  moreover have "sp_val x = sgn_of (fsign x) * \<bar>sp_val x\<bar>" by (simp add: fp_val_def)
  ultimately show ?thesis by (simp add: sp_setsign sp_fields fneg_val sgn_of_def split: if_splits)
qed

end
