(* ===== verification/Sp_Conv.thy ===== *)
theory Sp_Conv
  imports Sp_Cmp
begin

text \<open>
  Conversions between single precision and integers (\<^verbatim>\<open>sp_fint.c\<close>, \<^verbatim>\<open>sp_flong.c\<close>, \<^verbatim>\<open>sp_tint.c\<close>,
  \<^verbatim>\<open>sp_tlong.c\<close>). An \<^verbatim>\<open>int\<close> is a 32 bit and an \<^verbatim>\<open>s64\<close> a 64 bit word read with \<open>sint\<close>.
\<close>

section \<open>From integers\<close>

definition ieee754sp_fint :: "ieee754_csr \<Rightarrow> u32 \<Rightarrow> ieee754_csr \<times> ieee754sp" where
  "ieee754sp_fint = fp_fint SP_MBITS SPNORMRET2 ieee754sp_zero ieee754sp_one ieee754sp_ten"

definition ieee754sp_funs :: "ieee754_csr \<Rightarrow> u32 \<Rightarrow> ieee754_csr \<times> ieee754sp" where
  "ieee754sp_funs c u =
     (if sint u < 0 then
        let (c, r) = ieee754sp_fint c (u AND NOT (push_bit 31 1))
        in ieee754sp_add c ieee754sp_1e31 r
      else ieee754sp_fint c u)"

definition ieee754sp_flong :: "ieee754_csr \<Rightarrow> u64 \<Rightarrow> ieee754_csr \<times> ieee754sp" where
  "ieee754sp_flong = fp_fint SP_MBITS SPNORMRET2 ieee754sp_zero ieee754sp_one ieee754sp_ten"

definition ieee754sp_fulong :: "ieee754_csr \<Rightarrow> u64 \<Rightarrow> ieee754_csr \<times> ieee754sp" where
  "ieee754sp_fulong c u =
     (if sint u < 0 then
        let (c, r) = ieee754sp_flong c (u AND NOT (push_bit 63 1))
        in ieee754sp_add c ieee754sp_1e63 r
      else ieee754sp_flong c u)"

section \<open>To integers\<close>

definition ieee754sp_tint :: "ieee754_csr \<Rightarrow> ieee754sp \<Rightarrow> ieee754_csr \<times> u32" where
  "ieee754sp_tint c x =
     (let c = CLEARCX c;
          (xc, xs, xe, xm) = EXPLODESP x;
          (c, x, xc, xe, xm) = FLUSHSP c x xc xs xe xm
      in if xc = CLASS_SNAN \<or> xc = CLASS_QNAN \<or> xc = CLASS_INF then
           let c = SETCX IEEE754_INVALID_OPERATION c in (c, ieee754si_xcpt c ieee754si_indef)
         else if xc = CLASS_ZERO then (c, 0)
         else if xe \<ge> 31 then
           if xe = 31 \<and> xs \<and> xm = SP_HIDDEN_BIT then (c, - 0x80000000)
           else let c = SETCX IEEE754_INVALID_OPERATION c in (c, ieee754si_xcpt c ieee754si_indef)
         else if xe > int SP_MBITS then
           let xm = push_bit (nat (xe - int SP_MBITS)) xm in (c, if xs then - xm else xm)
         else
           let (rnd, sticky, xm) =
                 (if xe < -1 then let residue = xm in (False, residue \<noteq> 0, 0)
                  else
                    let residue = push_bit (31 - SP_MBITS) (push_bit (nat (xe + 1)) xm)
                    in (drop_bit 31 residue \<noteq> 0, push_bit 1 residue \<noteq> 0, drop_bit (nat (int SP_MBITS - xe)) xm))
           in tint_finish ieee754si_xcpt ieee754si_indef c xs rnd sticky xm)"

definition ieee754sp_tuns :: "ieee754_csr \<Rightarrow> ieee754sp \<Rightarrow> ieee754_csr \<times> u32" where
  "ieee754sp_tuns c x =
     (let hb = ieee754sp_1e31;
          (c, lt) = ieee754sp_lt c x hb
      in if lt then ieee754sp_tint c x
         else
           let (c, d) = ieee754sp_sub c x hb;
               (c, r) = ieee754sp_tint c d
           in (c, r OR push_bit 31 1))"

definition ieee754sp_tlong :: "ieee754_csr \<Rightarrow> ieee754sp \<Rightarrow> ieee754_csr \<times> u64" where
  "ieee754sp_tlong c x =
     (let c = CLEARCX c;
          (xc, xs, xe, xm) = EXPLODESP x;
          (c, x, xc, xe, xm) = FLUSHSP c x xc xs xe xm;
          xm = (ucast xm :: u64)
      in if xc = CLASS_SNAN \<or> xc = CLASS_QNAN \<or> xc = CLASS_INF then
           let c = SETCX IEEE754_INVALID_OPERATION c in (c, ieee754di_xcpt c ieee754di_indef)
         else if xc = CLASS_ZERO then (c, 0)
         else if xe \<ge> 63 then
           if xe = 63 \<and> xs \<and> xm = ucast SP_HIDDEN_BIT then (c, - 0x8000000000000000)
           else let c = SETCX IEEE754_INVALID_OPERATION c in (c, ieee754di_xcpt c ieee754di_indef)
         else if xe > int SP_MBITS then
           let xm = push_bit (nat (xe - int SP_MBITS)) xm in (c, if xs then - xm else xm)
         else if xe < int SP_MBITS then
           let (rnd, sticky, xm) =
                 (if xe < -1 then let residue = (ucast xm :: u32) in (False, residue \<noteq> 0, 0)
                  else
                    let residue = (ucast (push_bit (nat (32 - int SP_MBITS + xe)) xm) :: u32)
                    in (drop_bit 31 residue \<noteq> 0, push_bit 1 residue \<noteq> 0, drop_bit (nat (int SP_MBITS - xe)) xm))
           in tint_finish ieee754di_xcpt ieee754di_indef c xs rnd sticky xm
         else (c, if xs then - xm else xm))"

definition ieee754sp_tulong :: "ieee754_csr \<Rightarrow> ieee754sp \<Rightarrow> ieee754_csr \<times> u64" where
  "ieee754sp_tulong c x =
     (let hb = ieee754sp_1e63;
          (c, lt) = ieee754sp_lt c x hb
      in if lt then ieee754sp_tlong c x
         else
           let (c, d) = ieee754sp_sub c x hb;
               (c, r) = ieee754sp_tlong c d
           in (c, r OR push_bit 63 1))"

section \<open>Correctness\<close>

lemma sp_unit_consts: "sp.fp_const ieee754sp_one 1" "sp.fp_const ieee754sp_ten 10"
  by (simp_all add: sp.fp_const_def all_bool_eq ieee754sp_one_def ieee754sp_ten_def ieee754sp_spcvals_def buildsp_def
    fp_fin_def fp_class_def fp_val_def fbexp_def fmant_def fsign_def power_int_def
    power_one_over)

text \<open>
  Conversion of a 32 bit integer to single precision rounds it in the current mode with exactly the exceptions of the
  specification; zero gives the positive zero.
\<close>

lemma sp_fint_correct:
  assumes "csr_nod c = 0"
  shows "\<exists>r. ieee754sp_fint c x = (if x = 0 then CLEARCX c else SETCX (sp_flags c (sint x)) (CLEARCX c), r) \<and>
    (if x = 0 then r = ieee754sp_zero False else sp_correct (rmode_of c) (sint x) r)"
  unfolding ieee754sp_fint_def sp_normret
  by (rule sp.fp_fint_correct [OF assms _ _ _ _ _ sp_unit_consts]) simp_all

lemma sp_flong_correct:
  assumes "csr_nod c = 0"
  shows "\<exists>r. ieee754sp_flong c x = (if x = 0 then CLEARCX c else SETCX (sp_flags c (sint x)) (CLEARCX c), r) \<and>
    (if x = 0 then r = ieee754sp_zero False else sp_correct (rmode_of c) (sint x) r)"
  unfolding ieee754sp_flong_def sp_normret
  by (rule sp.fp_fint_correct [OF assms _ _ _ _ _ sp_unit_consts]) simp_all

lemma sp_tint_nonzero:
  assumes nod: "csr_nod c = 0" and ex: "EXPLODESP x = (k, s, e, m)" and k: "k = CLASS_NORM \<or> k = CLASS_DNORM"
  shows "ieee754sp_tint c x = int_outcome (CLEARCX c) ieee754si_indef (sp_val x)"
proof -
  note ez = sp.explode_nonzero [OF ex [unfolded sp_explode] k]
  have m32: "unat m < 16777216" using ez(4) by simp
  consider (top) "31 \<le> e" | (up) "23 < e" "e < 31" | (same) "e = 23" | (cut) "-1 \<le> e" "e < 23" | (tiny) "e < -1" by linarith
  then show ?thesis
  proof cases
    case top
    then have "2 ^ SP_MBITS \<le> unat m" using k ez(7,8) by auto
    note ot = outcome_top [OF ez(2) this, where ?'a = 32 and c = "CLEARCX c" and i = ieee754si_indef]
    have "m = SP_HIDDEN_BIT \<longleftrightarrow> unat m = 2 ^ SP_MBITS" unfolding word_unat_eq_iff by (simp add: SP_MBIT_def)
    then show ?thesis using ex nod k top ot by (auto simp: ieee754sp_tint_def FLUSHSP_def Let_def)
  next
    case up
    have "unat m * 2 ^ nat (e - 23) < 16777216 * 2 ^ 7" using m32 up by (intro mult_less_le_imp_less power_increasing) auto
    then have u: "unat (push_bit (nat (e - 23)) m) = unat m * 2 ^ nat (e - 23)" "unat m * 2 ^ nat (e - 23) < 2 ^ 31"
      by (auto intro!: unat_push_bit)
    have "int_outcome (CLEARCX c) ieee754si_indef (sp_val x) = (CLEARCX c, if s then - push_bit (nat (e - 23)) m else push_bit (nat (e - 23)) m)"
      unfolding tint_sign u(1) using u(2) up by (subst outcome_whole [OF _ ez(2)]) simp_all
    then show ?thesis using ex nod k up by (auto simp: ieee754sp_tint_def FLUSHSP_def Let_def)
  next
    case same
    have u: "unat m < 2 ^ 31" using m32 by simp
    then have d: "drop_bit 31 m = 0" by (simp only: drop_bit_eq_0_iff_unat)
    have p: "push_bit (31 - SP_MBITS) (push_bit 24 m) = 0" by (simp add: push_bit_push_bit)
    have "int_outcome (CLEARCX c) ieee754si_indef (sp_val x) = (CLEARCX c, if s then - m else m)"
      unfolding tint_sign using u same by (subst outcome_whole [OF _ ez(2)]) simp_all
    then show ?thesis using ex nod k d p by (auto simp: same ieee754sp_tint_def FLUSHSP_def Let_def tint_finish_def tint_round_exact)
  next
    case cut
    define j where "j = nat (22 - e)"
    have j: "j < LENGTH(32)" "nat (9 + e) = LENGTH(32) - 1 - j" "int SP_MBITS - e = int (Suc j)" "nat (int SP_MBITS - e) = Suc j"
      "31 - SP_MBITS + nat (e + 1) = nat (9 + e)" using cut by (simp_all add: j_def)
    have "unat m div 2 ^ Suc j \<le> unat m" "(2::nat) ^ (LENGTH(32) - 1) = 2147483648" by (rule div_le_dividend, simp)
    then have small: "unat (drop_bit (Suc j) m) + 1 < 2 ^ (LENGTH(32) - 1)" using m32 unfolding unat_drop_bit by linarith
    note tt = tint_tail [OF ez(3) j(3) ez(2) unat_drop_bit small residue_bits [OF j(1,2)], where c = "CLEARCX c" and i = ieee754si_indef and xcpt = ieee754si_xcpt, OF xcpt_simps(2)]
    have pp: "push_bit (31 - SP_MBITS) (push_bit (nat (e + 1)) m) = push_bit (nat (9 + e)) m"
      by (simp only: push_bit_push_bit j(5))
    have "k \<noteq> CLASS_SNAN \<and> k \<noteq> CLASS_QNAN \<and> k \<noteq> CLASS_INF \<and> k \<noteq> CLASS_ZERO" "\<not> 31 \<le> e" "\<not> 23 < e" "\<not> e < -1" using k cut by auto
    then show ?thesis unfolding tt by (simp add: ieee754sp_tint_def FLUSHSP_def ex nod Let_def pp [simplified] j(4) [simplified] push_bit_double)
  next
    case tiny
    define j where "j = nat (22 - e)"
    have j: "SP_MBITS < j" "int SP_MBITS - e = int (Suc j)" using tiny by (simp_all add: j_def)
    note ca = cut_all [OF ez(4) j(1)]
    have "unat (0 :: u32) = unat m div 2 ^ Suc j" "unat (0 :: u32) + 1 < 2 ^ (LENGTH(32) - 1)" "False \<longleftrightarrow> odd (unat m div 2 ^ j)"
      "m \<noteq> 0 \<longleftrightarrow> unat m mod 2 ^ j \<noteq> 0" using ca by (simp_all add: unat_eq_0)
    note tt = tint_tail [OF ez(3) j(2) ez(2) this, where c = "CLEARCX c" and i = ieee754si_indef and xcpt = ieee754si_xcpt, OF xcpt_simps(2)]
    have "k \<noteq> CLASS_SNAN \<and> k \<noteq> CLASS_QNAN \<and> k \<noteq> CLASS_INF \<and> k \<noteq> CLASS_ZERO" "\<not> 31 \<le> e" "\<not> 23 < e" using k tiny by auto
    then show ?thesis unfolding tt using tiny by (simp add: ieee754sp_tint_def FLUSHSP_def ex nod Let_def)
  qed
qed

text \<open>
  Conversion of a single precision number to a 32 bit integer rounds its value in the current mode and flags an inexact
  result; a value out of range, an infinity or a NaN gives the indefinite integer and an invalid operation.
\<close>

lemma sp_tint_correct:
  assumes "csr_nod c = 0"
  shows "ieee754sp_tint c x = (if sp_fin x then int_outcome (CLEARCX c) ieee754si_indef (sp_val x)
    else (SETCX IEEE754_INVALID_OPERATION (CLEARCX c), ieee754si_indef))"
proof (cases "EXPLODESP x")
  case (fields k s e m)
  have k: "k = fp_class SP_MBITS x" using sp.explode_class fields by (simp add: sp_explode)
  show ?thesis
  proof (cases "k = CLASS_NORM \<or> k = CLASS_DNORM")
    case True
    then show ?thesis using sp_tint_nonzero [OF assms fields True] k by (auto simp: sp.class_fin)
  next
    case False
    then show ?thesis using fields sp.class_zero(2) [of x]
      by (cases k) (simp_all add: ieee754sp_tint_def FLUSHSP_def sp.class_fin k [symmetric])
  qed
qed

lemma sp_tlong_nonzero:
  assumes nod: "csr_nod c = 0" and ex: "EXPLODESP x = (k, s, e, m)" and k: "k = CLASS_NORM \<or> k = CLASS_DNORM"
  shows "ieee754sp_tlong c x = int_outcome (CLEARCX c) ieee754di_indef (sp_val x)"
proof -
  note ez = sp.explode_nonzero [OF ex [unfolded sp_explode] k]
  define w where "w = (ucast m :: u64)"
  have m32: "unat m < 16777216" using ez(4) by simp
  have w: "unat w = unat m" unfolding w_def using unsigned_less [of m, where ?'a = nat] by (simp add: unsigned_ucast_eq take_bit_nat_eq_self)
  note ev = ez(2) [folded w]
  have kk: "k \<noteq> CLASS_SNAN \<and> k \<noteq> CLASS_QNAN \<and> k \<noteq> CLASS_INF \<and> k \<noteq> CLASS_ZERO" using k by auto
  consider (top) "63 \<le> e" | (up) "23 < e" "e < 63" | (same) "e = 23" | (cut) "-1 \<le> e" "e < 23" | (tiny) "e < -1" by linarith
  then show ?thesis
  proof cases
    case top
    then have "2 ^ SP_MBITS \<le> unat w" using k ez(7,8) w by auto
    note ot = outcome_top [OF ev this, where ?'a = 64 and c = "CLEARCX c" and i = ieee754di_indef]
    have "w = ucast SP_HIDDEN_BIT \<longleftrightarrow> unat w = 2 ^ SP_MBITS" unfolding word_unat_eq_iff by (simp add: SP_MBIT_def)
    then show ?thesis using kk top ot by (simp add: ieee754sp_tlong_def FLUSHSP_def Let_def ex nod w_def [symmetric])
  next
    case up
    have "unat w * 2 ^ nat (e - 23) < 16777216 * 2 ^ 39" unfolding w using m32 up by (intro mult_less_le_imp_less power_increasing) auto
    then have u: "unat (push_bit (nat (e - 23)) w) = unat w * 2 ^ nat (e - 23)" "unat w * 2 ^ nat (e - 23) < 2 ^ 63"
      by (auto intro!: unat_push_bit)
    have "int_outcome (CLEARCX c) ieee754di_indef (sp_val x) = (CLEARCX c, if s then - push_bit (nat (e - 23)) w else push_bit (nat (e - 23)) w)"
      unfolding tint_sign u(1) using u(2) up by (subst outcome_whole [OF _ ev]) simp_all
    then show ?thesis using kk up by (simp add: ieee754sp_tlong_def FLUSHSP_def Let_def ex nod w_def [symmetric])
  next
    case same
    have "int_outcome (CLEARCX c) ieee754di_indef (sp_val x) = (CLEARCX c, if s then - w else w)"
      unfolding tint_sign using m32 w same by (subst outcome_whole [OF _ ev]) simp_all
    then show ?thesis using kk by (simp add: ieee754sp_tlong_def FLUSHSP_def Let_def ex nod same w_def [symmetric])
  next
    case cut
    define j where "j = nat (22 - e)"
    have j: "j < LENGTH(32)" "nat (9 + e) = LENGTH(32) - 1 - j" "int SP_MBITS - e = int (Suc j)" "nat (int SP_MBITS - e) = Suc j"
      using cut by (simp_all add: j_def)
    have "unat w div 2 ^ Suc j \<le> unat w" "(2::nat) ^ (LENGTH(64) - 1) = 9223372036854775808" by (rule div_le_dividend, simp)
    then have small: "unat (drop_bit (Suc j) w) + 1 < 2 ^ (LENGTH(64) - 1)" using m32 unfolding w unat_drop_bit by linarith
    have pp: "ucast (push_bit (nat (9 + e)) w) = push_bit (nat (9 + e)) m"
      unfolding w_def by (rule bit_word_eqI) (auto simp: bit_simps)
    note tt = tint_tail [OF ez(3) j(3) ez(2) unat_drop_bit [of "Suc j" w, unfolded w] small residue_bits [OF j(1,2)],
      where c = "CLEARCX c" and i = ieee754di_indef and xcpt = ieee754di_xcpt, OF xcpt_simps(3)]
    have "\<not> 63 \<le> e" "\<not> 23 < e" "\<not> e < -1" using cut by auto
    then show ?thesis unfolding tt using kk cut
      by (simp add: ieee754sp_tlong_def FLUSHSP_def ex nod Let_def w_def [symmetric] pp j(4) [simplified] push_bit_double)
  next
    case tiny
    define j where "j = nat (22 - e)"
    have j: "SP_MBITS < j" "int SP_MBITS - e = int (Suc j)" using tiny by (simp_all add: j_def)
    note ca = cut_all [OF ez(4) j(1)]
    have m0: "(ucast w :: u32) = m" unfolding w_def by (rule bit_word_eqI) (auto simp: bit_simps)
    have "unat (0 :: u64) = unat m div 2 ^ Suc j" "unat (0 :: u64) + 1 < 2 ^ (LENGTH(64) - 1)" "False \<longleftrightarrow> odd (unat m div 2 ^ j)"
      "m \<noteq> 0 \<longleftrightarrow> unat m mod 2 ^ j \<noteq> 0" using ca by (simp_all add: unat_eq_0)
    note tt = tint_tail [OF ez(3) j(2) ez(2) this, where c = "CLEARCX c" and i = ieee754di_indef and xcpt = ieee754di_xcpt, OF xcpt_simps(3)]
    show ?thesis unfolding tt using kk tiny
      by (simp add: ieee754sp_tlong_def FLUSHSP_def ex nod Let_def w_def [symmetric] m0)
  qed
qed

text \<open>
  Conversion of a single precision number to a 64 bit integer rounds its value in the current mode and flags an inexact
  result; a value out of range, an infinity or a NaN gives the indefinite integer and an invalid operation.
\<close>

lemma sp_tlong_correct:
  assumes "csr_nod c = 0"
  shows "ieee754sp_tlong c x = (if sp_fin x then int_outcome (CLEARCX c) ieee754di_indef (sp_val x)
    else (SETCX IEEE754_INVALID_OPERATION (CLEARCX c), ieee754di_indef))"
proof (cases "EXPLODESP x")
  case (fields k s e m)
  have k: "k = fp_class SP_MBITS x" using sp.explode_class fields by (simp add: sp_explode)
  show ?thesis
  proof (cases "k = CLASS_NORM \<or> k = CLASS_DNORM")
    case True
    then show ?thesis using sp_tlong_nonzero [OF assms fields True] k by (auto simp: sp.class_fin)
  next
    case False
    then show ?thesis using fields sp.class_zero(2) [of x]
      by (cases k) (simp_all add: ieee754sp_tlong_def FLUSHSP_def sp.class_fin k [symmetric])
  qed
qed

end
