(* ===== verification/Sp_Math.thy ===== *)
theory Sp_Math
  imports Sp_Conv
begin

text \<open>
  Single precision exponent and fraction functions and the square root (\<^verbatim>\<open>sp_frexp.c\<close>,
  \<^verbatim>\<open>sp_logb.c\<close>, \<^verbatim>\<open>sp_modf.c\<close>, \<^verbatim>\<open>sp_scalb.c\<close>, \<^verbatim>\<open>sp_sqrt.c\<close>). A pointer argument through which the
  code returns a second value is a second component of the result.
\<close>

section \<open>The code\<close>

definition ieee754sp_frexp :: "ieee754_csr \<Rightarrow> ieee754sp \<Rightarrow> ieee754_csr \<times> int \<times> ieee754sp" where
  "ieee754sp_frexp c x =
     (let c = CLEARCX c;
          (xc, xs, xe, xm) = EXPLODESP x
      in case xc of
           CLASS_NORM \<Rightarrow> (c, xe + 1, buildsp xs (-1 + SP_EBIAS) (xm AND NOT SP_HIDDEN_BIT))
         | CLASS_DNORM \<Rightarrow>
             let (xm, xe) = SPDNORMx (xm, xe)
             in (c, xe + 1, buildsp xs (-1 + SP_EBIAS) (xm AND NOT SP_HIDDEN_BIT))
         | _ \<Rightarrow> (c, 0, x))"

definition ieee754sp_logb :: "ieee754_csr \<Rightarrow> ieee754sp \<Rightarrow> ieee754_csr \<times> ieee754sp" where
  "ieee754sp_logb c x =
     (let c = CLEARCX c;
          (xc, xs, xe, xm) = EXPLODESP x
      in case xc of
           CLASS_SNAN \<Rightarrow> ieee754sp_nanxcpt c x
         | CLASS_QNAN \<Rightarrow> (c, x)
         | CLASS_INF \<Rightarrow> (c, ieee754sp_inf False)
         | CLASS_ZERO \<Rightarrow> (c, ieee754sp_inf True)
         | CLASS_DNORM \<Rightarrow> let (xm, xe) = SPDNORMx (xm, xe) in ieee754sp_fint c (word_of_int xe)
         | CLASS_NORM \<Rightarrow> ieee754sp_fint c (word_of_int xe))"

definition ieee754sp_modf :: "ieee754_csr \<Rightarrow> ieee754sp \<Rightarrow> ieee754_csr \<times> ieee754sp \<times> ieee754sp" where
  "ieee754sp_modf c x =
     (let c = CLEARCX c;
          (xc, xs, xe, xm) = EXPLODESP x
      in case xc of
           CLASS_NORM \<Rightarrow>
             if xe < 0 then (c, ieee754sp_zero xs, x)
             else if xe \<ge> int SP_MBITS then (c, x, ieee754sp_zero xs)
             else
               let k = SP_MBITS - nat xe;
                   ip = buildsp xs (xe + SP_EBIAS) (push_bit k (drop_bit k xm) AND NOT SP_HIDDEN_BIT);
                   xm = drop_bit (32 - k) (push_bit (32 - k) xm)
               in if xm = 0 then (c, ip, ieee754sp_zero xs)
                  else
                    let (xm, xe) = norm_up SP_MBITS (xm, xe)
                    in (c, ip, buildsp xs (xe + SP_EBIAS) (xm AND NOT SP_HIDDEN_BIT))
         | CLASS_DNORM \<Rightarrow> (c, ieee754sp_zero xs, x)
         | _ \<Rightarrow> (c, x, x))"

text \<open>The sum \<^verbatim>\<open>xe + n\<close> of two \<^verbatim>\<open>int\<close>s wraps around at 32 bits.\<close>

definition ieee754sp_scalb :: "ieee754_csr \<Rightarrow> ieee754sp \<Rightarrow> u32 \<Rightarrow> ieee754_csr \<times> ieee754sp" where
  "ieee754sp_scalb c x n =
     (let c = CLEARCX c;
          (xc, xs, xe, xm) = EXPLODESP x
      in case xc of
           CLASS_SNAN \<Rightarrow> ieee754sp_nanxcpt c x
         | CLASS_DNORM \<Rightarrow>
             let (xm, xe) = SPDNORMx (xm, xe)
             in SPNORMRET2 c xs (sint (word_of_int xe + n)) (push_bit 3 xm)
         | CLASS_NORM \<Rightarrow> SPNORMRET2 c xs (sint (word_of_int xe + n)) (push_bit 3 xm)
         | _ \<Rightarrow> (c, x))"

definition ieee754sp_ldexp :: "ieee754_csr \<Rightarrow> ieee754sp \<Rightarrow> u32 \<Rightarrow> ieee754_csr \<times> ieee754sp" where
  "ieee754sp_ldexp c x n = ieee754sp_scalb c x n"

text \<open>
  The square root works on \<^verbatim>\<open>int\<close> variables. \<open>sqrt_norm\<close> is the loop that normalises a subnormal
  operand and counts its steps, \<open>sqrt_unpack\<close> delivers significand and exponent, \<open>sqrt_bits\<close> is the loop over the bits of the root; the comparison
  \<^verbatim>\<open>t <= ix\<close> is signed.
\<close>

definition sqrt_norm :: "u32 \<times> int \<Rightarrow> u32 \<times> int" where
  "sqrt_norm = while (\<lambda>(ix, i). ix AND 0x00800000 = 0) (\<lambda>(ix, i). (push_bit 1 ix, i + 1))"

definition sqrt_unpack :: "ieee754sp \<Rightarrow> u32 \<times> int" where
  "sqrt_unpack x =
     (let ix = x;
          m = sint ix div 2 ^ 23;
          (ix, m) = (if m = 0 then let (ix, i) = sqrt_norm (ix, 0) in (ix, m - (i - 1)) else (ix, m));
          m = m - 127;
          ix = (ix AND 0x007fffff) OR 0x00800000
      in (ix, m))"

definition sqrt_bits :: "u32 \<times> u32 \<times> u32 \<times> u32 \<Rightarrow> u32 \<times> u32 \<times> u32 \<times> u32" where
  "sqrt_bits = while (\<lambda>(ix, s, q, r). r \<noteq> 0)
     (\<lambda>(ix, s, q, r).
        let t = s + r;
            (ix, s, q) = (if sint t \<le> sint ix then (ix - t, t + r, q + r) else (ix, s, q))
        in (ix + ix, s, q, drop_bit 1 r))"

text \<open>The rounding of an inexact root, whose last bit is the first one below the significand.\<close>

definition sqrt_round :: "ieee754_csr \<Rightarrow> u32 \<Rightarrow> u32" where
  "sqrt_round c q =
     (if csr_rm c = IEEE754_RU then q + 2
      else if csr_rm c = IEEE754_RN then q + (q AND 1) else q)"

definition ieee754sp_sqrt :: "ieee754_csr \<Rightarrow> ieee754sp \<Rightarrow> ieee754_csr \<times> ieee754sp" where
  "ieee754sp_sqrt c x =
     (let (xc, xs, xe, xm) = EXPLODESP x;
          c = CLEARCX c;
          (c, x, xc, xe, xm) = FLUSHSP c x xc xs xe xm
      in if xc = CLASS_QNAN then ieee754sp_nanxcpt c x
         else if xc = CLASS_SNAN then ieee754sp_nanxcpt (SETCX IEEE754_INVALID_OPERATION c) ieee754sp_indef
         else if xc = CLASS_ZERO then (c, x)
         else if xs then ieee754sp_nanxcpt (SETCX IEEE754_INVALID_OPERATION c) ieee754sp_indef
         else if xc = CLASS_INF then (c, x)
         else
           let (ix, m) = sqrt_unpack x;
               ix = (if odd m then ix + ix else ix);
               m = m div 2;
               ix = ix + ix;
               (ix, s, q, r) = sqrt_bits (ix, 0, 0, 0x01000000);
               (c, q) = (if ix \<noteq> 0 then (SETCX IEEE754_INEXACT c, sqrt_round c q) else (c, q));
               ix = drop_bit 1 q + 0x3f000000;
               ix = ix + push_bit 23 (word_of_int m)
           in (c, ix))"

section \<open>The square root loops\<close>

lemma sqrt_norm:
  assumes "0 < unat ix" and "unat ix < 2 ^ 24"
  obtains w j where "sqrt_norm (ix, 0) = (w, int j)" and "unat w = unat ix * 2 ^ j"
    and "2 ^ 23 \<le> unat w" and "unat w < 2 ^ 24"
proof -
  define P where "P = (\<lambda>(w :: u32, i). \<exists>j. i = int j \<and> unat w = unat ix * 2 ^ j \<and> unat w < 2 ^ 24)"
  have cond: "w AND 0x00800000 = 0 \<longleftrightarrow> unat w < 2 ^ 23" if "unat w < 2 ^ 24" for w :: u32
    using and_hidden_iff [of w 23] that by simp
  have dbl: "unat (push_bit 1 w) = unat w * 2" if "unat w < 2 ^ 23" for w :: u32
    using unat_push_bit [of w 1] that by simp
  have "case sqrt_norm (ix, 0) of (w, i) \<Rightarrow>
      \<exists>j. i = int j \<and> unat w = unat ix * 2 ^ j \<and> 2 ^ 23 \<le> unat w \<and> unat w < 2 ^ 24"
    unfolding sqrt_norm_def
  proof (rule while_rule [where P = P and r = "measure (\<lambda>(w, i). 2 ^ 23 - unat w)"])
    show "P (ix, 0)" unfolding P_def using assms(2) by (auto intro: exI [of _ 0])
  next
    fix s assume "P s" "case s of (w, i) \<Rightarrow> w AND 0x00800000 = 0"
    then obtain w j where s: "s = (w, int j)" "unat w = unat ix * 2 ^ j" "unat w < 2 ^ 23"
      by (auto simp: P_def cond)
    with dbl [OF s(3)] show "P (case s of (w, i) \<Rightarrow> (push_bit 1 w, i + 1))"
      unfolding P_def by (auto intro!: exI [of _ "Suc j"])
    have "0 < unat w" using s(2) assms(1) by simp
    then show "(case s of (w, i) \<Rightarrow> (push_bit 1 w, i + 1), s) \<in> measure (\<lambda>(w, i). 2 ^ 23 - unat w)"
      using dbl [OF s(3)] s(1,3) by auto
  next
    fix s assume "P s" "\<not> (case s of (w, i) \<Rightarrow> w AND 0x00800000 = 0)"
    then show "case s of (w, i) \<Rightarrow> \<exists>j. i = int j \<and> unat w = unat ix * 2 ^ j \<and> 2 ^ 23 \<le> unat w \<and> unat w < 2 ^ 24"
      by (auto simp: P_def cond)
  qed simp
  then show thesis using that by (auto split: prod.splits)
qed

text \<open>
  One step of the root: \<open>q\<close> is the root found so far, \<open>R\<close> the bit tried next, and \<open>ix\<close> the rest
  \<open>C - q * q\<close> in units of \<open>R\<close>.
\<close>

lemma root_step:
  fixes ix q R C :: nat
  assumes "ix * R + q * q = C" and "C < (q + 2 * R) * (q + 2 * R)"
  shows "2 * q + R \<le> ix \<Longrightarrow> (ix - (2 * q + R)) * R + (q + R) * (q + R) = C"
    and "2 * q + R \<le> ix \<Longrightarrow> C < (q + R + R) * (q + R + R)"
    and "\<not> 2 * q + R \<le> ix \<Longrightarrow> C < (q + R) * (q + R)"
    and "ix < 4 * q + 4 * R"
proof -
  show "(ix - (2 * q + R)) * R + (q + R) * (q + R) = C" if le: "2 * q + R \<le> ix"
  proof -
    obtain d where "ix = 2 * q + R + d" using le le_Suc_ex by blast
    then show ?thesis using assms(1) by (simp add: algebra_simps)
  qed
  show "C < (q + R + R) * (q + R + R)" using assms(2) by (simp add: algebra_simps)
  have R: "0 < R" using assms by (cases R) auto
  show "C < (q + R) * (q + R)" if "\<not> 2 * q + R \<le> ix"
  proof -
    have "ix * R < (2 * q + R) * R" using that R by simp
    then show ?thesis using assms(1) by (simp add: algebra_simps)
  qed
  have "ix * R < (4 * q + 4 * R) * R" using assms by (simp add: algebra_simps)
  then show "ix < 4 * q + 4 * R" by simp
qed

definition sqrt_inv :: "nat \<Rightarrow> u32 \<times> u32 \<times> u32 \<times> u32 \<Rightarrow> bool" where
  "sqrt_inv C = (\<lambda>(ix, s, q, r). unat s = 2 * unat q \<and> unat q < 2 ^ 25 \<and>
     (if r = 0 then unat ix + 2 * (unat q * unat q) = 2 * C \<and> C < (unat q + 1) * (unat q + 1)
      else \<exists>j \<le> 24. unat r = 2 ^ j \<and> 2 * 2 ^ j dvd unat q \<and> unat ix * 2 ^ j + unat q * unat q = C \<and>
        C < (unat q + 2 * 2 ^ j) * (unat q + 2 * 2 ^ j)))"

text \<open>The state after the bit \<open>2 ^ j\<close> was decided: doubling \<open>ix\<close> and halving the bit restores the invariant.\<close>

lemma sqrt_inv_next:
  assumes "unat s = 2 * unat q" and "unat q < 2 ^ 25" and "unat r = 2 ^ j" and "j \<le> 24" and "2 ^ j dvd unat q"
    and "unat ix * 2 ^ j + unat q * unat q = C" and "C < (unat q + 2 ^ j) * (unat q + 2 ^ j)" and "unat ix < 2 ^ 31"
  shows "sqrt_inv C (ix + ix, s, q, drop_bit 1 r)"
proof -
  have dbl: "unat (ix + ix) = 2 * unat ix" using assms(8) by (subst unat_add_small) simp_all
  have r: "unat (drop_bit 1 r) = 2 ^ j div 2" using assms(3) unat_drop_bit [of 1 r] by simp
  show ?thesis
  proof (cases j)
    case 0
    then have "drop_bit 1 r = 0" using r by (simp add: unat_eq_0 [symmetric])
    then show ?thesis using assms dbl 0 by (simp add: sqrt_inv_def)
  next
    case (Suc i)
    then have r: "unat (drop_bit 1 r) = 2 ^ i" using r by simp
    then have "drop_bit 1 r \<noteq> 0" by (metis power_not_zero unat_0 zero_neq_numeral)
    then show ?thesis unfolding sqrt_inv_def using assms dbl r Suc
      by (auto intro!: exI [of _ i] simp: algebra_simps)
  qed
qed

lemma sint_small: "unat (w :: u32) < 2 ^ 31 \<Longrightarrow> sint w = int (unat w)"
  using sint_unat [of w] sint_neg_iff [of w] by simp

lemma dvd_room: "(2::nat) * 2 ^ j dvd q \<Longrightarrow> q < 2 ^ 25 \<Longrightarrow> j \<le> 24 \<Longrightarrow> q + 2 * 2 ^ j \<le> 2 ^ 25"
proof -
  assume a: "2 * 2 ^ j dvd q" "q < 2 ^ 25" "j \<le> 24"
  then obtain a where q: "q = 2 * 2 ^ j * a" by (auto elim: dvdE)
  have e: "(2::nat) ^ 25 = 2 * 2 ^ j * 2 ^ (24 - j)" using a(3) by (simp add: mult.assoc flip: power_add)
  have "2 * 2 ^ j * a < 2 * 2 ^ j * 2 ^ (24 - j)" using a(2) unfolding q e .
  then have "a + 1 \<le> 2 ^ (24 - j)" by simp
  then have "2 * 2 ^ j * (a + 1) \<le> 2 * 2 ^ j * 2 ^ (24 - j)" by (rule mult_le_mono2)
  then show ?thesis unfolding q e by (simp add: algebra_simps)
qed

lemma sqrt_inv_step:
  assumes inv: "sqrt_inv C (ix, s, q, r)" and r: "r \<noteq> 0"
  shows "sqrt_inv C (let t = s + r; (ix, s, q) = (if sint t \<le> sint ix then (ix - t, t + r, q + r) else (ix, s, q))
    in (ix + ix, s, q, drop_bit 1 r))"
proof -
  obtain j where j: "j \<le> 24" "unat r = 2 ^ j" "2 * 2 ^ j dvd unat q" "unat ix * 2 ^ j + unat q * unat q = C"
      "C < (unat q + 2 * 2 ^ j) * (unat q + 2 * 2 ^ j)" and s: "unat s = 2 * unat q" "unat q < 2 ^ 25"
    using inv r by (auto simp: sqrt_inv_def)
  define R where "R = (2::nat) ^ j"
  have rm: "unat q + 2 * R \<le> 33554432" using dvd_room [OF j(3) s(2) j(1)] by (simp add: R_def)
  note rs = root_step [OF j(4,5), folded R_def]
  have ix: "unat ix < 2 ^ 31" using rs(4) rm by simp
  have t: "unat (s + r) = 2 * unat q + R" using s(1) j(2) rm R_def by (subst unat_add_small) simp_all
  have cmp: "sint (s + r) \<le> sint ix \<longleftrightarrow> 2 * unat q + R \<le> unat ix"
    using sint_small [OF ix] sint_small [of "s + r"] t rm by auto
  have R0: "0 < R" by (simp add: R_def)
  have dq: "R dvd unat q" using j(3) unfolding R_def by (rule dvd_mult_right)
  show ?thesis
  proof (cases "2 * unat q + R \<le> unat ix")
    case True
    have q': "unat (q + r) = unat q + R" using j(2) rm R_def by (subst unat_add_small) simp_all
    have ix': "unat (ix - (s + r)) = unat ix - (2 * unat q + R)" using True t by (simp add: unat_sub_if_size word_size)
    have s': "unat (s + r + r) = 2 * unat (q + r)" using t j(2) rm R_def q' by (subst unat_add_small) simp_all
    have "sqrt_inv C ((ix - (s + r)) + (ix - (s + r)), s + r + r, q + r, drop_bit 1 r)"
      by (rule sqrt_inv_next [OF s' _ j(2) j(1)])
        (use rm R0 rs(1,2) True dq ix j(3) in \<open>simp_all add: R_def [symmetric] q' ix'\<close>)
    then show ?thesis by (simp only: Let_def cmp True if_True prod.case)
  next
    case False
    have "sqrt_inv C (ix + ix, s, q, drop_bit 1 r)"
      by (rule sqrt_inv_next [OF s j(2) j(1)]) (use rs(3) False dq ix j(4) in \<open>simp_all add: R_def [symmetric]\<close>)
    then show ?thesis by (simp only: Let_def cmp False if_False prod.case)
  qed
qed

lemma sqrt_bits:
  assumes "unat ix < 2 ^ 26"
  obtains ix' s q where "sqrt_bits (ix, 0, 0, 0x01000000) = (ix', s, q, 0)" and "unat q < 2 ^ 25"
    and "unat q * unat q \<le> 2 ^ 24 * unat ix" and "2 ^ 24 * unat ix < (unat q + 1) * (unat q + 1)"
    and "ix' = 0 \<longleftrightarrow> unat q * unat q = 2 ^ 24 * unat ix"
proof -
  let ?C = "2 ^ 24 * unat ix"
  have "case sqrt_bits (ix, 0, 0, 0x01000000) of (ix', s, q, r) \<Rightarrow> r = 0 \<and> sqrt_inv ?C (ix', s, q, r)"
    unfolding sqrt_bits_def
  proof (rule while_rule [where P = "sqrt_inv ?C" and r = "measure (\<lambda>(ix, s, q, r). unat r)"])
    show "sqrt_inv ?C (ix, 0, 0, 0x01000000)" using assms by (auto simp: sqrt_inv_def intro!: exI [of _ 24])
  next
    fix st assume st: "sqrt_inv ?C st" "case st of (ix, s, q, r) \<Rightarrow> r \<noteq> 0"
    then obtain ix s q r where e: "st = (ix, s, q, r)" "r \<noteq> 0" "sqrt_inv ?C (ix, s, q, r)" by (cases st) auto
    show "sqrt_inv ?C (case st of (ix, s, q, r) \<Rightarrow> let t = s + r;
        (ix, s, q) = (if sint t \<le> sint ix then (ix - t, t + r, q + r) else (ix, s, q)) in (ix + ix, s, q, drop_bit 1 r))"
      using sqrt_inv_step [OF e(3,2)] e(1) by simp
    have "unat r div 2 < unat r" using e(2) by (simp add: unat_gt_0 [symmetric])
    then show "(case st of (ix, s, q, r) \<Rightarrow> let t = s + r;
        (ix, s, q) = (if sint t \<le> sint ix then (ix - t, t + r, q + r) else (ix, s, q)) in (ix + ix, s, q, drop_bit 1 r), st)
      \<in> measure (\<lambda>(ix, s, q, r). unat r)"
      using e(1) unat_drop_bit [of 1 r] by (simp add: Let_def split: prod.split)
  qed (auto split: prod.splits)
  then obtain ix' s q where "sqrt_bits (ix, 0, 0, 0x01000000) = (ix', s, q, 0)" "sqrt_inv ?C (ix', s, q, 0)"
    by (auto split: prod.splits)
  then show thesis using that by (fastforce simp: sqrt_inv_def unat_eq_0 [symmetric])
qed

section \<open>The square root\<close>

lemma sqrt_between:
  fixes q C :: nat
  assumes "q * q \<le> C" and "C < (q + 1) * (q + 1)"
  shows "real q \<le> sqrt C" and "sqrt C < real q + 1" and "sqrt C = real q \<longleftrightarrow> q * q = C"
proof -
  have "real (q * q) \<le> real C" "real C < real ((q + 1) * (q + 1))" using assms by (simp_all only: of_nat_le_iff of_nat_less_iff)
  then have b: "real q ^ 2 \<le> real C" "real C < (real q + 1) ^ 2" by (simp_all add: power2_eq_square algebra_simps)
  show "real q \<le> sqrt C" by (rule real_le_rsqrt [OF b(1)])
  show "sqrt C < real q + 1" by (rule real_less_lsqrt) (use b in simp_all)
  have "sqrt C = real q \<longleftrightarrow> real C = real q ^ 2" using real_sqrt_eq_iff [of "real C" "real q ^ 2"] by simp
  also have "\<dots> \<longleftrightarrow> q * q = C" by (auto simp: power2_eq_square simp flip: of_nat_mult)
  finally show "sqrt C = real q \<longleftrightarrow> q * q = C" .
qed

lemma root_round:
  fixes q C :: nat
  assumes "q * q \<le> C" and "C < (q + 1) * (q + 1)"
  shows "rmag rm False (sqrt C / 2) = int (q div 2) + of_bool (case rm of
      RN \<Rightarrow> odd q \<and> (q * q \<noteq> C \<or> odd (q div 2)) | RZ \<Rightarrow> False | RU \<Rightarrow> odd q \<or> q * q \<noteq> C | RD \<Rightarrow> False)"
proof -
  note sb = sqrt_between [OF assms]
  define n where "n = 2 * q + of_bool (q * q \<noteq> C)"
  have "\<lfloor>sqrt C\<rfloor> = int q" using sb(1,2) by (simp add: floor_eq_iff)
  moreover have "\<lceil>sqrt C\<rceil> = int q + of_bool (q * q \<noteq> C)" using sb by (cases "q * q = C") (auto simp: ceiling_eq_iff)
  moreover have "\<lfloor>real n / 2\<rfloor> = int q" "\<lceil>real n / 2\<rceil> = int q + of_bool (q * q \<noteq> C)"
    unfolding n_def by (cases "q * q = C"; simp add: floor_eq_iff ceiling_eq_iff)+
  ultimately have "cell (1 / 2) (real n / 2 ^ Suc 1) (sqrt C / 2)" by (simp add: cell_def)
  then have "rmag rm False (sqrt C / 2) = rmag rm False (real n / 2 ^ Suc 1)" by (rule rmag_cell [symmetric])
  moreover have "n div 2 ^ Suc 1 = q div 2" "n div 2 ^ 1 = q" "n mod 2 ^ 1 \<noteq> 0 \<longleftrightarrow> q * q \<noteq> C" by (auto simp: n_def)
  ultimately show ?thesis unfolding rmag_div_pow2 by (cases rm) simp_all
qed

lemma sqrt_round:
  fixes q :: u32
  assumes "unat q * unat q \<le> C" and "C < (unat q + 1) * (unat q + 1)" and "unat q < 2 ^ 25" and "even C"
  shows "int (unat (drop_bit 1 (if unat q * unat q \<noteq> C then sqrt_round c q else q))) = rmag (rmode_of c) False (sqrt C / 2)"
    and "of_int (rmag rm False (sqrt C / 2)) = sqrt C / 2 \<longleftrightarrow> unat q * unat q = C"
proof -
  note rr = root_round [OF assms(1,2)] and sb = sqrt_between [OF assms(1,2)]
  have ev: "even (unat q)" if "unat q * unat q = C" using assms(4) that by auto
  have a: "unat (q + 2) = unat q + 2" using assms(3) by (subst unat_add_small) simp_all
  have b: "unat (q + (q AND 1)) = unat q + unat q mod 2" using assms(3) unat_and_1 [of q] by (subst unat_add_small) simp_all
  show "int (unat (drop_bit 1 (if unat q * unat q \<noteq> C then sqrt_round c q else q))) = rmag (rmode_of c) False (sqrt C / 2)"
    unfolding rr sqrt_round_def unat_drop_bit using ev
    by (cases c rule: rm_cases; cases "unat q * unat q = C"; cases "even (unat q)") (auto simp: a b elim!: oddE evenE)
  show "of_int (rmag rm False (sqrt C / 2)) = sqrt C / 2 \<longleftrightarrow> unat q * unat q = C"
  proof
    assume "unat q * unat q = C"
    then have "sqrt C / 2 = real_of_int (int (unat q div 2))" using sb(3) ev by (auto elim!: evenE)
    then show "of_int (rmag rm False (sqrt C / 2)) = sqrt C / 2" by (metis Ints_of_int rmag_Ints)
  next
    assume e: "of_int (rmag rm False (sqrt C / 2)) = sqrt C / 2"
    then have "sqrt C = of_int (2 * rmag rm False (sqrt C / 2))" by simp
    then have "sqrt C = of_int \<lfloor>sqrt C\<rfloor>" by (metis floor_of_int)
    moreover have "\<lfloor>sqrt C\<rfloor> = int (unat q)" using sb(1,2) by (simp add: floor_eq_iff)
    ultimately show "unat q * unat q = C" using sb(3) by simp
  qed
qed

lemma sqrt_operand:
  assumes "sp_fin x" and "0 < sp_val x"
  obtains M m where "sqrt_unpack x = (M, m)"
    and "2 ^ 23 \<le> unat M" and "unat M < 2 ^ 24" and "sp_val x = unat M * 2 powi (m - 23)" and "- 149 \<le> m" and "m \<le> 127"
proof -
  have "sp_val x = sgn_of (fsign x) * \<bar>sp_val x\<bar>" by (simp add: fp_val_def)
  then have sn: "\<not> fsign x" using assms(2) by (cases "fsign x") simp_all
  have "sint x = int (fp_mag x)" using sn sint_cmp_key [of x] by (simp add: cmp_key_def fsign_iff)
  then have sx: "sint x = fbexp 23 x * 2 ^ 23 + int (unat (fmant 23 x))" using fp_mag_fields [of 23 x] by simp
  have ml: "int (unat (fmant 23 x)) < 2 ^ 23" using unat_fmant_less [of 23 x] by simp
  then have m: "sint x div 2 ^ 23 = fbexp 23 x" unfolding sx by simp
  have hid: "unat ((w AND 0x007fffff) OR 0x00800000) = 2 ^ 23 + unat w mod 2 ^ 23" for w :: u32
    using unat_or_hidden [of "w AND mask 23" 23] unat_and_mask [of w 23] by (simp add: mask_numeral)
  show thesis
  proof (cases "fbexp 23 x = 0")
    case True
    have ux: "unat x = unat (fmant 23 x)" using unat_fp_mag [of x] sn fp_mag_fields [of 23 x] True by simp
    have v: "sp_val x = unat x * 2 powi (- 149)" using sn True ux by (simp add: fp_val_def)
    have "0 < unat x" "unat x < 2 ^ 24" using assms(2) v unat_fmant_less [of 23 x] ux by (auto simp: zero_less_mult_iff)
    then obtain w j where w: "sqrt_norm (x, 0) = (w, int j)" "unat w = unat x * 2 ^ j" "2 ^ 23 \<le> unat w" "unat w < 2 ^ 24"
      by (rule sqrt_norm)
    have "2 ^ 23 + unat w mod 2 ^ 23 = unat w" using w(3,4) by (auto simp: mod_if)
    then have uw: "unat ((w AND 0x007fffff) OR 0x00800000) = unat w" by (simp only: hid)
    have "1 * 2 ^ j \<le> unat x * 2 ^ j" using \<open>0 < unat x\<close> by (intro mult_right_mono) simp_all
    then have "(2::nat) ^ j < 2 ^ 24" using w(2,4) by linarith
    then have "j < 24" by (rule power_less_imp_less_exp [rotated]) simp
    moreover have "sp_val x = unat w * 2 powi (- 126 - int j - 23)"
      unfolding v w(2) by (simp add: powi_diff2 power_int_of_nat power_int_minus)
    ultimately show thesis using m True w uw by (intro that [of "(w AND 0x007fffff) OR 0x00800000" "- 126 - int j"])
      (simp_all add: sqrt_unpack_def)
  next
    case False
    have "fbexp 23 x \<le> 254" using sp.fbexp_top [of x] sp.fin_iff [of x] assms(1) by simp
    moreover have "0 < fbexp 23 x" using False fbexp_nonneg [of 23 x] by linarith
    moreover have "unat x mod 2 ^ 23 = unat (fmant 23 x)" by (simp add: unat_fmant)
    moreover have "sp_val x = (2 ^ 23 + unat (fmant 23 x)) * 2 powi (fbexp 23 x - 127 - 23)" using sn False by (simp add: fp_val_def)
    ultimately show thesis using m False hid [of x] unat_fmant_less [of 23 x]
      by (intro that [of "(x AND 0x007fffff) OR 0x00800000" "fbexp 23 x - 127"]) (simp_all add: sqrt_unpack_def)
  qed
qed

lemma sqrt_scaled:
  fixes M N :: nat
  assumes "N = M * (if odd m then 2 else 1)"
  shows "sqrt (real M * 2 powi (m - 23)) = sqrt (real (2 ^ 25 * N)) / 2 * 2 powi (m div 2 - 23)"
proof -
  define e where "e = m div 2"
  have "real M * 2 powi (m - 23) = real N * 2 powi (2 * e - 23)"
  proof (cases "odd m")
    case True
    then have "m - 23 = 2 * e - 23 + 1" unfolding e_def by presburger
    then have "(2::real) powi (m - 23) = 2 powi (2 * e - 23) * 2" by (simp only: powi_add2) simp
    then show ?thesis using assms True by simp
  qed (use assms in \<open>simp add: e_def\<close>)
  also have "\<dots> = (sqrt (real (2 ^ 25 * N)) / 2 * 2 powi (e - 23)) ^ 2"
  proof -
    have "((2::real) powi (e - 23)) ^ 2 = 2 powi (2 * e - 46)" by (simp add: power2_eq_square flip: powi_add2)
    moreover have "(2::real) powi (2 * e - 23) = 2 ^ 23 * 2 powi (2 * e - 46)" using powi_shift2 [of 23 "2 * e - 23"] by simp
    ultimately show ?thesis by (simp add: power_mult_distrib power_divide)
  qed
  finally show ?thesis by (simp add: e_def)
qed

lemma sqrt_range:
  assumes "2 ^ 23 \<le> N" and "N < 2 ^ 25"
  shows "2 ^ 24 \<le> sqrt (real (2 ^ 25 * N))" and "sqrt (real (2 ^ 25 * N)) < 2 ^ 25"
proof -
  have "real (2 ^ 23) \<le> real N" "real N < real (2 ^ 25)" using assms by (simp_all only: of_nat_le_iff of_nat_less_iff)
  then show "2 ^ 24 \<le> sqrt (real (2 ^ 25 * N))" "sqrt (real (2 ^ 25 * N)) < 2 ^ 25"
    by (intro real_le_rsqrt real_less_lsqrt; simp)+
qed

lemma sqrt_pack:
  fixes w :: u32
  assumes "2 ^ 23 \<le> unat w" and "unat w \<le> 2 ^ 24" and "- 100 \<le> e" and "e \<le> 100"
  shows "int (unat (w + 0x3f000000 + push_bit 23 (word_of_int e))) = (e + 127) * 2 ^ 23 + int (unat w) - 2 ^ 23"
proof -
  have "w = word_of_int (int (unat w))" by (simp add: of_nat_unat)
  then have eq: "w + 0x3f000000 + push_bit 23 (word_of_int e) = word_of_int (int (unat w) + 126 * 2 ^ 23 + e * 2 ^ 23)"
    by (simp add: push_bit_eq_mult)
  have "uint (w + 0x3f000000 + push_bit 23 (word_of_int e)) = (int (unat w) + 126 * 2 ^ 23 + e * 2 ^ 23) mod 2 ^ 32"
    by (simp only: eq uint_word_of_int) simp
  also have "\<dots> = int (unat w) + 126 * 2 ^ 23 + e * 2 ^ 23" using assms by (intro mod_pos_pos_trivial) simp_all
  finally show ?thesis unfolding uint_nat by simp
qed

text \<open>
  C28. The square root of a finite positive single precision number is the exact real root rounded in the current
  mode, with exactly the exceptions of the specification, although the code computes it bit by bit on integers.
\<close>

theorem sp_sqrt_correct:
  assumes nod: "csr_nod c = 0" and fin: "sp_fin x" and pos: "0 < sp_val x"
  shows "\<exists>r. ieee754sp_sqrt c x = (SETCX (sp_flags c (sqrt (sp_val x))) (CLEARCX c), r) \<and>
    sp_correct (rmode_of c) (sqrt (sp_val x)) r"
proof -
  obtain xc xs xe xm where ex: "EXPLODESP x = (xc, xs, xe, xm)" by (metis prod_cases4)
  have xc: "xc = CLASS_NORM \<or> xc = CLASS_DNORM"
    using sp.explode_class(1) [OF ex [unfolded sp_explode]] sp.val_nonzero_iff [OF fin] pos by simp
  have "sp_val x = sgn_of xs * \<bar>sp_val x\<bar>" using sp.explode_class(2) [OF ex [unfolded sp_explode]] by (simp add: fp_val_def)
  then have xs: "\<not> xs" using pos by (cases xs) simp_all
  obtain M m where M: "sqrt_unpack x = (M, m)"
    "2 ^ 23 \<le> unat M" "unat M < 2 ^ 24" "sp_val x = unat M * 2 powi (m - 23)" "- 149 \<le> m" "m \<le> 127"
    by (rule sqrt_operand [OF fin pos])
  define N where "N = (if odd m then M + M else M)"
  define ix where "ix = N + N"
  have "unat (M + M) = unat M + unat M" using M(3) by (subst unat_add_small) simp_all
  then have N: "unat N = unat M * (if odd m then 2 else 1)" unfolding N_def by auto
  then have "unat N < 2 ^ 25" "2 ^ 23 \<le> unat N" using M(2,3) by auto
  then have ix: "unat ix = 2 * unat N" "unat ix < 2 ^ 26" unfolding ix_def by (subst unat_add_small; simp)+
  obtain rest s q where q: "sqrt_bits (ix, 0, 0, 0x01000000) = (rest, s, q, 0)" "unat q < 2 ^ 25"
    "unat q * unat q \<le> 2 ^ 24 * unat ix" "2 ^ 24 * unat ix < (unat q + 1) * (unat q + 1)" "rest = 0 \<longleftrightarrow> unat q * unat q = 2 ^ 24 * unat ix"
    by (rule sqrt_bits [OF ix(2)])
  define k where "k = unat (drop_bit 1 (if rest \<noteq> 0 then sqrt_round c q else q))"
  define r where "r = drop_bit 1 (if rest \<noteq> 0 then sqrt_round c q else q) + 0x3f000000 + push_bit 23 (word_of_int (m div 2))"
  have code: "ieee754sp_sqrt c x = (if rest \<noteq> 0 then SETCX IEEE754_INEXACT (CLEARCX c) else CLEARCX c, r)"
    using xc xs nod M(1) q(1) unfolding ieee754sp_sqrt_def r_def ix_def N_def sqrt_round_def
    by (auto simp: ex sp_flush_off Let_def)
  have C: "2 ^ 24 * unat ix = 2 ^ 25 * unat N" using ix(1) by simp
  let ?y = "sqrt (real (2 ^ 25 * unat N)) / 2"
  have "even (2 ^ 25 * unat N)" by simp
  note sr = sqrt_round [OF q(3,4) [unfolded C] q(2) this]
  have k: "int k = rmag (rmode_of c) False ?y" using sr(1) [of c] q(5) unfolding k_def C by simp
  have v: "sqrt (sp_val x) = ?y * 2 powi (m div 2 - 23)" unfolding M(4) by (rule sqrt_scaled [OF N])
  have y: "2 ^ SP_MBITS \<le> ?y" "?y < 2 ^ (SP_MBITS + 1)"
    using sqrt_range [OF \<open>2 ^ 23 \<le> unat N\<close> \<open>unat N < 2 ^ 25\<close>] by simp_all
  have kb: "2 ^ 23 \<le> k" "k \<le> 2 ^ 24" using rmag_range [OF y k] by simp_all
  have e: "SP_EMIN \<le> m div 2" "m div 2 < SP_EMAX" using M(5,6) by simp_all
  have r: "int (unat r) = (m div 2 + SP_EBIAS) * 2 ^ SP_MBITS + int k - 2 ^ SP_MBITS"
    using sqrt_pack [OF kb [unfolded k_def], of "m div 2"] M(5,6) unfolding r_def k_def by simp
  have fl: "sp_flags c (sqrt (sp_val x)) = (if rest = 0 then 0 else IEEE754_INEXACT)"
    using sp.normal_correct(2) [OF y e k r, of "uf_enabled c"] sr(2) [of "rmode_of c"] q(5) k unfolding v C by auto
  show ?thesis using sp.normal_correct(1) [OF y e k r] code fl unfolding v by auto
qed

theorem sp_sqrt_correct_witness: "sp_correct RN (sqrt 2) 0x3fb504f3"
proof -
  have "sp_fin 0x40000000" "sp_val 0x40000000 = 2" by (simp_all add: ground_value)
  moreover have "ieee754sp_sqrt (csr_of_fcr31 0) 0x40000000 = (csr_of_fcr31 0x1004, 0x3fb504f3)" by code_simp
  ultimately show ?thesis using sp_sqrt_correct [of "csr_of_fcr31 0" "0x40000000"] by (simp add: csr_reset)
qed

section \<open>Exponent and fraction\<close>

lemma sp_frexp_sig:
  assumes "2 ^ SP_MBITS \<le> unat m" and "unat m < 2 ^ (SP_MBITS + 1)" and "sp_val x = sgn_of s * (unat m * 2 powi (e - int SP_MBITS))"
  shows "let f = buildsp s (- 1 + SP_EBIAS) (m AND NOT SP_HIDDEN_BIT)
    in sp_val x = sp_val f * 2 powi (e + 1) \<and> 1 / 2 \<le> \<bar>sp_val f\<bar> \<and> \<bar>sp_val f\<bar> < 1"
proof -
  have f: "sp_val (buildsp s (- 1 + SP_EBIAS) (m AND NOT SP_HIDDEN_BIT)) = sgn_of s * (unat m * 2 powi (- 24))"
    using sp.build_sig(3) [OF assms(1,2), of "- 1" s] by (simp add: sp_fields SP_MBIT_def)
  have "(2::real) powi (e - 23) = 2 powi (- 24) * 2 powi (e + 1)" using powi_add2 [of "- 24" "e + 1"] by simp
  moreover have "real (2 ^ SP_MBITS) \<le> real (unat m)" "real (unat m) < real (2 ^ (SP_MBITS + 1))"
    using assms(1,2) by (simp_all only: of_nat_le_iff of_nat_less_iff)
  ultimately show ?thesis unfolding Let_def f assms(3) by (simp add: power_int_minus abs_mult)
qed

lemma sp_frexp_correct:
  assumes "sp_fin x" and "sp_val x \<noteq> 0"
  shows "\<exists>e f. ieee754sp_frexp c x = (CLEARCX c, e, f) \<and> sp_val x = sp_val f * 2 powi e \<and>
    1 / 2 \<le> \<bar>sp_val f\<bar> \<and> \<bar>sp_val f\<bar> < 1"
proof -
  obtain k s e m where ex: "EXPLODESP x = (k, s, e, m)" by (metis prod_cases4)
  have k: "k = CLASS_NORM \<or> k = CLASS_DNORM"
    using sp.explode_class(1) [OF ex [unfolded sp_explode]] sp.val_nonzero_iff [OF assms(1)] assms(2) by simp
  obtain m' e' where m': "(if k = CLASS_DNORM then norm_up SP_MBITS (m, e) else (m, e)) = (m', e')"
    "2 ^ SP_MBITS \<le> unat m'" "unat m' < 2 ^ (SP_MBITS + 1)" "sp_val x = sgn_of s * (unat m' * 2 powi (e' - int SP_MBITS))"
    by (rule sp.operand [OF ex [unfolded sp_explode] k])
  have "ieee754sp_frexp c x = (CLEARCX c, e' + 1, buildsp s (- 1 + SP_EBIAS) (m' AND NOT SP_HIDDEN_BIT))"
    using k m'(1) by (auto simp: ieee754sp_frexp_def ex SPDNORMx_def)
  with sp_frexp_sig [OF m'(2-4)] show ?thesis by (simp add: Let_def)
qed

lemma sp_scalb_correct:
  assumes "csr_nod c = 0" and "sp_fin x" and "sp_val x \<noteq> 0" and "\<bar>sint n\<bar> \<le> 2 ^ 30"
  shows "\<exists>r. ieee754sp_scalb c x n = (SETCX (sp_flags c (sp_val x * 2 powi sint n)) (CLEARCX c), r) \<and>
    sp_correct (rmode_of c) (sp_val x * 2 powi sint n) r"
proof -
  obtain k s e m where ex: "EXPLODESP x = (k, s, e, m)" by (metis prod_cases4)
  note exf = ex [unfolded sp_explode]
  have k: "k = CLASS_NORM \<or> k = CLASS_DNORM"
    using sp.explode_class(1) [OF exf] sp.val_nonzero_iff [OF assms(2)] assms(3) by simp
  obtain m' e' where m': "(if k = CLASS_DNORM then norm_up SP_MBITS (m, e) else (m, e)) = (m', e')" by fastforce
  have "sint (word_of_int e' + n) = e' + sint n"
  proof -
    define z where "z = e' + sint n"
    have eq: "word_of_int e' + n = word_of_int z" by (simp add: of_int_sint z_def)
    have "- 2147483648 \<le> z" "z < 2147483648" using sp.operand_exponent [OF exf k m'] assms(4) by (simp_all add: z_def)
    then show ?thesis unfolding eq z_def [symmetric] by (simp add: signed_of_int signed_take_bit_int_eq_self)
  qed
  then have "ieee754sp_scalb c x n = fp_fmt SP_MBITS SP_EMIN SP_EMAX (CLEARCX c) s (e' + sint n) (push_bit 3 m')"
    using k m' by (auto simp: ieee754sp_scalb_def ex SPDNORMx_def sp_normret)
  then show ?thesis using sp.scalb_correct [OF _ exf k m', of "CLEARCX c" "sint n"] assms(1) by simp
qed

text \<open>
  \<^verbatim>\<open>ieee754sp_modf\<close> splits a finite number into its value rounded towards zero and the exact rest, and raises no
  exception.
\<close>

lemma sp_modf_correct:
  assumes "sp_fin x"
  shows "\<exists>i f. ieee754sp_modf c x = (CLEARCX c, i, f) \<and> sp_fin i \<and> sp_fin f \<and>
    sp_val i = of_int (rint RZ (sp_val x)) \<and> sp_val f = sp_val x - sp_val i"
proof -
  obtain k s e m where ex: "EXPLODESP x = (k, s, e, m)" by (metis prod_cases4)
  note exf = ex [unfolded sp_explode]
  show ?thesis
  proof (cases "k = CLASS_NORM \<or> k = CLASS_DNORM")
    case False
    then have "fp_class SP_MBITS x = CLASS_ZERO" using sp.explode_class(1) [OF exf] sp.class_fin [of x] assms by auto
    then show ?thesis using assms sp.class_zero(2) [of x] sp.explode_class(1) [OF exf]
      by (simp add: ieee754sp_modf_def ex)
  next
    case k: True
    note ez = sp.explode_nonzero [OF exf k]
    have z: "sp_fin (ieee754sp_zero s)" "sp_val (ieee754sp_zero s) = 0"
      using sp.build_denorm(1,3) [of 0 s] by (simp_all add: sp_constants fp_zero_def)
    have pos: "0 < unat m * (2 powi (e - int SP_MBITS) :: real)" using ez(3) by simp
    note ri = rint_signed [OF pos, of RZ s, folded ez(2)]
    consider (small) "e < 0" | (big) "23 \<le> e" | (mid) "0 \<le> e" "e < 23" by linarith
    then show ?thesis
    proof cases
      case small
      then have "ieee754sp_modf c x = (CLEARCX c, ieee754sp_zero s, x)"
        using k by (auto simp: ieee754sp_modf_def ex)
      moreover have "rint RZ (sp_val x) = 0"
      proof -
        have "real (unat m) < real (2 ^ (SP_MBITS + 1))" using ez(4) by (simp only: of_nat_less_iff)
        then have "real (unat m) * 2 powi (e - int SP_MBITS) < 2 ^ (SP_MBITS + 1) * 2 powi (e - int SP_MBITS)" by simp
        also have "\<dots> = 2 powi (e + 1)" by (rule powi_shift2_Suc)
        also have "\<dots> \<le> 2 powi 0" using small by (simp only: powi_le2)
        finally have "\<lfloor>real (unat m) * 2 powi (e - int SP_MBITS)\<rfloor> = 0" using pos by (simp add: floor_eq_iff)
        then show ?thesis using ri by simp
      qed
      ultimately show ?thesis using z assms by simp
    next
      case big
      then have kn: "k = CLASS_NORM" using k ez(8) by auto
      have "ieee754sp_modf c x = (CLEARCX c, x, ieee754sp_zero s)" using big kn by (simp add: ieee754sp_modf_def ex)
      moreover have "of_int (rint RZ (sp_val x)) = sp_val x"
        using tint_whole [OF _ ez(2)] big by (metis int_ops(3) rint_of_int)
      ultimately show ?thesis using z assms by simp
    next
      case mid
      then have kn: "k = CLASS_NORM" using k ez(8) by auto
      define d where "d = SP_MBITS - nat e"
      define i where "i = buildsp s (e + SP_EBIAS) (push_bit d (drop_bit d m) AND NOT SP_HIDDEN_BIT)"
      define w where "w = drop_bit (32 - d) (push_bit (32 - d) m)"
      have i: "sp_fin i" "sp_val i = of_int (rint RZ (sp_val x))"
        using sp.modf_integral [OF ez(7) [OF kn] ez(4) _ _ _ _ d_def, of s] mid ri
        unfolding i_def sp_fields SP_MBIT_def by (auto simp: sgn_of_def)
      have md: "ieee754sp_modf c x = (if w = 0 then (CLEARCX c, i, ieee754sp_zero s)
        else let (xm, xe) = norm_up SP_MBITS (w, e) in (CLEARCX c, i, buildsp s (xe + SP_EBIAS) (xm AND NOT SP_HIDDEN_BIT)))"
        using mid kn unfolding ieee754sp_modf_def ex i_def w_def d_def by (simp add: Let_def)
      have rz: "of_int (rint RZ (sp_val x)) = sgn_of s * of_int \<lfloor>unat m * 2 powi (e - int SP_MBITS)\<rfloor>" using ri by (simp add: sgn_of_def)
      have ii: "sp_val i = sgn_of s * of_int \<lfloor>unat m * 2 powi (e - int SP_MBITS)\<rfloor>" unfolding i(2) rz ..
      have wd: "w = drop_bit (LENGTH(32) - d) (push_bit (LENGTH(32) - d) m)" by (simp add: w_def)
      show ?thesis
      proof (cases "w = 0")
        case True
        then have "sp_val x = sp_val i" using sp.modf_low(1) [OF _ _ d_def wd] mid unfolding ii ez(2) by simp
        then show ?thesis using md True i z by simp
      next
        case False
        obtain w' e' where "norm_up SP_MBITS (w, e) = (w', e')" "sp_fin (buildsp s (e' + SP_EBIAS) (w' AND NOT SP_HIDDEN_BIT))"
          "sp_val (buildsp s (e' + SP_EBIAS) (w' AND NOT SP_HIDDEN_BIT)) =
            sgn_of s * (unat m * 2 powi (e - int SP_MBITS) - of_int \<lfloor>unat m * 2 powi (e - int SP_MBITS)\<rfloor>)"
          using sp.modf_fraction [OF ez(4) _ _ _ _ d_def wd False, of s] mid unfolding sp_fields SP_MBIT_def by auto
        moreover have "sp_val x - sp_val i = sgn_of s * (unat m * 2 powi (e - int SP_MBITS) - of_int \<lfloor>unat m * 2 powi (e - int SP_MBITS)\<rfloor>)"
          unfolding ii ez(2) right_diff_distrib ..
        ultimately show ?thesis using md False i by simp
      qed
    qed
  qed
qed

end
