(* ===== verification/Ieee754dp.thy ===== *)
theory Ieee754dp
  imports Fp_Exact
begin

text \<open>
  Double precision: the packed word and its fields, the special constants, the unpacking and
  flushing macros, NaN handling and \<^verbatim>\<open>ieee754dp_format\<close>
  (\<^verbatim>\<open>ieee754int.h\<close>, \<^verbatim>\<open>ieee754dp.h\<close>, \<^verbatim>\<open>ieee754dp.c\<close>, \<^verbatim>\<open>ieee754.c\<close>). An \<^verbatim>\<open>ieee754dp\<close> is its 64 bit
  word. The end of the theory interprets \<open>fp_word\<close> on these definitions.
\<close>

section \<open>Words and constants\<close>

type_synonym ieee754dp = u64

definition DP_MBIT :: "nat \<Rightarrow> u64" where
  "DP_MBIT x = push_bit x 1"

abbreviation DP_HIDDEN_BIT :: u64 where "DP_HIDDEN_BIT \<equiv> DP_MBIT DP_MBITS"
abbreviation DP_SIGN_BIT :: u64 where "DP_SIGN_BIT \<equiv> DP_MBIT 63"

definition DPSIGN :: "ieee754dp \<Rightarrow> bool" where
  "DPSIGN dp = bit dp 63"

definition DPBEXP :: "ieee754dp \<Rightarrow> int" where
  "DPBEXP dp = uint (take_bit 11 (drop_bit 52 dp))"

definition DPMANT :: "ieee754dp \<Rightarrow> u64" where
  "DPMANT dp = take_bit 52 dp"

definition builddp :: "bool \<Rightarrow> int \<Rightarrow> u64 \<Rightarrow> ieee754dp" where
  "builddp s bx m = push_bit 63 (of_bool s) OR push_bit 52 (take_bit 11 (word_of_int bx)) OR take_bit 52 m"

text \<open>\<^verbatim>\<open>DPSTR(s, b, mh, ml)\<close>: the mantissa is given as its upper 20 and its lower 32 bits.\<close>

definition DPSTR :: "bool \<Rightarrow> int \<Rightarrow> u64 \<Rightarrow> u64 \<Rightarrow> ieee754dp" where
  "DPSTR s b mh ml = builddp s b (push_bit 32 mh OR ml)"

definition ieee754dp_spcvals :: "ieee754dp list" where
  "ieee754dp_spcvals =
    [DPSTR False (DP_EMIN - 1 + DP_EBIAS) 0 0, DPSTR True (DP_EMIN - 1 + DP_EBIAS) 0 0,
     DPSTR False DP_EBIAS 0 0, DPSTR True DP_EBIAS 0 0,
     DPSTR False (3 + DP_EBIAS) 0x40000 0, DPSTR True (3 + DP_EBIAS) 0x40000 0,
     DPSTR False (DP_EMAX + 1 + DP_EBIAS) 0 0, DPSTR True (DP_EMAX + 1 + DP_EBIAS) 0 0,
     DPSTR False (DP_EMAX + 1 + DP_EBIAS) 0x7FFFF 0xFFFFFFFF,
     DPSTR False (DP_EMAX + DP_EBIAS) 0xFFFFF 0xFFFFFFFF, DPSTR True (DP_EMAX + DP_EBIAS) 0xFFFFF 0xFFFFFFFF,
     DPSTR False (DP_EMIN + DP_EBIAS) 0 0, DPSTR True (DP_EMIN + DP_EBIAS) 0 0,
     DPSTR False (DP_EMIN - 1 + DP_EBIAS) 0 1, DPSTR True (DP_EMIN - 1 + DP_EBIAS) 0 1,
     DPSTR False (31 + DP_EBIAS) 0 0, DPSTR False (63 + DP_EBIAS) 0 0]"

definition ieee754dp_zero :: "bool \<Rightarrow> ieee754dp" where
  "ieee754dp_zero sn = ieee754dp_spcvals ! (0 + of_bool sn)"

definition ieee754dp_one :: "bool \<Rightarrow> ieee754dp" where
  "ieee754dp_one sn = ieee754dp_spcvals ! (2 + of_bool sn)"

definition ieee754dp_ten :: "bool \<Rightarrow> ieee754dp" where
  "ieee754dp_ten sn = ieee754dp_spcvals ! (4 + of_bool sn)"

definition ieee754dp_inf :: "bool \<Rightarrow> ieee754dp" where
  "ieee754dp_inf sn = ieee754dp_spcvals ! (6 + of_bool sn)"

definition ieee754dp_indef :: ieee754dp where
  "ieee754dp_indef = ieee754dp_spcvals ! 8"

definition ieee754dp_max :: "bool \<Rightarrow> ieee754dp" where
  "ieee754dp_max sn = ieee754dp_spcvals ! (9 + of_bool sn)"

definition ieee754dp_min :: "bool \<Rightarrow> ieee754dp" where
  "ieee754dp_min sn = ieee754dp_spcvals ! (11 + of_bool sn)"

definition ieee754dp_mind :: "bool \<Rightarrow> ieee754dp" where
  "ieee754dp_mind sn = ieee754dp_spcvals ! (13 + of_bool sn)"

definition ieee754dp_1e31 :: ieee754dp where
  "ieee754dp_1e31 = ieee754dp_spcvals ! 15"

definition ieee754dp_1e63 :: ieee754dp where
  "ieee754dp_1e63 = ieee754dp_spcvals ! 16"

section \<open>Unpacking and flushing\<close>

definition EXPLODEDP :: "ieee754dp \<Rightarrow> ieee754_class \<times> bool \<times> int \<times> u64" where
  "EXPLODEDP v =
     (let vs = DPSIGN v; ve = DPBEXP v; vm = DPMANT v
      in if ve = DP_EMAX + 1 + DP_EBIAS then
           if vm = 0 then (CLASS_INF, vs, ve, vm)
           else if vm AND DP_MBIT (DP_MBITS - 1) \<noteq> 0 then (CLASS_SNAN, vs, ve, vm)
           else (CLASS_QNAN, vs, ve, vm)
         else if ve = DP_EMIN - 1 + DP_EBIAS then
           if vm \<noteq> 0 then (CLASS_DNORM, vs, DP_EMIN, vm) else (CLASS_ZERO, vs, ve, vm)
         else (CLASS_NORM, vs, ve - DP_EBIAS, vm OR DP_HIDDEN_BIT))"

definition FLUSHDP ::
  "ieee754_csr \<Rightarrow> ieee754dp \<Rightarrow> ieee754_class \<Rightarrow> bool \<Rightarrow> int \<Rightarrow> u64 \<Rightarrow>
   ieee754_csr \<times> ieee754dp \<times> ieee754_class \<times> int \<times> u64" where
  "FLUSHDP c v vc vs ve vm =
     (if vc = CLASS_DNORM \<and> csr_nod c \<noteq> 0 then
        (SETCX IEEE754_INEXACT c, ieee754dp_zero vs, CLASS_ZERO, DP_EMIN - 1 + DP_EBIAS, 0)
      else (c, v, vc, ve, vm))"

definition DPDNORMx :: "u64 \<times> int \<Rightarrow> u64 \<times> int" where
  "DPDNORMx = norm_up DP_MBITS"

section \<open>Classes, NaNs and exceptions\<close>

definition ieee754dp_class :: "ieee754dp \<Rightarrow> ieee754_class" where
  "ieee754dp_class x = (let (xc, xs, xe, xm) = EXPLODEDP x in xc)"

definition ieee754dp_isnan :: "ieee754dp \<Rightarrow> bool" where
  "ieee754dp_isnan x \<longleftrightarrow> class_num (ieee754dp_class x) \<ge> class_num CLASS_SNAN"

definition ieee754dp_issnan :: "ieee754dp \<Rightarrow> bool" where
  "ieee754dp_issnan x \<longleftrightarrow> DPMANT x AND DP_MBIT (DP_MBITS - 1) = DP_MBIT (DP_MBITS - 1)"

definition ieee754dp_xcpt :: "ieee754_csr \<Rightarrow> ieee754dp \<Rightarrow> ieee754dp" where
  "ieee754dp_xcpt c r = (if \<not> TSTX c then r else ieee754_xcpt r)"

definition ieee754dp_nanxcpt :: "ieee754_csr \<Rightarrow> ieee754dp \<Rightarrow> ieee754_csr \<times> ieee754dp" where
  "ieee754dp_nanxcpt c r =
     (if \<not> ieee754dp_issnan r then (c, r)
      else
        let (c, enabled) = SETANDTESTCX IEEE754_INVALID_OPERATION c
        in if \<not> enabled then
             let r = builddp (DPSIGN r) (DPBEXP r) (DPMANT r AND NOT (DP_MBIT (DP_MBITS - 1)))
             in if ieee754dp_isnan r then (c, r) else (c, ieee754dp_indef)
           else (c, ieee754_xcpt r))"

definition ieee754dp_bestnan :: "ieee754dp \<Rightarrow> ieee754dp \<Rightarrow> ieee754dp" where
  "ieee754dp_bestnan x y = (if DPMANT x > DPMANT y then x else y)"

section \<open>Rounding and packing\<close>

definition ieee754dp_format :: "ieee754_csr \<Rightarrow> bool \<Rightarrow> int \<Rightarrow> u64 \<Rightarrow> ieee754_csr \<times> ieee754dp" where
  "ieee754dp_format =
     fp_format DP_MBITS DP_EMIN DP_EMAX DP_EBIAS
       ieee754dp_zero ieee754dp_min ieee754dp_inf ieee754dp_max builddp"

definition DPNORMRET2 :: "ieee754_csr \<Rightarrow> bool \<Rightarrow> int \<Rightarrow> u64 \<Rightarrow> ieee754_csr \<times> ieee754dp" where
  "DPNORMRET2 c s e m =
     (let (c, V) = ieee754dp_format c s e m
      in if TSTX c then (c, ieee754dp_xcpt c V) else (c, V))"

section \<open>Double precision as an instance\<close>

abbreviation dp_val :: "ieee754dp \<Rightarrow> real" where "dp_val \<equiv> fp_val DP_MBITS DP_EMIN"
abbreviation dp_fin :: "ieee754dp \<Rightarrow> bool" where "dp_fin \<equiv> fp_fin DP_MBITS"
abbreviation dp_correct :: "rmode \<Rightarrow> real \<Rightarrow> ieee754dp \<Rightarrow> bool" where
  "dp_correct \<equiv> fp_correct DP_MBITS DP_EMIN DP_EMAX"
abbreviation dp_flags :: "ieee754_csr \<Rightarrow> real \<Rightarrow> 5 word" where
  "dp_flags c \<equiv> ieee_flags DP_MBITS DP_EMIN DP_EMAX (uf_enabled c) (rmode_of c)"

interpretation dp: fp_word DP_MBITS DP_EMIN DP_EMAX DP_EBIAS "TYPE(64)"
  by unfold_locales simp_all

lemma dp_fields: "DPSIGN = fsign" "DPBEXP = fbexp DP_MBITS" "DPMANT = fmant DP_MBITS" "builddp = fbuild DP_MBITS"
  by (simp_all add: fun_eq_iff DPSIGN_def fsign_def DPBEXP_def fbexp_def DPMANT_def fmant_def builddp_def fbuild_def)

lemma dp_constants: "ieee754dp_zero = fp_zero DP_MBITS" "ieee754dp_min = fp_min DP_MBITS"
  "ieee754dp_inf = fp_inf DP_MBITS" "ieee754dp_max = fp_max DP_MBITS"
  by (rule ext; rename_tac s; case_tac s; simp add: ieee754dp_zero_def ieee754dp_min_def ieee754dp_inf_def ieee754dp_max_def
    ieee754dp_spcvals_def DPSTR_def dp_fields fp_zero_def fp_min_def fp_inf_def fp_max_def mask_eq_exp_minus_1)+

lemma dp_explode: "EXPLODEDP = fp_explode DP_MBITS DP_EMIN DP_EMAX DP_EBIAS"
  by (simp add: fun_eq_iff EXPLODEDP_def fp_explode_def dp_fields DP_MBIT_def Let_def)

lemma dp_class: "ieee754dp_class x = fp_class DP_MBITS x"
  by (cases "EXPLODEDP x") (use dp.explode_class [of x] in \<open>simp add: ieee754dp_class_def dp_explode\<close>)

lemma dp_xcpt [simp]: "ieee754dp_xcpt c r = r"
  by (simp add: ieee754dp_xcpt_def)

lemma dp_format: "ieee754dp_format = fp_fmt DP_MBITS DP_EMIN DP_EMAX"
  by (simp add: ieee754dp_format_def fp_fmt_def dp_fields dp_constants)

lemma dp_normret: "DPNORMRET2 = fp_fmt DP_MBITS DP_EMIN DP_EMAX"
  by (simp add: fun_eq_iff DPNORMRET2_def dp_format split: prod.split)

lemma dp_indef: "ieee754dp_nanxcpt c ieee754dp_indef = (c, ieee754dp_indef)"
  "ieee754dp_class ieee754dp_indef = CLASS_QNAN"
  by (simp_all add: ieee754dp_nanxcpt_def ieee754dp_issnan_def ieee754dp_indef_def ieee754dp_spcvals_def DPSTR_def
    builddp_def DPMANT_def DP_MBIT_def ieee754dp_class_def EXPLODEDP_def DPSIGN_def DPBEXP_def)

end
