(* ===== verification/Dp_Arith.thy ===== *)
theory Dp_Arith
  imports Ieee754dp
begin

text \<open>
  Double precision addition, subtraction, multiplication and division
  (\<^verbatim>\<open>dp_add.c\<close>, \<^verbatim>\<open>dp_sub.c\<close>, \<^verbatim>\<open>dp_mul.c\<close>, \<^verbatim>\<open>dp_div.c\<close>). Each definition is the whole function: the
  operands are unpacked and flushed, \<^verbatim>\<open>switch (CLPAIR(xc, yc))\<close> is the case expression over the two
  classes in the order of precedence of its labels, denormal operands are normalised, and the
  arithmetic tail follows. A function takes the csr and returns it updated with the result.
\<close>

section \<open>The code\<close>

definition ieee754dp_add :: "ieee754_csr \<Rightarrow> ieee754dp \<Rightarrow> ieee754dp \<Rightarrow> ieee754_csr \<times> ieee754dp" where
  "ieee754dp_add c x y =
     (let (xc, xs, xe, xm) = EXPLODEDP x;
          (yc, ys, ye, ym) = EXPLODEDP y;
          c = CLEARCX c;
          (c, x, xc, xe, xm) = FLUSHDP c x xc xs xe xm;
          (c, y, yc, ye, ym) = FLUSHDP c y yc ys ye ym
      in case (xc, yc) of
           (CLASS_SNAN, _) \<Rightarrow> ieee754dp_nanxcpt (SETCX IEEE754_INVALID_OPERATION c) ieee754dp_indef
         | (_, CLASS_SNAN) \<Rightarrow> ieee754dp_nanxcpt (SETCX IEEE754_INVALID_OPERATION c) ieee754dp_indef
         | (CLASS_QNAN, _) \<Rightarrow> (c, x)
         | (_, CLASS_QNAN) \<Rightarrow> (c, y)
         | (CLASS_INF, CLASS_INF) \<Rightarrow>
             if xs = ys then (c, x)
             else let c = SETCX IEEE754_INVALID_OPERATION c in (c, ieee754dp_xcpt c ieee754dp_indef)
         | (_, CLASS_INF) \<Rightarrow> (c, y)
         | (CLASS_INF, _) \<Rightarrow> (c, x)
         | (CLASS_ZERO, CLASS_ZERO) \<Rightarrow>
             if xs = ys then (c, x) else (c, ieee754dp_zero (csr_rm c = IEEE754_RD))
         | (_, CLASS_ZERO) \<Rightarrow> (c, x)
         | (CLASS_ZERO, _) \<Rightarrow> (c, y)
         | _ \<Rightarrow>
             let (xm, xe) = (if xc = CLASS_DNORM then DPDNORMx (xm, xe) else (xm, xe));
                 (ym, ye) = (if yc = CLASS_DNORM then DPDNORMx (ym, ye) else (ym, ye))
             in fp_add_core DP_MBITS DPNORMRET2 ieee754dp_zero c xs xe xm ys ye ym)"

definition ieee754dp_sub :: "ieee754_csr \<Rightarrow> ieee754dp \<Rightarrow> ieee754dp \<Rightarrow> ieee754_csr \<times> ieee754dp" where
  "ieee754dp_sub c x y =
     (let (xc, xs, xe, xm) = EXPLODEDP x;
          (yc, ys, ye, ym) = EXPLODEDP y;
          c = CLEARCX c;
          (c, x, xc, xe, xm) = FLUSHDP c x xc xs xe xm;
          (c, y, yc, ye, ym) = FLUSHDP c y yc ys ye ym
      in case (xc, yc) of
           (CLASS_SNAN, _) \<Rightarrow> ieee754dp_nanxcpt (SETCX IEEE754_INVALID_OPERATION c) ieee754dp_indef
         | (_, CLASS_SNAN) \<Rightarrow> ieee754dp_nanxcpt (SETCX IEEE754_INVALID_OPERATION c) ieee754dp_indef
         | (CLASS_QNAN, _) \<Rightarrow> (c, x)
         | (_, CLASS_QNAN) \<Rightarrow> (c, y)
         | (CLASS_INF, CLASS_INF) \<Rightarrow>
             if xs \<noteq> ys then (c, x)
             else let c = SETCX IEEE754_INVALID_OPERATION c in (c, ieee754dp_xcpt c ieee754dp_indef)
         | (_, CLASS_INF) \<Rightarrow> (c, ieee754dp_inf (\<not> ys))
         | (CLASS_INF, _) \<Rightarrow> (c, x)
         | (CLASS_ZERO, CLASS_ZERO) \<Rightarrow>
             if xs \<noteq> ys then (c, x) else (c, ieee754dp_zero (csr_rm c = IEEE754_RD))
         | (_, CLASS_ZERO) \<Rightarrow> (c, x)
         | (CLASS_ZERO, _) \<Rightarrow> (c, builddp (\<not> DPSIGN y) (DPBEXP y) (DPMANT y))
         | _ \<Rightarrow>
             let (xm, xe) = (if xc = CLASS_DNORM then DPDNORMx (xm, xe) else (xm, xe));
                 (ym, ye) = (if yc = CLASS_DNORM then DPDNORMx (ym, ye) else (ym, ye));
                 ys = (\<not> ys)
             in fp_add_core DP_MBITS DPNORMRET2 ieee754dp_zero c xs xe xm ys ye ym)"

definition ieee754dp_mul :: "ieee754_csr \<Rightarrow> ieee754dp \<Rightarrow> ieee754dp \<Rightarrow> ieee754_csr \<times> ieee754dp" where
  "ieee754dp_mul c x y =
     (let (xc, xs, xe, xm) = EXPLODEDP x;
          (yc, ys, ye, ym) = EXPLODEDP y;
          c = CLEARCX c;
          (c, x, xc, xe, xm) = FLUSHDP c x xc xs xe xm;
          (c, y, yc, ye, ym) = FLUSHDP c y yc ys ye ym
      in case (xc, yc) of
           (CLASS_SNAN, _) \<Rightarrow> ieee754dp_nanxcpt (SETCX IEEE754_INVALID_OPERATION c) ieee754dp_indef
         | (_, CLASS_SNAN) \<Rightarrow> ieee754dp_nanxcpt (SETCX IEEE754_INVALID_OPERATION c) ieee754dp_indef
         | (CLASS_QNAN, _) \<Rightarrow> (c, x)
         | (_, CLASS_QNAN) \<Rightarrow> (c, y)
         | (CLASS_INF, CLASS_ZERO) \<Rightarrow>
             let c = SETCX IEEE754_INVALID_OPERATION c in (c, ieee754dp_xcpt c ieee754dp_indef)
         | (CLASS_ZERO, CLASS_INF) \<Rightarrow>
             let c = SETCX IEEE754_INVALID_OPERATION c in (c, ieee754dp_xcpt c ieee754dp_indef)
         | (_, CLASS_INF) \<Rightarrow> (c, ieee754dp_inf (xs \<noteq> ys))
         | (CLASS_INF, _) \<Rightarrow> (c, ieee754dp_inf (xs \<noteq> ys))
         | (CLASS_ZERO, _) \<Rightarrow> (c, ieee754dp_zero (xs \<noteq> ys))
         | (_, CLASS_ZERO) \<Rightarrow> (c, ieee754dp_zero (xs \<noteq> ys))
         | _ \<Rightarrow>
             let (xm, xe) = (if xc = CLASS_DNORM then DPDNORMx (xm, xe) else (xm, xe));
                 (ym, ye) = (if yc = CLASS_DNORM then DPDNORMx (ym, ye) else (ym, ye))
             in fp_mul_core DP_MBITS DPNORMRET2 c xs xe xm ys ye ym)"

definition ieee754dp_div :: "ieee754_csr \<Rightarrow> ieee754dp \<Rightarrow> ieee754dp \<Rightarrow> ieee754_csr \<times> ieee754dp" where
  "ieee754dp_div c x y =
     (let (xc, xs, xe, xm) = EXPLODEDP x;
          (yc, ys, ye, ym) = EXPLODEDP y;
          c = CLEARCX c;
          (c, x, xc, xe, xm) = FLUSHDP c x xc xs xe xm;
          (c, y, yc, ye, ym) = FLUSHDP c y yc ys ye ym
      in case (xc, yc) of
           (CLASS_SNAN, _) \<Rightarrow> ieee754dp_nanxcpt (SETCX IEEE754_INVALID_OPERATION c) ieee754dp_indef
         | (_, CLASS_SNAN) \<Rightarrow> ieee754dp_nanxcpt (SETCX IEEE754_INVALID_OPERATION c) ieee754dp_indef
         | (CLASS_QNAN, _) \<Rightarrow> (c, x)
         | (_, CLASS_QNAN) \<Rightarrow> (c, y)
         | (CLASS_INF, CLASS_INF) \<Rightarrow>
             let c = SETCX IEEE754_INVALID_OPERATION c in (c, ieee754dp_xcpt c ieee754dp_indef)
         | (_, CLASS_INF) \<Rightarrow> (c, ieee754dp_zero (xs \<noteq> ys))
         | (CLASS_INF, _) \<Rightarrow> (c, ieee754dp_inf (xs \<noteq> ys))
         | (CLASS_ZERO, CLASS_ZERO) \<Rightarrow>
             let c = SETCX IEEE754_INVALID_OPERATION c in (c, ieee754dp_xcpt c ieee754dp_indef)
         | (_, CLASS_ZERO) \<Rightarrow>
             let c = SETCX IEEE754_ZERO_DIVIDE c in (c, ieee754dp_xcpt c (ieee754dp_inf (xs \<noteq> ys)))
         | (CLASS_ZERO, _) \<Rightarrow> (c, ieee754dp_zero (if xs = ys then False else True))
         | _ \<Rightarrow>
             let (xm, xe) = (if xc = CLASS_DNORM then DPDNORMx (xm, xe) else (xm, xe));
                 (ym, ye) = (if yc = CLASS_DNORM then DPDNORMx (ym, ye) else (ym, ye))
             in fp_div_core DP_MBITS DPNORMRET2 c xs xe xm ys ye ym)"

section \<open>Finite operands\<close>

text \<open>
  On finite operands, with denormals enabled, each function is the shared code between unpacking
  and formatting. Subtraction is addition of the operand with its sign flipped.
\<close>

lemmas dp_instance = dp_normret dp_explode dp_constants dp_fields DPDNORMx_def

lemma dp_fin_explode:
  assumes "dp_fin x"
  obtains k s e m where "fp_explode DP_MBITS DP_EMIN DP_EMAX 1023 x = (k, s, e, m)"
    and "k = CLASS_ZERO \<or> k = CLASS_NORM \<or> k = CLASS_DNORM"
proof -
  obtain k s e m where ex: "fp_explode DP_MBITS DP_EMIN DP_EMAX 1023 x = (k, s, e, m)" by (metis prod_cases4)
  then show thesis using that dp.explode_class [OF ex] dp.class_fin [of x] assms by auto
qed

lemma dp_add_finite:
  assumes "csr_nod c = 0" and "dp_fin x" and "dp_fin y"
  shows "ieee754dp_add c x y = fp_add_finite DP_MBITS DP_EMIN DP_EMAX (CLEARCX c) x y"
proof -
  obtain kx xs xe xm where x: "fp_explode DP_MBITS DP_EMIN DP_EMAX 1023 x = (kx, xs, xe, xm)"
    "kx = CLASS_ZERO \<or> kx = CLASS_NORM \<or> kx = CLASS_DNORM" by (rule dp_fin_explode [OF assms(2)])
  obtain ky ys ye ym where y: "fp_explode DP_MBITS DP_EMIN DP_EMAX 1023 y = (ky, ys, ye, ym)"
    "ky = CLASS_ZERO \<or> ky = CLASS_NORM \<or> ky = CLASS_DNORM" by (rule dp_fin_explode [OF assms(3)])
  show ?thesis
    using assms(1) x y by (auto simp: ieee754dp_add_def fp_add_finite_def FLUSHDP_def dp_instance)
qed

lemma dp_sub_finite:
  assumes "csr_nod c = 0" and "dp_fin x" and "dp_fin y"
  shows "ieee754dp_sub c x y = fp_add_finite DP_MBITS DP_EMIN DP_EMAX (CLEARCX c) x (fneg DP_MBITS y)"
proof -
  obtain kx xs xe xm where x: "fp_explode DP_MBITS DP_EMIN DP_EMAX 1023 x = (kx, xs, xe, xm)"
    "kx = CLASS_ZERO \<or> kx = CLASS_NORM \<or> kx = CLASS_DNORM" by (rule dp_fin_explode [OF assms(2)])
  obtain ky ys ye ym where y: "fp_explode DP_MBITS DP_EMIN DP_EMAX 1023 y = (ky, ys, ye, ym)"
    "ky = CLASS_ZERO \<or> ky = CLASS_NORM \<or> ky = CLASS_DNORM" by (rule dp_fin_explode [OF assms(3)])
  note y' = fneg_explode [OF dp.len(1) y(1)]
  show ?thesis
    using assms(1) x y y' by (auto simp: ieee754dp_sub_def fp_add_finite_def FLUSHDP_def dp_instance fneg_def)
qed

lemma dp_mul_finite:
  assumes "csr_nod c = 0" and "dp_fin x" and "dp_fin y"
  shows "ieee754dp_mul c x y = fp_mul_finite DP_MBITS DP_EMIN DP_EMAX (CLEARCX c) x y"
proof -
  obtain kx xs xe xm where x: "fp_explode DP_MBITS DP_EMIN DP_EMAX 1023 x = (kx, xs, xe, xm)"
    "kx = CLASS_ZERO \<or> kx = CLASS_NORM \<or> kx = CLASS_DNORM" by (rule dp_fin_explode [OF assms(2)])
  obtain ky ys ye ym where y: "fp_explode DP_MBITS DP_EMIN DP_EMAX 1023 y = (ky, ys, ye, ym)"
    "ky = CLASS_ZERO \<or> ky = CLASS_NORM \<or> ky = CLASS_DNORM" by (rule dp_fin_explode [OF assms(3)])
  show ?thesis
    using assms(1) x y by (auto simp: ieee754dp_mul_def fp_mul_finite_def FLUSHDP_def dp_instance)
qed

lemma dp_div_finite:
  assumes "csr_nod c = 0" and "dp_fin x" and "dp_fin y" and "dp_val y \<noteq> 0"
  shows "ieee754dp_div c x y = fp_div_finite DP_MBITS DP_EMIN DP_EMAX (CLEARCX c) x y"
proof -
  obtain kx xs xe xm where x: "fp_explode DP_MBITS DP_EMIN DP_EMAX 1023 x = (kx, xs, xe, xm)"
    "kx = CLASS_ZERO \<or> kx = CLASS_NORM \<or> kx = CLASS_DNORM" by (rule dp_fin_explode [OF assms(2)])
  obtain ky ys ye ym where y: "fp_explode DP_MBITS DP_EMIN DP_EMAX 1023 y = (ky, ys, ye, ym)"
    "ky = CLASS_ZERO \<or> ky = CLASS_NORM \<or> ky = CLASS_DNORM" by (rule dp_fin_explode [OF assms(3)])
  have "ky \<noteq> CLASS_ZERO" using dp.val_zero_iff [OF assms(3)] assms(4) dp.explode_class [OF y(1)] by simp
  then show ?thesis
    using assms(1) x y by (auto simp: ieee754dp_div_def fp_div_finite_def FLUSHDP_def dp_instance)
qed

section \<open>Concrete operands\<close>

text \<open>Values of a few words, and runs of the four functions in the reset state of the csr.\<close>

lemma dp_ground:
  "dp_fin 0x3ff0000000000000" "dp_fin 0x3ca0000000000000" "dp_fin 0x4008000000000000" "dp_fin 0x3ff0000000000001"
  "dp_val 0x3ff0000000000000 = 1" "dp_val 0x3ca0000000000000 = 1 / 2 ^ 53" "dp_val 0x4008000000000000 = 3" "dp_val 0x3ff0000000000001 = 1 + 1 / 2 ^ 52"
  by (simp_all add: ground_value)

lemma dp_runs:
  "ieee754dp_add (csr_of_fcr31 0) 0x3ff0000000000000 0x3ca0000000000000 = (csr_of_fcr31 0x1004, 0x3ff0000000000000)"
  "ieee754dp_sub (csr_of_fcr31 0) 0x3ff0000000000000 0x3ca0000000000000 = (csr_of_fcr31 0, 0x3fefffffffffffff)"
  "ieee754dp_mul (csr_of_fcr31 0) 0x3ff0000000000001 0x4008000000000000 = (csr_of_fcr31 0x1004, 0x4008000000000002)"
  "ieee754dp_div (csr_of_fcr31 0) 0x3ff0000000000000 0x4008000000000000 = (csr_of_fcr31 0x1004, 0x3fd5555555555555)"
  by code_simp+

section \<open>Correct rounding\<close>

text \<open>
  C5. Double precision addition: with denormals enabled, for finite operands the result of
  \<^verbatim>\<open>ieee754dp_add\<close> is the exact sum of the two real values rounded to the format in the current
  rounding mode (or the overflow result of that mode); an exact zero has the sign of equal signed
  operands and else is positive except when rounding down. The cause and sticky exception bits
  are exactly those of the specification, and none when an operand is zero.
\<close>

theorem dp_add_correct:
  assumes "csr_nod c = 0" and "dp_fin x" and "dp_fin y" and "v = dp_val x + dp_val y"
  shows "\<exists>r. ieee754dp_add c x y =
      (if dp_val x = 0 \<or> dp_val y = 0 \<or> v = 0 then CLEARCX c else SETCX (dp_flags c v) (CLEARCX c), r) \<and>
    (if v = 0 then r = ieee754dp_zero (if DPSIGN x = DPSIGN y then DPSIGN x else csr_rm c = IEEE754_RD)
     else dp_correct (rmode_of c) v r)"
  using dp.add_finite_correct [OF _ assms(2-4), of "CLEARCX c"] assms(1)
  unfolding dp_add_finite [OF assms(1-3)] dp_constants dp_fields CLEARCX_simps by blast

theorem dp_add_correct_witness:
  "dp_correct RN (1 + 1 / 2 ^ 53) 0x3ff0000000000000 \<and>
   csr_of_fcr31 0x1004 = SETCX (dp_flags (csr_of_fcr31 0) (1 + 1 / 2 ^ 53)) (CLEARCX (csr_of_fcr31 0))"
  using dp_add_correct [of "csr_of_fcr31 0" "0x3ff0000000000000" "0x3ca0000000000000", OF _ _ _ refl]
  by (simp add: dp_ground csr_reset dp_runs)

text \<open>
  C6. Double precision subtraction rounds the exact difference of two finite operands in the same
  way; equal operands give a zero that is positive except when rounding down.
\<close>

theorem dp_sub_correct:
  assumes "csr_nod c = 0" and "dp_fin x" and "dp_fin y" and "v = dp_val x - dp_val y"
  shows "\<exists>r. ieee754dp_sub c x y =
      (if dp_val x = 0 \<or> dp_val y = 0 \<or> v = 0 then CLEARCX c else SETCX (dp_flags c v) (CLEARCX c), r) \<and>
    (if v = 0 then r = ieee754dp_zero (if DPSIGN x \<noteq> DPSIGN y then DPSIGN x else csr_rm c = IEEE754_RD)
     else dp_correct (rmode_of c) v r)"
proof -
  have y: "dp_fin (fneg DP_MBITS y)" "v = dp_val x + dp_val (fneg DP_MBITS y)"
    "dp_val (fneg DP_MBITS y) = 0 \<longleftrightarrow> dp_val y = 0" "fsign x = fsign (fneg DP_MBITS y) \<longleftrightarrow> fsign x \<noteq> fsign y"
    using assms(3,4) by (auto simp: fneg_val)
  from dp.add_finite_correct [OF _ assms(2) y(1,2), of "CLEARCX c"] assms(1) show ?thesis
    unfolding dp_sub_finite [OF assms(1-3)] dp_constants dp_fields CLEARCX_simps y(3,4) by blast
qed

theorem dp_sub_correct_witness:
  "dp_correct RN (1 - 1 / 2 ^ 53) 0x3fefffffffffffff \<and>
   csr_of_fcr31 0 = SETCX (dp_flags (csr_of_fcr31 0) (1 - 1 / 2 ^ 53)) (CLEARCX (csr_of_fcr31 0))"
  using dp_sub_correct [of "csr_of_fcr31 0" "0x3ff0000000000000" "0x3ca0000000000000", OF _ _ _ refl]
  by (simp add: dp_ground csr_reset dp_runs)

text \<open>
  C7. Double precision multiplication: the high word put together from half word products with its
  sticky bit leads to the correctly rounded product of two finite operands, with the exceptions of
  the specification; a zero product has the exclusive or of the signs.
\<close>

theorem dp_mul_correct:
  assumes "csr_nod c = 0" and "dp_fin x" and "dp_fin y" and "v = dp_val x * dp_val y"
  shows "\<exists>r. ieee754dp_mul c x y = (if v = 0 then CLEARCX c else SETCX (dp_flags c v) (CLEARCX c), r) \<and>
    (if v = 0 then r = ieee754dp_zero (DPSIGN x \<noteq> DPSIGN y) else dp_correct (rmode_of c) v r)"
  using dp.mul_finite_correct [OF _ assms(2,3) _ assms(4), of "CLEARCX c" 32] assms(1)
  unfolding dp_mul_finite [OF assms(1-3)] dp_constants dp_fields CLEARCX_simps by simp

theorem dp_mul_correct_witness:
  "dp_correct RN ((1 + 1 / 2 ^ 52) * 3) 0x4008000000000002 \<and>
   csr_of_fcr31 0x1004 = SETCX (dp_flags (csr_of_fcr31 0) ((1 + 1 / 2 ^ 52) * 3)) (CLEARCX (csr_of_fcr31 0))"
  using dp_mul_correct [of "csr_of_fcr31 0" "0x3ff0000000000001" "0x4008000000000000", OF _ _ _ refl]
  by (simp add: dp_ground csr_reset dp_runs)

text \<open>
  C8. Double precision division: the bitwise loop with its sticky remainder leads to the correctly
  rounded quotient of a finite operand by a finite nonzero one, with the exceptions of the
  specification.
\<close>

theorem dp_div_correct:
  assumes "csr_nod c = 0" and "dp_fin x" and "dp_fin y" and "dp_val y \<noteq> 0" and "v = dp_val x / dp_val y"
  shows "\<exists>r. ieee754dp_div c x y = (if v = 0 then CLEARCX c else SETCX (dp_flags c v) (CLEARCX c), r) \<and>
    (if v = 0 then r = ieee754dp_zero (DPSIGN x \<noteq> DPSIGN y) else dp_correct (rmode_of c) v r)"
  using dp.div_finite_correct [OF _ assms(2-5), of "CLEARCX c"] assms(1)
  unfolding dp_div_finite [OF assms(1-4)] dp_constants dp_fields CLEARCX_simps by blast

theorem dp_div_correct_witness:
  "dp_correct RN (1 / 3) 0x3fd5555555555555 \<and>
   csr_of_fcr31 0x1004 = SETCX (dp_flags (csr_of_fcr31 0) (1 / 3)) (CLEARCX (csr_of_fcr31 0))"
  using dp_div_correct [of "csr_of_fcr31 0" "0x3ff0000000000000" "0x4008000000000000", OF _ _ _ _ refl]
  by (simp add: dp_ground csr_reset dp_runs)

end
