(* ===== verification/Dp_Cmp.thy ===== *)
theory Dp_Cmp
  imports Dp_Arith
begin

text \<open>
  Double precision comparison and the sign operations (\<^verbatim>\<open>dp_cmp.c\<close>, \<^verbatim>\<open>dp_simple.c\<close>, the inline
  comparisons of \<^verbatim>\<open>ieee754.h\<close>). The result of \<^verbatim>\<open>ieee754dp_cmp\<close>, an \<^verbatim>\<open>int\<close> that is 0 or 1, is a
  \<open>bool\<close>; \<^verbatim>\<open>x.bits\<close> read as a signed \<^verbatim>\<open>int\<close> is \<open>sint x\<close>.
\<close>

section \<open>The code\<close>

definition ieee754dp_cmp ::
  "ieee754_csr \<Rightarrow> ieee754dp \<Rightarrow> ieee754dp \<Rightarrow> 4 word \<Rightarrow> bool \<Rightarrow> ieee754_csr \<times> bool" where
  "ieee754dp_cmp c x y cmp sig =
     (let (xc, xs, xe, xm) = EXPLODEDP x;
          (yc, ys, ye, ym) = EXPLODEDP y;
          (c, x, xc, xe, xm) = FLUSHDP c x xc xs xe xm;
          (c, y, yc, ye, ym) = FLUSHDP c y yc ys ye ym;
          c = CLEARCX c
      in if ieee754dp_isnan x \<or> ieee754dp_isnan y then
           let c = (if sig \<or> xc = CLASS_SNAN \<or> yc = CLASS_SNAN then SETCX IEEE754_INVALID_OPERATION c else c)
           in if cmp AND IEEE754_CUN \<noteq> 0 then (c, True)
              else if cmp AND (IEEE754_CLT OR IEEE754_CGT) \<noteq> 0 \<and> sig then
                let (c, enabled) = SETANDTESTCX IEEE754_INVALID_OPERATION c
                in if enabled then (c, ieee754si_xcpt c 0 \<noteq> 0) else (c, False)
              else (c, False)
         else
           let vx = cmp_key x; vy = cmp_key y
           in if sint vx < sint vy then (c, cmp AND IEEE754_CLT \<noteq> 0)
              else if vx = vy then (c, cmp AND IEEE754_CEQ \<noteq> 0)
              else (c, cmp AND IEEE754_CGT \<noteq> 0))"

definition ieee754dp_eq :: "ieee754_csr \<Rightarrow> ieee754dp \<Rightarrow> ieee754dp \<Rightarrow> ieee754_csr \<times> bool" where
  "ieee754dp_eq c x y = ieee754dp_cmp c x y IEEE754_CEQ False"

definition ieee754dp_ne :: "ieee754_csr \<Rightarrow> ieee754dp \<Rightarrow> ieee754dp \<Rightarrow> ieee754_csr \<times> bool" where
  "ieee754dp_ne c x y = ieee754dp_cmp c x y (IEEE754_CLT OR IEEE754_CGT OR IEEE754_CUN) False"

definition ieee754dp_lt :: "ieee754_csr \<Rightarrow> ieee754dp \<Rightarrow> ieee754dp \<Rightarrow> ieee754_csr \<times> bool" where
  "ieee754dp_lt c x y = ieee754dp_cmp c x y IEEE754_CLT False"

definition ieee754dp_le :: "ieee754_csr \<Rightarrow> ieee754dp \<Rightarrow> ieee754dp \<Rightarrow> ieee754_csr \<times> bool" where
  "ieee754dp_le c x y = ieee754dp_cmp c x y (IEEE754_CLT OR IEEE754_CEQ) False"

definition ieee754dp_gt :: "ieee754_csr \<Rightarrow> ieee754dp \<Rightarrow> ieee754dp \<Rightarrow> ieee754_csr \<times> bool" where
  "ieee754dp_gt c x y = ieee754dp_cmp c x y IEEE754_CGT False"

definition ieee754dp_ge :: "ieee754_csr \<Rightarrow> ieee754dp \<Rightarrow> ieee754dp \<Rightarrow> ieee754_csr \<times> bool" where
  "ieee754dp_ge c x y = ieee754dp_cmp c x y (IEEE754_CGT OR IEEE754_CEQ) False"

definition ieee754dp_finite :: "ieee754dp \<Rightarrow> bool" where
  "ieee754dp_finite x \<longleftrightarrow> DPBEXP x \<noteq> DP_EMAX + 1 + DP_EBIAS"

text \<open>\<^verbatim>\<open>DPSIGN(x) = s\<close>\<close>

definition DP_SETSIGN :: "ieee754dp \<Rightarrow> bool \<Rightarrow> ieee754dp" where
  "DP_SETSIGN x s = builddp s (DPBEXP x) (DPMANT x)"

definition ieee754dp_copysign :: "ieee754_csr \<Rightarrow> ieee754dp \<Rightarrow> ieee754dp \<Rightarrow> ieee754_csr \<times> ieee754dp" where
  "ieee754dp_copysign c x y = (CLEARCX c, DP_SETSIGN x (DPSIGN y))"

definition ieee754dp_neg :: "ieee754_csr \<Rightarrow> ieee754dp \<Rightarrow> ieee754_csr \<times> ieee754dp" where
  "ieee754dp_neg c x =
     (let (xc, xs, xe, xm) = EXPLODEDP x;
          c = CLEARCX c;
          (c, x, xc, xe, xm) = FLUSHDP c x xc xs xe xm;
          x = DP_SETSIGN x (\<not> DPSIGN x)
      in if xc = CLASS_SNAN then
           let y = ieee754dp_indef;
               c = SETCX IEEE754_INVALID_OPERATION c;
               y = DP_SETSIGN y (DPSIGN x)
           in ieee754dp_nanxcpt c y
         else if ieee754dp_isnan x then ieee754dp_nanxcpt c x
         else (c, x))"

definition ieee754dp_abs :: "ieee754_csr \<Rightarrow> ieee754dp \<Rightarrow> ieee754_csr \<times> ieee754dp" where
  "ieee754dp_abs c x =
     (let (xc, xs, xe, xm) = EXPLODEDP x;
          c = CLEARCX c;
          (c, x, xc, xe, xm) = FLUSHDP c x xc xs xe xm
      in if xc = CLASS_SNAN then
           ieee754dp_nanxcpt (SETCX IEEE754_INVALID_OPERATION c) ieee754dp_indef
         else if ieee754dp_isnan x then ieee754dp_nanxcpt c x
         else (c, DP_SETSIGN x False))"

section \<open>Correctness\<close>

lemma dp_isnan: "ieee754dp_isnan x \<longleftrightarrow> fp_class DP_MBITS x = CLASS_SNAN \<or> fp_class DP_MBITS x = CLASS_QNAN"
  unfolding ieee754dp_isnan_def dp_class by (cases "fp_class DP_MBITS x") simp_all

lemma dp_flush_off: "csr_nod c = 0 \<Longrightarrow> FLUSHDP c x xc xs xe xm = (c, x, xc, xe, xm)"
  by (simp add: FLUSHDP_def)

lemma dp_cmp_number:
  assumes "csr_nod c = 0" and "\<not> ieee754dp_isnan x" and "\<not> ieee754dp_isnan y"
  shows "ieee754dp_cmp c x y cmp sig = (CLEARCX c, cmp AND (if dp_val x < dp_val y then IEEE754_CLT
    else if dp_val x = dp_val y then IEEE754_CEQ else IEEE754_CGT) \<noteq> 0)"
proof -
  obtain xc xs xe xm where x: "EXPLODEDP x = (xc, xs, xe, xm)" by (metis prod_cases4)
  obtain yc ys ye ym where y: "EXPLODEDP y = (yc, ys, ye, ym)" by (metis prod_cases4)
  note ord = cmp_key_order [of DP_MBITS x y DP_EMIN] cmp_key_order [of DP_MBITS y x DP_EMIN]
  show ?thesis using assms ord by (simp add: ieee754dp_cmp_def x y dp_flush_off Let_def)
qed

lemma dp_cmp_correct:
  assumes "csr_nod c = 0"
  shows "ieee754dp_cmp c x y cmp sig =
    (if ieee754dp_isnan x \<or> ieee754dp_isnan y then
       (if sig \<or> ieee754dp_class x = CLASS_SNAN \<or> ieee754dp_class y = CLASS_SNAN
        then SETCX IEEE754_INVALID_OPERATION (CLEARCX c) else CLEARCX c, cmp AND IEEE754_CUN \<noteq> 0)
     else (CLEARCX c, cmp AND (if dp_val x < dp_val y then IEEE754_CLT
       else if dp_val x = dp_val y then IEEE754_CEQ else IEEE754_CGT) \<noteq> 0))"
proof (cases "ieee754dp_isnan x \<or> ieee754dp_isnan y")
  case True
  obtain xc xs xe xm where x: "EXPLODEDP x = (xc, xs, xe, xm)" by (metis prod_cases4)
  obtain yc ys ye ym where y: "EXPLODEDP y = (yc, ys, ye, ym)" by (metis prod_cases4)
  have k: "ieee754dp_class x = xc" "ieee754dp_class y = yc" by (simp_all add: ieee754dp_class_def x y)
  show ?thesis using True assms
    by (simp add: ieee754dp_cmp_def x y k dp_flush_off Let_def SETANDTESTCX_def SETCX_SETCX)
next
  case False
  then show ?thesis using dp_cmp_number [OF assms] by simp
qed

lemma dp_setsign: "DP_SETSIGN x s = (if s = DPSIGN x then x else fneg DP_MBITS x)"
  using fbuild_fields [of DP_MBITS x] by (auto simp: DP_SETSIGN_def fneg_def dp_fields)

lemma dp_fneg_isnan: "ieee754dp_isnan (fneg DP_MBITS x) = ieee754dp_isnan x"
proof -
  obtain k s e m where "fp_explode DP_MBITS DP_EMIN DP_EMAX DP_EBIAS x = (k, s, e, m)" by (metis prod_cases4)
  from this fneg_explode [OF _ this] show ?thesis
    by (simp add: ieee754dp_isnan_def ieee754dp_class_def dp_explode)
qed

lemma dp_fneg_fneg: "fneg DP_MBITS (fneg DP_MBITS (x :: ieee754dp)) = x"
  by (rule fields_eqI [of DP_MBITS]) simp_all

lemma dp_neg_number:
  assumes "csr_nod c = 0" and "\<not> ieee754dp_isnan x"
  shows "ieee754dp_neg c x = (CLEARCX c, fneg DP_MBITS x)"
proof -
  obtain xc xs xe xm where x: "EXPLODEDP x = (xc, xs, xe, xm)" by (metis prod_cases4)
  then have "xc \<noteq> CLASS_SNAN" using assms(2) by (auto simp: ieee754dp_isnan_def ieee754dp_class_def)
  then show ?thesis using assms by (simp add: ieee754dp_neg_def x dp_flush_off dp_setsign dp_fneg_isnan)
qed

lemma dp_neg_correct:
  assumes "csr_nod c = 0" and "\<not> ieee754dp_isnan x"
  shows "\<exists>r. ieee754dp_neg c x = (CLEARCX c, r) \<and> DPSIGN r = (\<not> DPSIGN x) \<and> dp_val r = - dp_val x \<and>
    ieee754dp_neg c r = (CLEARCX c, x)"
  using assms by (simp add: dp_neg_number dp_fneg_isnan dp_fneg_fneg dp_fields fneg_val)

lemma dp_abs_correct:
  assumes "csr_nod c = 0" and "\<not> ieee754dp_isnan x"
  shows "\<exists>r. ieee754dp_abs c x = (CLEARCX c, r) \<and> DPSIGN r = False \<and> dp_val r = \<bar>dp_val x\<bar>"
proof -
  obtain xc xs xe xm where x: "EXPLODEDP x = (xc, xs, xe, xm)" by (metis prod_cases4)
  then have "xc \<noteq> CLASS_SNAN" using assms(2) by (auto simp: ieee754dp_isnan_def ieee754dp_class_def)
  then have "ieee754dp_abs c x = (CLEARCX c, DP_SETSIGN x False)"
    using assms by (simp add: ieee754dp_abs_def x dp_flush_off)
  moreover have "dp_val x = sgn_of (fsign x) * \<bar>dp_val x\<bar>" by (simp add: fp_val_def)
  ultimately show ?thesis by (simp add: dp_setsign dp_fields fneg_val sgn_of_def split: if_splits)
qed

end
