(* ===== verification/Dp_Conv.thy ===== *)
theory Dp_Conv
  imports Dp_Cmp
begin

text \<open>
  Conversions between double precision and integers (\<^verbatim>\<open>dp_fint.c\<close>, \<^verbatim>\<open>dp_flong.c\<close>, \<^verbatim>\<open>dp_tint.c\<close>,
  \<^verbatim>\<open>dp_tlong.c\<close>). An \<^verbatim>\<open>int\<close> is a 32 bit and an \<^verbatim>\<open>s64\<close> a 64 bit word read with \<open>sint\<close>; returning
  a 64 bit temporary as an \<^verbatim>\<open>int\<close> keeps its low 32 bits.
\<close>

section \<open>From integers\<close>

definition ieee754dp_fint :: "ieee754_csr \<Rightarrow> u32 \<Rightarrow> ieee754_csr \<times> ieee754dp" where
  "ieee754dp_fint c x =
     (let c = CLEARCX c
      in if x = 0 then (c, ieee754dp_zero False)
         else if x = 1 \<or> x = - 1 then (c, ieee754dp_one (sint x < 0))
         else if x = 10 \<or> x = - 10 then (c, ieee754dp_ten (sint x < 0))
         else
           let xs = (sint x < 0);
               xm = (ucast (int_mag x) :: u64);
               xe = int DP_MBITS;
               (xm, xe) = norm_up DP_MBITS (xm, xe)
           in (c, builddp xs (xe + DP_EBIAS) (xm AND NOT DP_HIDDEN_BIT)))"

definition ieee754dp_funs :: "ieee754_csr \<Rightarrow> u32 \<Rightarrow> ieee754_csr \<times> ieee754dp" where
  "ieee754dp_funs c u =
     (if sint u < 0 then
        let (c, r) = ieee754dp_fint c (u AND NOT (push_bit 31 1))
        in ieee754dp_add c ieee754dp_1e31 r
      else ieee754dp_fint c u)"

definition ieee754dp_flong :: "ieee754_csr \<Rightarrow> u64 \<Rightarrow> ieee754_csr \<times> ieee754dp" where
  "ieee754dp_flong = fp_fint DP_MBITS DPNORMRET2 ieee754dp_zero ieee754dp_one ieee754dp_ten"

definition ieee754dp_fulong :: "ieee754_csr \<Rightarrow> u64 \<Rightarrow> ieee754_csr \<times> ieee754dp" where
  "ieee754dp_fulong c u =
     (if sint u < 0 then
        let (c, r) = ieee754dp_flong c (u AND NOT (push_bit 63 1))
        in ieee754dp_add c ieee754dp_1e63 r
      else ieee754dp_flong c u)"

section \<open>To integers\<close>

definition ieee754dp_tint :: "ieee754_csr \<Rightarrow> ieee754dp \<Rightarrow> ieee754_csr \<times> u32" where
  "ieee754dp_tint c x =
     (let c = CLEARCX c;
          (xc, xs, xe, xm) = EXPLODEDP x;
          (c, x, xc, xe, xm) = FLUSHDP c x xc xs xe xm
      in if xc = CLASS_SNAN \<or> xc = CLASS_QNAN \<or> xc = CLASS_INF then
           let c = SETCX IEEE754_INVALID_OPERATION c in (c, ieee754si_xcpt c ieee754si_indef)
         else if xc = CLASS_ZERO then (c, 0)
         else if xe > 31 then
           let c = SETCX IEEE754_INVALID_OPERATION c in (c, ieee754si_xcpt c ieee754si_indef)
         else if xe > int DP_MBITS then
           let xm = push_bit (nat (xe - int DP_MBITS)) xm in (c, ucast (if xs then - xm else xm))
         else if xe < int DP_MBITS then
           let (rnd, sticky, xm) =
                 (if xe < -1 then let residue = xm in (False, residue \<noteq> 0, 0)
                  else
                    let residue = push_bit (nat (64 - int DP_MBITS + xe)) xm
                    in (drop_bit 63 residue \<noteq> 0, push_bit 1 residue \<noteq> 0, drop_bit (nat (int DP_MBITS - xe)) xm));
               xm = tint_round c xs rnd sticky xm
           in if drop_bit 31 xm \<noteq> 0 \<and> (\<not> xs \<or> xm \<noteq> 0x80000000) then
                let c = SETCX IEEE754_INVALID_OPERATION c in (c, ieee754si_xcpt c ieee754si_indef)
              else
                let c = (if rnd \<or> sticky then SETCX IEEE754_INEXACT c else c)
                in (c, ucast (if xs then - xm else xm))
         else (c, ucast (if xs then - xm else xm)))"

definition ieee754dp_tuns :: "ieee754_csr \<Rightarrow> ieee754dp \<Rightarrow> ieee754_csr \<times> u32" where
  "ieee754dp_tuns c x =
     (let hb = ieee754dp_1e31;
          (c, lt) = ieee754dp_lt c x hb
      in if lt then ieee754dp_tint c x
         else
           let (c, d) = ieee754dp_sub c x hb;
               (c, r) = ieee754dp_tint c d
           in (c, r OR push_bit 31 1))"

definition ieee754dp_tlong :: "ieee754_csr \<Rightarrow> ieee754dp \<Rightarrow> ieee754_csr \<times> u64" where
  "ieee754dp_tlong c x =
     (let c = CLEARCX c;
          (xc, xs, xe, xm) = EXPLODEDP x;
          (c, x, xc, xe, xm) = FLUSHDP c x xc xs xe xm
      in if xc = CLASS_SNAN \<or> xc = CLASS_QNAN \<or> xc = CLASS_INF then
           let c = SETCX IEEE754_INVALID_OPERATION c in (c, ieee754di_xcpt c ieee754di_indef)
         else if xc = CLASS_ZERO then (c, 0)
         else if xe \<ge> 63 then
           if xe = 63 \<and> xs \<and> xm = DP_HIDDEN_BIT then (c, - 0x8000000000000000)
           else let c = SETCX IEEE754_INVALID_OPERATION c in (c, ieee754di_xcpt c ieee754di_indef)
         else if xe > int DP_MBITS then
           let xm = push_bit (nat (xe - int DP_MBITS)) xm in (c, if xs then - xm else xm)
         else if xe < int DP_MBITS then
           let (rnd, sticky, xm) =
                 (if xe < -1 then let residue = xm in (False, residue \<noteq> 0, 0)
                  else
                    let residue = push_bit (63 - DP_MBITS) (push_bit (nat (xe + 1)) xm)
                    in (drop_bit 63 residue \<noteq> 0, push_bit 1 residue \<noteq> 0, drop_bit (nat (int DP_MBITS - xe)) xm))
           in tint_finish ieee754di_xcpt ieee754di_indef c xs rnd sticky xm
         else (c, if xs then - xm else xm))"

definition ieee754dp_tulong :: "ieee754_csr \<Rightarrow> ieee754dp \<Rightarrow> ieee754_csr \<times> u64" where
  "ieee754dp_tulong c x =
     (let hb = ieee754dp_1e63;
          (c, lt) = ieee754dp_lt c x hb
      in if lt then ieee754dp_tlong c x
         else
           let (c, d) = ieee754dp_sub c x hb;
               (c, r) = ieee754dp_tlong c d
           in (c, r OR push_bit 63 1))"

section \<open>Correctness\<close>

lemma dp_unit_consts: "dp.fp_const ieee754dp_one 1" "dp.fp_const ieee754dp_ten 10"
  by (simp_all add: dp.fp_const_def all_bool_eq ieee754dp_one_def ieee754dp_ten_def ieee754dp_spcvals_def DPSTR_def builddp_def
    fp_fin_def fp_class_def fp_val_def fbexp_def fmant_def fsign_def power_int_def power_one_over)

lemma dp_fint_norm:
  assumes "x \<noteq> 0"
  obtains w e where "norm_up DP_MBITS (ucast (int_mag x) :: u64, int DP_MBITS) = (w, e)"
    and "dp_fin (builddp (sint x < 0) (e + DP_EBIAS) (w AND NOT DP_HIDDEN_BIT))"
    and "dp_val (builddp (sint x < 0) (e + DP_EBIAS) (w AND NOT DP_HIDDEN_BIT)) = of_int (sint (x :: u32))"
proof -
  define m where "m = (ucast (int_mag x) :: u64)"
  have "unat (int_mag x) < 2 ^ LENGTH(32)" by (rule unsigned_less)
  then have u: "unat m = unat (int_mag x)" "unat m < 4294967296" unfolding m_def by (simp_all add: unsigned_ucast_eq take_bit_nat_eq_self)
  have "sint x \<noteq> 0" using assms signed_word_eqI [of x 0] by auto
  then have pos: "0 < unat m" using unat_int_mag [of x] u by linarith
  have "unat m < 2 ^ (DP_MBITS + 1)" using u(2) by simp
  then obtain w j where w: "norm_up DP_MBITS (m, int DP_MBITS) = (w, int DP_MBITS - int j)" "unat w = unat m * 2 ^ j"
    "2 ^ DP_MBITS \<le> unat w" "unat w < 2 ^ (DP_MBITS + 1)"
    by (rule norm_up [OF pos]) simp
  have "1 * 2 ^ j \<le> unat m * 2 ^ j" using pos by (intro mult_right_mono) simp_all
  then have "(2::nat) ^ j < 2 ^ (DP_MBITS + 1)" using w(2,4) by linarith
  then have "j < DP_MBITS + 1" by (rule power_less_imp_less_exp [rotated]) simp
  then have e: "DP_EMIN \<le> int DP_MBITS - int j" "int DP_MBITS - int j \<le> DP_EMAX" by simp_all
  have "real (unat w) * 2 powi (int DP_MBITS - int j - int DP_MBITS) = unat m"
    unfolding w(2) by (simp add: power_int_minus power_int_of_nat)
  moreover have "real_of_int (sint x) = sgn_of (sint x < 0) * real_of_int \<bar>sint x\<bar>" by (simp add: sgn_of_def)
  then have "real_of_int (sint x) = sgn_of (sint x < 0) * unat m"
    unfolding unat_int_mag [symmetric] u(1) by simp
  ultimately show thesis using that w(1) dp.build_sig [OF w(3,4) e, of "sint x < 0"]
    unfolding m_def dp_fields DP_MBIT_def by simp
qed

text \<open>
  C33. Conversion of a 32 bit integer to double precision is exact and raises no exception, for every integer, the
  smallest included.
\<close>

theorem dp_fint_correct:
  "\<exists>r. ieee754dp_fint c x = (CLEARCX c, r) \<and> dp_fin r \<and> dp_val r = sint x"
proof -
  have z: "dp_fin (ieee754dp_zero False)" "dp_val (ieee754dp_zero False) = 0"
    using dp.build_denorm(1,3) [of 0 False] by (simp_all add: dp_constants fp_zero_def)
  show ?thesis
  proof (cases "x = 0 \<or> x = 1 \<or> x = - 1 \<or> x = 10 \<or> x = - 10")
    case True
    then show ?thesis using z dp_unit_consts unfolding dp.fp_const_def ieee754dp_fint_def Let_def by (auto simp: sgn_of_def)
  next
    case False
    then show ?thesis by (auto simp: ieee754dp_fint_def intro: dp_fint_norm [of x])
  qed
qed

text \<open>
  Conversion of a 64 bit integer to double precision rounds it in the current mode with exactly the exceptions of the
  specification; zero gives the positive zero.
\<close>

lemma dp_flong_correct:
  assumes "csr_nod c = 0"
  shows "\<exists>r. ieee754dp_flong c x = (if x = 0 then CLEARCX c else SETCX (dp_flags c (sint x)) (CLEARCX c), r) \<and>
    (if x = 0 then r = ieee754dp_zero False else dp_correct (rmode_of c) (sint x) r)"
  unfolding ieee754dp_flong_def dp_normret
  by (rule dp.fp_fint_correct [OF assms _ _ _ _ _ dp_unit_consts]) simp_all

lemma dp_tint_nonzero:
  assumes nod: "csr_nod c = 0" and ex: "EXPLODEDP x = (k, s, e, m)" and k: "k = CLASS_NORM \<or> k = CLASS_DNORM"
  shows "ieee754dp_tint c x = int_outcome (CLEARCX c) ieee754si_indef (dp_val x)"
proof -
  note ez = dp.explode_nonzero [OF ex [unfolded dp_explode] k]
  have m64: "unat m < 9007199254740992" using ez(4) by simp
  have kk: "k \<noteq> CLASS_SNAN \<and> k \<noteq> CLASS_QNAN \<and> k \<noteq> CLASS_INF \<and> k \<noteq> CLASS_ZERO" using k by auto
  have fin: "int_outcome (CLEARCX c) ieee754si_indef (dp_val x) =
      (let xm = tint_round (CLEARCX c) s rnd sticky xm
       in if drop_bit 31 xm \<noteq> 0 \<and> (\<not> s \<or> xm \<noteq> 0x80000000) then (SETCX IEEE754_INVALID_OPERATION (CLEARCX c), ieee754si_indef)
          else (if rnd \<or> sticky then SETCX IEEE754_INEXACT (CLEARCX c) else CLEARCX c, ucast (if s then - xm else xm)))"
    if j: "int DP_MBITS - e = int (Suc j)" and xm: "unat xm = unat m div 2 ^ Suc j"
      and b: "rnd \<longleftrightarrow> odd (unat m div 2 ^ j)" "sticky \<longleftrightarrow> unat m mod 2 ^ j \<noteq> 0" for rnd sticky j and xm :: u64
  proof -
    have "unat m div 2 ^ Suc j \<le> unat m" "(2::nat) ^ LENGTH(64) = 18446744073709551616" by (rule div_le_dividend, simp)
    then have small: "unat xm + 1 < 2 ^ LENGTH(64)" using m64 unfolding xm by linarith
    define w where "w = tint_round (CLEARCX c) s rnd sticky xm"
    define n where "n = (if s then - int (unat w) else int (unat w))"
    have "(ucast (word_of_int n :: u64) :: u32) = word_of_int n" by (rule bit_word_eqI) (auto simp: bit_simps)
    then have res: "word_of_int n = (ucast (if s then - w else w) :: u32)" unfolding tint_sign n_def by simp
    have "drop_bit 31 w \<noteq> 0 \<longleftrightarrow> 2147483648 \<le> unat w" by (simp only: drop_bit_eq_0_iff_unat) auto
    moreover have "w \<noteq> 0x80000000 \<longleftrightarrow> unat w \<noteq> 2147483648" by (simp only: word_unat_eq_iff) simp
    ultimately have "- (2 ^ (LENGTH(32) - 1)) \<le> n \<and> n < 2 ^ (LENGTH(32) - 1) \<longleftrightarrow> \<not> (drop_bit 31 w \<noteq> 0 \<and> (\<not> s \<or> w \<noteq> 0x80000000))"
      unfolding n_def by auto
    then show ?thesis
      unfolding tint_outcome [OF ez(3) j ez(2) xm small b n_def [unfolded w_def]] Let_def w_def [symmetric] res by simp
  qed
  consider (top) "31 < e" | (cut) "-1 \<le> e" "e \<le> 31" | (tiny) "e < -1" by linarith
  then show ?thesis
  proof cases
    case top
    then have "2 ^ DP_MBITS \<le> unat m" using k ez(7,8) by auto
    then have "real (2 ^ DP_MBITS) \<le> real (unat m)" by (simp only: of_nat_le_iff)
    then have "2 ^ DP_MBITS * 2 powi (e - int DP_MBITS) \<le> real (unat m) * 2 powi (e - int DP_MBITS)" by simp
    moreover have "(2::real) powi 32 \<le> 2 powi e" using top by (simp only: powi_le2)
    ultimately have "4294967296 \<le> real (unat m) * 2 powi (e - int DP_MBITS)" unfolding powi_shift2 by simp
    then have "int_outcome (CLEARCX c) ieee754si_indef (dp_val x) = (SETCX IEEE754_INVALID_OPERATION (CLEARCX c), ieee754si_indef)"
      by (intro outcome_large [OF ez(2)]) simp_all
    then show ?thesis using kk top by (simp add: ieee754dp_tint_def FLUSHDP_def Let_def ex nod)
  next
    case cut
    define j where "j = nat (51 - e)"
    have j: "j < LENGTH(64)" "nat (12 + e) = LENGTH(64) - 1 - j" "int DP_MBITS - e = int (Suc j)" "nat (int DP_MBITS - e) = Suc j"
      using cut by (simp_all add: j_def)
    note tt = fin [OF j(3) unat_drop_bit residue_bits [OF j(1,2)]]
    have "\<not> 31 < e" "\<not> 52 < e" "e < 52" "\<not> e < -1" using cut by auto
    then show ?thesis unfolding tt using kk
      by (simp add: ieee754dp_tint_def FLUSHDP_def ex nod Let_def j(4) [simplified] push_bit_double)
  next
    case tiny
    define j where "j = nat (51 - e)"
    have j: "DP_MBITS < j" "int DP_MBITS - e = int (Suc j)" using tiny by (simp_all add: j_def)
    note ca = cut_all [OF ez(4) j(1)]
    have "unat (0 :: u64) = unat m div 2 ^ Suc j" "False \<longleftrightarrow> odd (unat m div 2 ^ j)" "m \<noteq> 0 \<longleftrightarrow> unat m mod 2 ^ j \<noteq> 0"
      using ca by (simp_all add: unat_eq_0)
    note tt = fin [OF j(2) this]
    show ?thesis unfolding tt using kk tiny by (simp add: ieee754dp_tint_def FLUSHDP_def ex nod Let_def)
  qed
qed

text \<open>
  C32. Conversion of a double precision number to a 32 bit integer rounds its value in the current mode and flags an inexact
  result; a value out of range, an infinity or a NaN gives the indefinite integer and an invalid operation.
\<close>

theorem dp_tint_correct:
  assumes "csr_nod c = 0"
  shows "ieee754dp_tint c x = (if dp_fin x then int_outcome (CLEARCX c) ieee754si_indef (dp_val x)
    else (SETCX IEEE754_INVALID_OPERATION (CLEARCX c), ieee754si_indef))"
proof (cases "EXPLODEDP x")
  case (fields k s e m)
  have k: "k = fp_class DP_MBITS x" using dp.explode_class fields by (simp add: dp_explode)
  show ?thesis
  proof (cases "k = CLASS_NORM \<or> k = CLASS_DNORM")
    case True
    then show ?thesis using dp_tint_nonzero [OF assms fields True] k by (auto simp: dp.class_fin)
  next
    case False
    then show ?thesis using fields dp.class_zero(2) [of x]
      by (cases k) (simp_all add: ieee754dp_tint_def FLUSHDP_def dp.class_fin k [symmetric])
  qed
qed

theorem dp_tint_correct_witness:
  "ieee754dp_tint (csr_of_fcr31 0) 0x41e0000000000000 = (SETCX IEEE754_INVALID_OPERATION (CLEARCX (csr_of_fcr31 0)), 0x7fffffff)"
proof -
  have "dp_fin 0x41e0000000000000" "dp_val 0x41e0000000000000 = 2 ^ 31" by (simp_all add: ground_value)
  moreover have "rint RN (2 ^ 31) = 2 ^ 31" by (simp add: half_even_def)
  ultimately show ?thesis using dp_tint_correct [of "csr_of_fcr31 0" "0x41e0000000000000"]
    by (simp add: csr_reset int_outcome_def ieee754si_indef_def del: rint.simps)
qed

lemma dp_tlong_nonzero:
  assumes nod: "csr_nod c = 0" and ex: "EXPLODEDP x = (k, s, e, m)" and k: "k = CLASS_NORM \<or> k = CLASS_DNORM"
  shows "ieee754dp_tlong c x = int_outcome (CLEARCX c) ieee754di_indef (dp_val x)"
proof -
  note ez = dp.explode_nonzero [OF ex [unfolded dp_explode] k]
  have m64: "unat m < 9007199254740992" using ez(4) by simp
  have kk: "k \<noteq> CLASS_SNAN \<and> k \<noteq> CLASS_QNAN \<and> k \<noteq> CLASS_INF \<and> k \<noteq> CLASS_ZERO" using k by auto
  consider (top) "63 \<le> e" | (up) "52 < e" "e < 63" | (same) "e = 52" | (cut) "-1 \<le> e" "e < 52" | (tiny) "e < -1" by linarith
  then show ?thesis
  proof cases
    case top
    then have "2 ^ DP_MBITS \<le> unat m" using k ez(7,8) by auto
    note ot = outcome_top [OF ez(2) this, where ?'a = 64 and c = "CLEARCX c" and i = ieee754di_indef]
    have "m = DP_HIDDEN_BIT \<longleftrightarrow> unat m = 2 ^ DP_MBITS" unfolding word_unat_eq_iff by (simp add: DP_MBIT_def)
    then show ?thesis using kk top ot by (simp add: ieee754dp_tlong_def FLUSHDP_def Let_def ex nod)
  next
    case up
    have "unat m * 2 ^ nat (e - 52) < 9007199254740992 * 2 ^ 10" using m64 up by (intro mult_less_le_imp_less power_increasing) auto
    then have u: "unat (push_bit (nat (e - 52)) m) = unat m * 2 ^ nat (e - 52)" "unat m * 2 ^ nat (e - 52) < 2 ^ 63"
      by (auto intro!: unat_push_bit)
    have "int_outcome (CLEARCX c) ieee754di_indef (dp_val x) = (CLEARCX c, if s then - push_bit (nat (e - 52)) m else push_bit (nat (e - 52)) m)"
      unfolding tint_sign u(1) using u(2) up by (subst outcome_whole [OF _ ez(2)]) simp_all
    then show ?thesis using kk up by (simp add: ieee754dp_tlong_def FLUSHDP_def Let_def ex nod)
  next
    case same
    have "int_outcome (CLEARCX c) ieee754di_indef (dp_val x) = (CLEARCX c, if s then - m else m)"
      unfolding tint_sign using m64 same by (subst outcome_whole [OF _ ez(2)]) simp_all
    then show ?thesis using kk by (simp add: ieee754dp_tlong_def FLUSHDP_def Let_def ex nod same)
  next
    case cut
    define j where "j = nat (51 - e)"
    have j: "j < LENGTH(64)" "nat (12 + e) = LENGTH(64) - 1 - j" "int DP_MBITS - e = int (Suc j)" "nat (int DP_MBITS - e) = Suc j"
      "63 - DP_MBITS + nat (e + 1) = nat (12 + e)" using cut by (simp_all add: j_def)
    have "unat m div 2 ^ Suc j \<le> unat m" "(2::nat) ^ (LENGTH(64) - 1) = 9223372036854775808" by (rule div_le_dividend, simp)
    then have small: "unat (drop_bit (Suc j) m) + 1 < 2 ^ (LENGTH(64) - 1)" using m64 unfolding unat_drop_bit by linarith
    note tt = tint_tail [OF ez(3) j(3) ez(2) unat_drop_bit small residue_bits [OF j(1,2)],
      where c = "CLEARCX c" and i = ieee754di_indef and xcpt = ieee754di_xcpt, OF xcpt_simps(3)]
    have pp: "push_bit (63 - DP_MBITS) (push_bit (nat (e + 1)) m) = push_bit (nat (12 + e)) m" by (simp only: push_bit_push_bit j(5))
    have "\<not> 63 \<le> e" "\<not> 52 < e" "\<not> e < -1" using cut by auto
    then show ?thesis unfolding tt using kk cut
      by (simp add: ieee754dp_tlong_def FLUSHDP_def ex nod Let_def pp [simplified] j(4) [simplified] push_bit_double)
  next
    case tiny
    define j where "j = nat (51 - e)"
    have j: "DP_MBITS < j" "int DP_MBITS - e = int (Suc j)" using tiny by (simp_all add: j_def)
    note ca = cut_all [OF ez(4) j(1)]
    have "unat (0 :: u64) = unat m div 2 ^ Suc j" "unat (0 :: u64) + 1 < 2 ^ (LENGTH(64) - 1)" "False \<longleftrightarrow> odd (unat m div 2 ^ j)"
      "m \<noteq> 0 \<longleftrightarrow> unat m mod 2 ^ j \<noteq> 0" using ca by (simp_all add: unat_eq_0)
    note tt = tint_tail [OF ez(3) j(2) ez(2) this, where c = "CLEARCX c" and i = ieee754di_indef and xcpt = ieee754di_xcpt, OF xcpt_simps(3)]
    show ?thesis unfolding tt using kk tiny by (simp add: ieee754dp_tlong_def FLUSHDP_def ex nod Let_def)
  qed
qed

lemma dp_tlong_correct:
  assumes "csr_nod c = 0"
  shows "ieee754dp_tlong c x = (if dp_fin x then int_outcome (CLEARCX c) ieee754di_indef (dp_val x)
    else (SETCX IEEE754_INVALID_OPERATION (CLEARCX c), ieee754di_indef))"
proof (cases "EXPLODEDP x")
  case (fields k s e m)
  have k: "k = fp_class DP_MBITS x" using dp.explode_class fields by (simp add: dp_explode)
  show ?thesis
  proof (cases "k = CLASS_NORM \<or> k = CLASS_DNORM")
    case True
    then show ?thesis using dp_tlong_nonzero [OF assms fields True] k by (auto simp: dp.class_fin)
  next
    case False
    then show ?thesis using fields dp.class_zero(2) [of x]
      by (cases k) (simp_all add: ieee754dp_tlong_def FLUSHDP_def dp.class_fin k [symmetric])
  qed
qed

end
