(* ===== verification/Dp_Math.thy ===== *)
theory Dp_Math
  imports Dp_Conv
begin

text \<open>
  Double precision exponent and fraction functions, the square root, and rounding to integral
  values (\<^verbatim>\<open>dp_frexp.c\<close>, \<^verbatim>\<open>dp_logb.c\<close>, \<^verbatim>\<open>dp_modf.c\<close>, \<^verbatim>\<open>dp_scalb.c\<close>, \<^verbatim>\<open>dp_sqrt.c\<close>, \<^verbatim>\<open>ieee754m.c\<close>).
  A pointer argument through which the code returns a second value is a second component of the
  result.
\<close>

section \<open>The code\<close>

definition ieee754dp_frexp :: "ieee754_csr \<Rightarrow> ieee754dp \<Rightarrow> ieee754_csr \<times> int \<times> ieee754dp" where
  "ieee754dp_frexp c x =
     (let c = CLEARCX c;
          (xc, xs, xe, xm) = EXPLODEDP x
      in case xc of
           CLASS_NORM \<Rightarrow> (c, xe + 1, builddp xs (-1 + DP_EBIAS) (xm AND NOT DP_HIDDEN_BIT))
         | CLASS_DNORM \<Rightarrow>
             let (xm, xe) = DPDNORMx (xm, xe)
             in (c, xe + 1, builddp xs (-1 + DP_EBIAS) (xm AND NOT DP_HIDDEN_BIT))
         | _ \<Rightarrow> (c, 0, x))"

definition ieee754dp_logb :: "ieee754_csr \<Rightarrow> ieee754dp \<Rightarrow> ieee754_csr \<times> ieee754dp" where
  "ieee754dp_logb c x =
     (let c = CLEARCX c;
          (xc, xs, xe, xm) = EXPLODEDP x
      in case xc of
           CLASS_SNAN \<Rightarrow> ieee754dp_nanxcpt c x
         | CLASS_QNAN \<Rightarrow> (c, x)
         | CLASS_INF \<Rightarrow> (c, ieee754dp_inf False)
         | CLASS_ZERO \<Rightarrow> (c, ieee754dp_inf True)
         | CLASS_DNORM \<Rightarrow> let (xm, xe) = DPDNORMx (xm, xe) in ieee754dp_fint c (word_of_int xe)
         | CLASS_NORM \<Rightarrow> ieee754dp_fint c (word_of_int xe))"

definition ieee754dp_modf :: "ieee754_csr \<Rightarrow> ieee754dp \<Rightarrow> ieee754_csr \<times> ieee754dp \<times> ieee754dp" where
  "ieee754dp_modf c x =
     (let c = CLEARCX c;
          (xc, xs, xe, xm) = EXPLODEDP x
      in case xc of
           CLASS_NORM \<Rightarrow>
             if xe < 0 then (c, ieee754dp_zero xs, x)
             else if xe \<ge> int DP_MBITS then (c, x, ieee754dp_zero xs)
             else
               let k = DP_MBITS - nat xe;
                   ip = builddp xs (xe + DP_EBIAS) (push_bit k (drop_bit k xm) AND NOT DP_HIDDEN_BIT);
                   xm = drop_bit (64 - k) (push_bit (64 - k) xm)
               in if xm = 0 then (c, ip, ieee754dp_zero xs)
                  else
                    let (xm, xe) = norm_up DP_MBITS (xm, xe)
                    in (c, ip, builddp xs (xe + DP_EBIAS) (xm AND NOT DP_HIDDEN_BIT))
         | CLASS_DNORM \<Rightarrow> (c, ieee754dp_zero xs, x)
         | _ \<Rightarrow> (c, x, x))"

text \<open>The sum \<^verbatim>\<open>xe + n\<close> of two \<^verbatim>\<open>int\<close>s wraps around at 32 bits.\<close>

definition ieee754dp_scalb :: "ieee754_csr \<Rightarrow> ieee754dp \<Rightarrow> u32 \<Rightarrow> ieee754_csr \<times> ieee754dp" where
  "ieee754dp_scalb c x n =
     (let c = CLEARCX c;
          (xc, xs, xe, xm) = EXPLODEDP x
      in case xc of
           CLASS_SNAN \<Rightarrow> ieee754dp_nanxcpt c x
         | CLASS_DNORM \<Rightarrow>
             let (xm, xe) = DPDNORMx (xm, xe)
             in DPNORMRET2 c xs (sint (word_of_int xe + n)) (push_bit 3 xm)
         | CLASS_NORM \<Rightarrow> DPNORMRET2 c xs (sint (word_of_int xe + n)) (push_bit 3 xm)
         | _ \<Rightarrow> (c, x))"

definition ieee754dp_ldexp :: "ieee754_csr \<Rightarrow> ieee754dp \<Rightarrow> u32 \<Rightarrow> ieee754_csr \<times> ieee754dp" where
  "ieee754dp_ldexp c x n = ieee754dp_scalb c x n"

text \<open>
  The square root starts from a table driven approximation, improves it with the emulated
  arithmetic in round to nearest, and settles the last bit with a chopped division. \<open>dp_add_bexp\<close>
  is \<^verbatim>\<open>x.parts.bexp += n\<close> on the 11 bit field.
\<close>

definition dp_sqrt_table :: "u32 list" where
  "dp_sqrt_table =
     [0, 1204, 3062, 5746, 9193, 13348, 18162, 23592,
      29598, 36145, 43202, 50740, 58733, 67158, 75992,
      85215, 83599, 71378, 60428, 50647, 41945, 34246,
      27478, 21581, 16499, 12183, 8588, 5674, 3403,
      1742, 661, 130]"

definition dp_add_bexp :: "ieee754dp \<Rightarrow> int \<Rightarrow> ieee754dp" where
  "dp_add_bexp x n = builddp (DPSIGN x) (DPBEXP x + n) (DPMANT x)"

definition dp_sqrt_approx :: "ieee754dp \<Rightarrow> ieee754dp" where
  "dp_sqrt_approx y =
     (let yh = (ucast (drop_bit 32 y) :: u32);
          yh = drop_bit 1 yh + 0x1ff80000;
          yh = yh - dp_sqrt_table ! unat (drop_bit 15 yh AND 31)
      in push_bit 32 (ucast yh) OR (y AND 0xffffffff))"

definition dp_sqrt_improve :: "ieee754_csr \<Rightarrow> ieee754dp \<Rightarrow> ieee754dp \<Rightarrow> ieee754_csr \<times> ieee754dp" where
  "dp_sqrt_improve c x y =
     (let (c, t) = ieee754dp_div c x y;
          (c, y) = ieee754dp_add c y t;
          y = y - 0x0010000600000000;
          y = y AND 0xffffffff00000000;
          (c, t) = ieee754dp_mul c y y;
          z = t;
          t = dp_add_bexp t 1;
          (c, t) = ieee754dp_add c t z;
          (c, d) = ieee754dp_sub c x z;
          (c, z) = ieee754dp_mul c d y;
          (c, a) = ieee754dp_add c t x;
          (c, t) = ieee754dp_div c z a;
          t = dp_add_bexp t 1
      in ieee754dp_add c y t)"

definition dp_sqrt_settle ::
  "ieee754_csr \<Rightarrow> ieee754_csr \<Rightarrow> ieee754dp \<Rightarrow> ieee754dp \<Rightarrow> int \<Rightarrow> ieee754_csr \<times> ieee754dp" where
  "dp_sqrt_settle oldcsr c x y scalx =
     (let c = c\<lparr>csr_rm := IEEE754_RZ, csr_sx := csr_sx c AND NOT IEEE754_INEXACT\<rparr>;
          (c, t) = ieee754dp_div c x y
      in if csr_sx c AND IEEE754_INEXACT \<noteq> 0 \<or> t \<noteq> y then
           let t = (if csr_sx c AND IEEE754_INEXACT = 0 then t - 1 else t);
               oldcsr = SETCX IEEE754_INEXACT oldcsr;
               y = (if csr_rm oldcsr = IEEE754_RU then y + 1 else y);
               t = (if csr_rm oldcsr = IEEE754_RU \<or> csr_rm oldcsr = IEEE754_RN then t + 1 else t);
               (c, y) = ieee754dp_add c y t;
               scalx = scalx - 1
           in (oldcsr, dp_add_bexp y scalx)
         else (oldcsr, dp_add_bexp y scalx))"

definition ieee754dp_sqrt :: "ieee754_csr \<Rightarrow> ieee754dp \<Rightarrow> ieee754_csr \<times> ieee754dp" where
  "ieee754dp_sqrt c x =
     (let (xc, xs, xe, xm) = EXPLODEDP x;
          c = CLEARCX c;
          (c, x, xc, xe, xm) = FLUSHDP c x xc xs xe xm
      in if xc = CLASS_QNAN then ieee754dp_nanxcpt c x
         else if xc = CLASS_SNAN then ieee754dp_nanxcpt (SETCX IEEE754_INVALID_OPERATION c) ieee754dp_indef
         else if xc = CLASS_ZERO then (c, x)
         else if xs then ieee754dp_nanxcpt (SETCX IEEE754_INVALID_OPERATION c) ieee754dp_indef
         else if xc = CLASS_INF then (c, x)
         else
           let (xm, xe) = (if xc = CLASS_DNORM then DPDNORMx (xm, xe) else (xm, xe));
               oldcsr = c;
               c = c\<lparr>csr_mx := csr_mx c AND NOT IEEE754_INEXACT, csr_sx := csr_sx c AND NOT IEEE754_INEXACT,
                     csr_rm := IEEE754_RN\<rparr>;
               (xe, scalx) = (if xe > 512 then (xe - 512, 256) else if xe < - 512 then (xe + 512, - 256) else (xe, 0));
               x = builddp False (xe + DP_EBIAS) (xm AND NOT DP_HIDDEN_BIT);
               y = dp_sqrt_approx x;
               (c, y) = dp_sqrt_improve c x y
           in dp_sqrt_settle oldcsr c x y scalx)"

definition ieee754dp_floor :: "ieee754_csr \<Rightarrow> ieee754dp \<Rightarrow> ieee754_csr \<times> ieee754dp" where
  "ieee754dp_floor c x =
     (let (c, i, f) = ieee754dp_modf c x;
          (c, lt) = ieee754dp_lt c f (ieee754dp_zero False)
      in if lt then ieee754dp_sub c i (ieee754dp_one False) else (c, i))"

definition ieee754dp_ceil :: "ieee754_csr \<Rightarrow> ieee754dp \<Rightarrow> ieee754_csr \<times> ieee754dp" where
  "ieee754dp_ceil c x =
     (let (c, i, f) = ieee754dp_modf c x;
          (c, gt) = ieee754dp_gt c f (ieee754dp_zero False)
      in if gt then ieee754dp_add c i (ieee754dp_one False) else (c, i))"

definition ieee754dp_trunc :: "ieee754_csr \<Rightarrow> ieee754dp \<Rightarrow> ieee754_csr \<times> ieee754dp" where
  "ieee754dp_trunc c x = (let (c, i, f) = ieee754dp_modf c x in (c, i))"

section \<open>Exponent and fraction\<close>

lemma dp_frexp_sig:
  assumes "2 ^ DP_MBITS \<le> unat m" and "unat m < 2 ^ (DP_MBITS + 1)" and "dp_val x = sgn_of s * (unat m * 2 powi (e - int DP_MBITS))"
  shows "let f = builddp s (- 1 + DP_EBIAS) (m AND NOT DP_HIDDEN_BIT)
    in dp_val x = dp_val f * 2 powi (e + 1) \<and> 1 / 2 \<le> \<bar>dp_val f\<bar> \<and> \<bar>dp_val f\<bar> < 1"
proof -
  have f: "dp_val (builddp s (- 1 + DP_EBIAS) (m AND NOT DP_HIDDEN_BIT)) = sgn_of s * (unat m * 2 powi (- 53))"
    using dp.build_sig(3) [OF assms(1,2), of "- 1" s] by (simp add: dp_fields DP_MBIT_def)
  have "(2::real) powi (e - 52) = 2 powi (- 53) * 2 powi (e + 1)" using powi_add2 [of "- 53" "e + 1"] by simp
  moreover have "real (2 ^ DP_MBITS) \<le> real (unat m)" "real (unat m) < real (2 ^ (DP_MBITS + 1))"
    using assms(1,2) by (simp_all only: of_nat_le_iff of_nat_less_iff)
  ultimately show ?thesis unfolding Let_def f assms(3) by (simp add: power_int_minus abs_mult)
qed

text \<open>
  C36. \<^verbatim>\<open>ieee754dp_frexp\<close> splits a finite nonzero number into a power of two and a fraction of magnitude at least one
  half and below one whose product is the number; no exception is raised.
\<close>

theorem dp_frexp_correct:
  assumes "dp_fin x" and "dp_val x \<noteq> 0"
  shows "\<exists>e f. ieee754dp_frexp c x = (CLEARCX c, e, f) \<and> dp_val x = dp_val f * 2 powi e \<and>
    1 / 2 \<le> \<bar>dp_val f\<bar> \<and> \<bar>dp_val f\<bar> < 1"
proof -
  obtain k s e m where ex: "EXPLODEDP x = (k, s, e, m)" by (metis prod_cases4)
  have k: "k = CLASS_NORM \<or> k = CLASS_DNORM"
    using dp.explode_class(1) [OF ex [unfolded dp_explode]] dp.val_nonzero_iff [OF assms(1)] assms(2) by simp
  obtain m' e' where m': "(if k = CLASS_DNORM then norm_up DP_MBITS (m, e) else (m, e)) = (m', e')"
    "2 ^ DP_MBITS \<le> unat m'" "unat m' < 2 ^ (DP_MBITS + 1)" "dp_val x = sgn_of s * (unat m' * 2 powi (e' - int DP_MBITS))"
    by (rule dp.operand [OF ex [unfolded dp_explode] k])
  have "ieee754dp_frexp c x = (CLEARCX c, e' + 1, builddp s (- 1 + DP_EBIAS) (m' AND NOT DP_HIDDEN_BIT))"
    using k m'(1) by (auto simp: ieee754dp_frexp_def ex DPDNORMx_def)
  with dp_frexp_sig [OF m'(2-4)] show ?thesis by (simp add: Let_def)
qed

theorem dp_frexp_correct_witness:
  "\<exists>e f. ieee754dp_frexp (csr_of_fcr31 0) 0x4014000000000000 = (CLEARCX (csr_of_fcr31 0), e, f) \<and> 5 = dp_val f * 2 powi e \<and>
    1 / 2 \<le> \<bar>dp_val f\<bar> \<and> \<bar>dp_val f\<bar> < 1"
proof -
  have "dp_fin 0x4014000000000000" "dp_val 0x4014000000000000 = 5" by (simp_all add: ground_value)
  then show ?thesis using dp_frexp_correct [of "0x4014000000000000" "csr_of_fcr31 0"] by simp
qed

lemma dp_scalb_correct:
  assumes "csr_nod c = 0" and "dp_fin x" and "dp_val x \<noteq> 0" and "\<bar>sint n\<bar> \<le> 2 ^ 30"
  shows "\<exists>r. ieee754dp_scalb c x n = (SETCX (dp_flags c (dp_val x * 2 powi sint n)) (CLEARCX c), r) \<and>
    dp_correct (rmode_of c) (dp_val x * 2 powi sint n) r"
proof -
  obtain k s e m where ex: "EXPLODEDP x = (k, s, e, m)" by (metis prod_cases4)
  note exf = ex [unfolded dp_explode]
  have k: "k = CLASS_NORM \<or> k = CLASS_DNORM"
    using dp.explode_class(1) [OF exf] dp.val_nonzero_iff [OF assms(2)] assms(3) by simp
  obtain m' e' where m': "(if k = CLASS_DNORM then norm_up DP_MBITS (m, e) else (m, e)) = (m', e')" by fastforce
  have "sint (word_of_int e' + n) = e' + sint n"
  proof -
    define z where "z = e' + sint n"
    have eq: "word_of_int e' + n = word_of_int z" by (simp add: of_int_sint z_def)
    have "- 2147483648 \<le> z" "z < 2147483648" using dp.operand_exponent [OF exf k m'] assms(4) by (simp_all add: z_def)
    then show ?thesis unfolding eq z_def [symmetric] by (simp add: signed_of_int signed_take_bit_int_eq_self)
  qed
  then have "ieee754dp_scalb c x n = fp_fmt DP_MBITS DP_EMIN DP_EMAX (CLEARCX c) s (e' + sint n) (push_bit 3 m')"
    using k m' by (auto simp: ieee754dp_scalb_def ex DPDNORMx_def dp_normret)
  then show ?thesis using dp.scalb_correct [OF _ exf k m', of "CLEARCX c" "sint n"] assms(1) by simp
qed

lemma dp_modf_correct:
  assumes "dp_fin x"
  shows "\<exists>i f. ieee754dp_modf c x = (CLEARCX c, i, f) \<and> dp_fin i \<and> dp_fin f \<and>
    dp_val i = of_int (rint RZ (dp_val x)) \<and> dp_val f = dp_val x - dp_val i"
proof -
  obtain k s e m where ex: "EXPLODEDP x = (k, s, e, m)" by (metis prod_cases4)
  note exf = ex [unfolded dp_explode]
  show ?thesis
  proof (cases "k = CLASS_NORM \<or> k = CLASS_DNORM")
    case False
    then have "fp_class DP_MBITS x = CLASS_ZERO" using dp.explode_class(1) [OF exf] dp.class_fin [of x] assms by auto
    then show ?thesis using assms dp.class_zero(2) [of x] dp.explode_class(1) [OF exf]
      by (simp add: ieee754dp_modf_def ex)
  next
    case k: True
    note ez = dp.explode_nonzero [OF exf k]
    have z: "dp_fin (ieee754dp_zero s)" "dp_val (ieee754dp_zero s) = 0"
      using dp.build_denorm(1,3) [of 0 s] by (simp_all add: dp_constants fp_zero_def)
    have pos: "0 < unat m * (2 powi (e - int DP_MBITS) :: real)" using ez(3) by simp
    note ri = rint_signed [OF pos, of RZ s, folded ez(2)]
    consider (small) "e < 0" | (big) "52 \<le> e" | (mid) "0 \<le> e" "e < 52" by linarith
    then show ?thesis
    proof cases
      case small
      then have "ieee754dp_modf c x = (CLEARCX c, ieee754dp_zero s, x)"
        using k by (auto simp: ieee754dp_modf_def ex)
      moreover have "rint RZ (dp_val x) = 0"
      proof -
        have "real (unat m) < real (2 ^ (DP_MBITS + 1))" using ez(4) by (simp only: of_nat_less_iff)
        then have "real (unat m) * 2 powi (e - int DP_MBITS) < 2 ^ (DP_MBITS + 1) * 2 powi (e - int DP_MBITS)" by simp
        also have "\<dots> = 2 powi (e + 1)" by (rule powi_shift2_Suc)
        also have "\<dots> \<le> 2 powi 0" using small by (simp only: powi_le2)
        finally have "\<lfloor>real (unat m) * 2 powi (e - int DP_MBITS)\<rfloor> = 0" using pos by (simp add: floor_eq_iff)
        then show ?thesis using ri by simp
      qed
      ultimately show ?thesis using z assms by simp
    next
      case big
      then have kn: "k = CLASS_NORM" using k ez(8) by auto
      have "ieee754dp_modf c x = (CLEARCX c, x, ieee754dp_zero s)" using big kn by (simp add: ieee754dp_modf_def ex)
      moreover have "of_int (rint RZ (dp_val x)) = dp_val x"
        using tint_whole [OF _ ez(2)] big by (metis int_ops(3) rint_of_int)
      ultimately show ?thesis using z assms by simp
    next
      case mid
      then have kn: "k = CLASS_NORM" using k ez(8) by auto
      define d where "d = DP_MBITS - nat e"
      define i where "i = builddp s (e + DP_EBIAS) (push_bit d (drop_bit d m) AND NOT DP_HIDDEN_BIT)"
      define w where "w = drop_bit (64 - d) (push_bit (64 - d) m)"
      have i: "dp_fin i" "dp_val i = of_int (rint RZ (dp_val x))"
        using dp.modf_integral [OF ez(7) [OF kn] ez(4) _ _ _ _ d_def, of s] mid ri
        unfolding i_def dp_fields DP_MBIT_def by (auto simp: sgn_of_def)
      have md: "ieee754dp_modf c x = (if w = 0 then (CLEARCX c, i, ieee754dp_zero s)
        else let (xm, xe) = norm_up DP_MBITS (w, e) in (CLEARCX c, i, builddp s (xe + DP_EBIAS) (xm AND NOT DP_HIDDEN_BIT)))"
        using mid kn unfolding ieee754dp_modf_def ex i_def w_def d_def by (simp add: Let_def)
      have rz: "of_int (rint RZ (dp_val x)) = sgn_of s * of_int \<lfloor>unat m * 2 powi (e - int DP_MBITS)\<rfloor>" using ri by (simp add: sgn_of_def)
      have ii: "dp_val i = sgn_of s * of_int \<lfloor>unat m * 2 powi (e - int DP_MBITS)\<rfloor>" unfolding i(2) rz ..
      have wd: "w = drop_bit (LENGTH(64) - d) (push_bit (LENGTH(64) - d) m)" by (simp add: w_def)
      show ?thesis
      proof (cases "w = 0")
        case True
        then have "dp_val x = dp_val i" using dp.modf_low(1) [OF _ _ d_def wd] mid unfolding ii ez(2) by simp
        then show ?thesis using md True i z by simp
      next
        case False
        obtain w' e' where "norm_up DP_MBITS (w, e) = (w', e')" "dp_fin (builddp s (e' + DP_EBIAS) (w' AND NOT DP_HIDDEN_BIT))"
          "dp_val (builddp s (e' + DP_EBIAS) (w' AND NOT DP_HIDDEN_BIT)) =
            sgn_of s * (unat m * 2 powi (e - int DP_MBITS) - of_int \<lfloor>unat m * 2 powi (e - int DP_MBITS)\<rfloor>)"
          using dp.modf_fraction [OF ez(4) _ _ _ _ d_def wd False, of s] mid unfolding dp_fields DP_MBIT_def by auto
        moreover have "dp_val x - dp_val i = sgn_of s * (unat m * 2 powi (e - int DP_MBITS) - of_int \<lfloor>unat m * 2 powi (e - int DP_MBITS)\<rfloor>)"
          unfolding ii ez(2) right_diff_distrib ..
        ultimately show ?thesis using md False i by simp
      qed
    qed
  qed
qed

section \<open>Integral values\<close>

lemma dp_zero_one: "dp_fin (ieee754dp_zero s)" "dp_val (ieee754dp_zero s) = 0" "dp_fin (ieee754dp_one s)" "dp_val (ieee754dp_one s) = sgn_of s"
  using dp.build_denorm(1,3) [of 0 s] dp_unit_consts(1) by (simp_all add: dp_constants fp_zero_def dp.fp_const_def)

lemma dp_fin_number: "dp_fin x \<Longrightarrow> \<not> ieee754dp_isnan x"
  by (auto simp: dp_isnan dp.class_fin)

text \<open>A number with a fractional part is below \<open>2 ^ 52\<close>, so its neighbouring integers are exact.\<close>

lemma dp_fraction_small:
  assumes "dp_fin x" and "of_int (rint RZ (dp_val x)) \<noteq> dp_val x"
  shows "\<bar>dp_val x\<bar> < 2 ^ 52" and "\<bar>rint RZ (dp_val x)\<bar> \<le> 2 ^ 52"
proof -
  obtain k s e m where ex: "fp_explode DP_MBITS DP_EMIN DP_EMAX DP_EBIAS x = (k, s, e, m)" by (metis prod_cases4)
  have "dp_val x \<noteq> 0" using assms(2) by auto
  then have k: "k = CLASS_NORM \<or> k = CLASS_DNORM" using dp.explode_class(1) [OF ex] dp.val_nonzero_iff [OF assms(1)] by simp
  note ez = dp.explode_nonzero [OF ex k]
  have "e < 52"
  proof (rule ccontr)
    assume "\<not> e < 52"
    then have "int DP_MBITS \<le> e" by simp
    from tint_whole [OF this ez(2)] have "of_int (rint RZ (dp_val x)) = dp_val x" by (metis rint_of_int)
    with assms(2) show False ..
  qed
  have "real (unat m) < real (2 ^ (DP_MBITS + 1))" using ez(4) by (simp only: of_nat_less_iff)
  then have "real (unat m) * 2 powi (e - int DP_MBITS) < 2 ^ (DP_MBITS + 1) * 2 powi (e - int DP_MBITS)" by simp
  also have "\<dots> = 2 powi (e + 1)" by (rule powi_shift2_Suc)
  also have "\<dots> \<le> 2 powi 52" using \<open>e < 52\<close> by (simp only: powi_le2)
  finally show v: "\<bar>dp_val x\<bar> < 2 ^ 52" unfolding ez(2) by (simp add: abs_mult)
  show "\<bar>rint RZ (dp_val x)\<bar> \<le> 2 ^ 52" using v by (auto simp: abs_if ceiling_le_iff le_floor_iff split: if_splits) linarith+
qed

lemma rint_RZ_floor:
  fixes v :: real
  shows "v < of_int (rint RZ v) \<Longrightarrow> rint RZ v \<le> 0 \<and> \<lfloor>v\<rfloor> = rint RZ v + - 1"
    and "\<not> v < of_int (rint RZ v) \<Longrightarrow> \<lfloor>v\<rfloor> = rint RZ v"
    and "of_int (rint RZ v) < v \<Longrightarrow> 0 \<le> rint RZ v \<and> \<lceil>v\<rceil> = rint RZ v + 1"
    and "\<not> of_int (rint RZ v) < v \<Longrightarrow> \<lceil>v\<rceil> = rint RZ v"
  by (cases "0 \<le> v"; simp; linarith)+

lemma dp_step_int:
  assumes "csr_nod c = 0" and "dp_fin i" and "dp_val i = of_int N" and "\<bar>N\<bar> \<le> 2 ^ 52"
    and "dp_fin y" and "dp_val y = of_int d" and "\<bar>d\<bar> = 1" and "N + d \<noteq> 0"
  shows "\<exists>r. fp_add_finite DP_MBITS DP_EMIN DP_EMAX (CLEARCX c) i y = (CLEARCX c, r) \<and> dp_fin r \<and> dp_val r = of_int (N + d)"
proof -
  have v: "real_of_int (N + d) = dp_val i + dp_val y" using assms by simp
  have nod: "csr_nod (CLEARCX c) = 0" using assms(1) by simp
  obtain r where r: "fp_add_finite DP_MBITS DP_EMIN DP_EMAX (CLEARCX c) i y =
      (if dp_val i = 0 \<or> dp_val y = 0 \<or> real_of_int (N + d) = 0 then CLEARCX c
       else SETCX (dp_flags (CLEARCX c) (of_int (N + d))) (CLEARCX c), r)" "dp_correct (rmode_of c) (of_int (N + d)) r"
    using dp.add_finite_correct [OF nod assms(2,5) v] assms(8) by (auto simp del: of_int_add)
  have "\<bar>N + d\<bar> < 2 ^ (DP_MBITS + 1)" using assms(4,7) by (simp add: abs_if split: if_splits)
  note ci = dp.correct_int [OF r(2) assms(8) this]
  show ?thesis using r(1) ci(1,2) ci(3) [where trap = "uf_enabled (CLEARCX c)"] by simp
qed

lemma dp_number_zero:
  assumes "csr_nod c = 0" and "dp_fin f"
  shows "ieee754dp_lt c f (ieee754dp_zero False) = (CLEARCX c, dp_val f < 0)"
    and "ieee754dp_gt c f (ieee754dp_zero False) = (CLEARCX c, 0 < dp_val f)"
  using dp_cmp_number [OF assms(1) dp_fin_number [OF assms(2)] dp_fin_number [OF dp_zero_one(1)]] dp_zero_one(2)
  by (auto simp: ieee754dp_lt_def ieee754dp_gt_def)

lemma CLEARCX_CLEARCX [simp]: "CLEARCX (CLEARCX c) = CLEARCX c"
  by (simp add: CLEARCX_def)

text \<open>
  C34. \<^verbatim>\<open>ieee754dp_floor\<close> of a finite number is the greatest integer that is not above it, as a double; no exception is
  raised, although the code goes through \<^verbatim>\<open>modf\<close>, a comparison and a subtraction.
\<close>

theorem dp_floor_correct:
  assumes "csr_nod c = 0" and "dp_fin x"
  shows "\<exists>r. ieee754dp_floor c x = (CLEARCX c, r) \<and> dp_fin r \<and> dp_val r = of_int \<lfloor>dp_val x\<rfloor>"
proof -
  obtain i f where m: "ieee754dp_modf c x = (CLEARCX c, i, f)" "dp_fin i" "dp_fin f"
    "dp_val i = of_int (rint RZ (dp_val x))" "dp_val f = dp_val x - dp_val i"
    using dp_modf_correct [OF assms(2)] by blast
  note lt = dp_number_zero(1) [OF _ m(3), of "CLEARCX c"]
  show ?thesis
  proof (cases "dp_val f < 0")
    case True
    then have fr: "dp_val x < of_int (rint RZ (dp_val x))" using m(4,5) by linarith
    then have ne: "of_int (rint RZ (dp_val x)) \<noteq> dp_val x" by linarith
    note N = rint_RZ_floor(1) [OF fr]
    have "\<exists>r. fp_add_finite DP_MBITS DP_EMIN DP_EMAX (CLEARCX (CLEARCX c)) i (fneg DP_MBITS (ieee754dp_one False)) =
        (CLEARCX (CLEARCX c), r) \<and> dp_fin r \<and> dp_val r = of_int (rint RZ (dp_val x) + - 1)"
      by (rule dp_step_int) (use assms m dp_fraction_small(2) [OF assms(2) ne] N dp_zero_one(3,4) [of False] in \<open>simp_all add: fneg_val del: rint.simps\<close>)
    then show ?thesis using True lt m assms N
      by (simp add: ieee754dp_floor_def dp_sub_finite dp_zero_one(3) del: rint.simps)
  next
    case False
    then have "\<not> dp_val x < of_int (rint RZ (dp_val x))" using m(4,5) by linarith
    then have "\<lfloor>dp_val x\<rfloor> = rint RZ (dp_val x)" by (rule rint_RZ_floor)
    then show ?thesis using False lt m assms by (simp add: ieee754dp_floor_def del: rint.simps)
  qed
qed

theorem dp_floor_correct_witness: "\<exists>r. ieee754dp_floor (csr_of_fcr31 0) 0xc004000000000000 = (CLEARCX (csr_of_fcr31 0), r) \<and> dp_val r = - 3"
proof -
  have "dp_fin 0xc004000000000000" "dp_val 0xc004000000000000 = - 5 / 2" by (simp_all add: ground_value)
  then show ?thesis using dp_floor_correct [of "csr_of_fcr31 0" "0xc004000000000000"] by (auto simp: csr_reset)
qed

lemma dp_ceil_correct:
  assumes "csr_nod c = 0" and "dp_fin x"
  shows "\<exists>r. ieee754dp_ceil c x = (CLEARCX c, r) \<and> dp_fin r \<and> dp_val r = of_int \<lceil>dp_val x\<rceil>"
proof -
  obtain i f where m: "ieee754dp_modf c x = (CLEARCX c, i, f)" "dp_fin i" "dp_fin f"
    "dp_val i = of_int (rint RZ (dp_val x))" "dp_val f = dp_val x - dp_val i"
    using dp_modf_correct [OF assms(2)] by blast
  note gt = dp_number_zero(2) [OF _ m(3), of "CLEARCX c"]
  show ?thesis
  proof (cases "0 < dp_val f")
    case True
    then have fr: "of_int (rint RZ (dp_val x)) < dp_val x" using m(4,5) by linarith
    then have ne: "of_int (rint RZ (dp_val x)) \<noteq> dp_val x" by linarith
    note N = rint_RZ_floor(3) [OF fr]
    have "\<exists>r. fp_add_finite DP_MBITS DP_EMIN DP_EMAX (CLEARCX (CLEARCX c)) i (ieee754dp_one False) =
        (CLEARCX (CLEARCX c), r) \<and> dp_fin r \<and> dp_val r = of_int (rint RZ (dp_val x) + 1)"
      by (rule dp_step_int) (use assms m dp_fraction_small(2) [OF assms(2) ne] N dp_zero_one(3,4) [of False] in \<open>simp_all del: rint.simps\<close>)
    then show ?thesis using True gt m assms N
      by (simp add: ieee754dp_ceil_def dp_add_finite dp_zero_one(3) del: rint.simps)
  next
    case False
    then have "\<not> of_int (rint RZ (dp_val x)) < dp_val x" using m(4,5) by linarith
    then have "\<lceil>dp_val x\<rceil> = rint RZ (dp_val x)" by (rule rint_RZ_floor)
    then show ?thesis using False gt m assms by (simp add: ieee754dp_ceil_def del: rint.simps)
  qed
qed

section \<open>The square root and the register\<close>

lemma dp_quiet: "ieee754dp_class x = CLASS_QNAN \<Longrightarrow> ieee754dp_nanxcpt c x = (c, x)"
proof -
  assume "ieee754dp_class x = CLASS_QNAN"
  then have "\<not> ieee754dp_issnan x"
    by (auto simp: ieee754dp_class_def EXPLODEDP_def ieee754dp_issnan_def Let_def DP_MBIT_def split: if_splits)
  then show ?thesis by (simp add: ieee754dp_nanxcpt_def)
qed

lemma dp_sqrt_settle_csr:
  "fst (dp_sqrt_settle c0 c x y n) = c0 \<or> fst (dp_sqrt_settle c0 c x y n) = SETCX IEEE754_INEXACT c0"
  by (simp add: dp_sqrt_settle_def Let_def split: prod.split)

text \<open>
  C35. The double precision square root signals an invalid operation, with the indefinite NaN as its result, exactly for a
  signalling NaN or a negative operand that is no zero. For every other operand its private changes of the
  rounding mode and of the flags during the iteration do not show: at the end the control register is the
  caller's one, with at most the inexact flag raised.
\<close>

theorem dp_sqrt_csr:
  assumes "csr_nod c = 0"
  shows "if ieee754dp_class x = CLASS_SNAN \<or> DPSIGN x \<and> ieee754dp_class x \<notin> {CLASS_ZERO, CLASS_QNAN}
    then ieee754dp_sqrt c x = (SETCX IEEE754_INVALID_OPERATION (CLEARCX c), ieee754dp_indef)
    else fst (ieee754dp_sqrt c x) = CLEARCX c \<or> fst (ieee754dp_sqrt c x) = SETCX IEEE754_INEXACT (CLEARCX c)"
proof -
  obtain k s e m where ex: "EXPLODEDP x = (k, s, e, m)" by (metis prod_cases4)
  have k: "ieee754dp_class x = k" by (simp add: ieee754dp_class_def ex)
  have s: "DPSIGN x = s" using dp.explode_class(2) [OF ex [unfolded dp_explode]] by (simp add: dp_fields)
  show ?thesis
  proof (cases "k = CLASS_SNAN \<or> s \<and> k \<notin> {CLASS_ZERO, CLASS_QNAN}")
    case True
    then show ?thesis using assms unfolding k s by (auto simp: ieee754dp_sqrt_def ex dp_flush_off dp_indef)
  next
    case False
    then have c: "k = CLASS_QNAN \<or> k = CLASS_ZERO \<or> (\<not> s \<and> k = CLASS_INF) \<or> (\<not> s \<and> (k = CLASS_NORM \<or> k = CLASS_DNORM))"
      by (cases k) auto
    show ?thesis using c assms dp_quiet [of x] False unfolding k s
      by (auto simp: ieee754dp_sqrt_def ex dp_flush_off Let_def dp_sqrt_settle_csr k split: prod.split)
  qed
qed

theorem dp_sqrt_csr_witness:
  "ieee754dp_sqrt (csr_of_fcr31 0) 0xbff0000000000000 = (SETCX IEEE754_INVALID_OPERATION (CLEARCX (csr_of_fcr31 0)), ieee754dp_indef)"
proof -
  have "ieee754dp_class 0xbff0000000000000 = CLASS_NORM" "DPSIGN 0xbff0000000000000" by code_simp+
  then show ?thesis using dp_sqrt_csr [of "csr_of_fcr31 0" "0xbff0000000000000"] by (simp add: csr_reset)
qed

end
