(* ===== verification/Sp_Dp.thy ===== *)
theory Sp_Dp
  imports Sp_Math Dp_Math
begin

text \<open>Conversion between the two precisions (\<^verbatim>\<open>sp_fdp.c\<close>, \<^verbatim>\<open>dp_fsp.c\<close>).\<close>

section \<open>The code\<close>

definition ieee754sp_fdp :: "ieee754_csr \<Rightarrow> ieee754dp \<Rightarrow> ieee754_csr \<times> ieee754sp" where
  "ieee754sp_fdp c x =
     (let (xc, xs, xe, xm) = EXPLODEDP x;
          c = CLEARCX c;
          (c, x, xc, xe, xm) = FLUSHDP c x xc xs xe xm
      in case xc of
           CLASS_SNAN \<Rightarrow> ieee754sp_nanxcpt (SETCX IEEE754_INVALID_OPERATION c) ieee754sp_indef
         | CLASS_QNAN \<Rightarrow>
             let nan = buildsp xs (SP_EMAX + 1 + SP_EBIAS) (ucast (drop_bit (DP_MBITS - SP_MBITS) xm));
                 nan = (if \<not> ieee754sp_isnan nan then ieee754sp_indef else nan)
             in ieee754sp_nanxcpt c nan
         | CLASS_INF \<Rightarrow> (c, ieee754sp_inf xs)
         | CLASS_ZERO \<Rightarrow> (c, ieee754sp_zero xs)
         | CLASS_DNORM \<Rightarrow>
             let c = SETCX IEEE754_UNDERFLOW c;
                 c = SETCX IEEE754_INEXACT c
             in if csr_rm c = IEEE754_RU \<and> \<not> xs \<or> csr_rm c = IEEE754_RD \<and> xs
                then (c, ieee754sp_xcpt c (ieee754sp_mind xs))
                else (c, ieee754sp_xcpt c (ieee754sp_zero xs))
         | CLASS_NORM \<Rightarrow>
             let rm = (ucast (drop_bit (DP_MBITS - (SP_MBITS + 3)) xm) :: u32) OR
                   of_bool (push_bit (64 - (DP_MBITS - (SP_MBITS + 3))) xm \<noteq> 0)
             in SPNORMRET2 c xs xe rm)"

definition ieee754dp_fsp :: "ieee754_csr \<Rightarrow> ieee754sp \<Rightarrow> ieee754_csr \<times> ieee754dp" where
  "ieee754dp_fsp c x =
     (let (xc, xs, xe, xm) = EXPLODESP x;
          c = CLEARCX c;
          (c, x, xc, xe, xm) = FLUSHSP c x xc xs xe xm
      in case xc of
           CLASS_SNAN \<Rightarrow> ieee754dp_nanxcpt (SETCX IEEE754_INVALID_OPERATION c) ieee754dp_indef
         | CLASS_QNAN \<Rightarrow>
             ieee754dp_nanxcpt c (builddp xs (DP_EMAX + 1 + DP_EBIAS) (push_bit (DP_MBITS - SP_MBITS) (ucast xm)))
         | CLASS_INF \<Rightarrow> (c, ieee754dp_inf xs)
         | CLASS_ZERO \<Rightarrow> (c, ieee754dp_zero xs)
         | _ \<Rightarrow>
             let (xm, xe) = (if xc = CLASS_DNORM then norm_up SP_MBITS (xm, xe) else (xm, xe));
                 xm = xm AND NOT SP_HIDDEN_BIT
             in (c, builddp xs (xe + DP_EBIAS) (push_bit (DP_MBITS - SP_MBITS) (ucast xm))))"

section \<open>Widening\<close>

lemma dp_fsp_nonzero:
  assumes nod: "csr_nod c = 0" and fin: "sp_fin x" and nz: "sp_val x \<noteq> 0"
  shows "\<exists>r. ieee754dp_fsp c x = (CLEARCX c, r) \<and> dp_fin r \<and> dp_val r = sp_val x"
proof -
  obtain k s e m where ex: "EXPLODESP x = (k, s, e, m)" by (metis prod_cases4)
  note exf = ex [unfolded sp_explode]
  have k: "k = CLASS_NORM \<or> k = CLASS_DNORM" using sp.explode_class(1) [OF exf] sp.val_nonzero_iff [OF fin] nz by simp
  obtain m' e' where m': "(if k = CLASS_DNORM then norm_up SP_MBITS (m, e) else (m, e)) = (m', e')"
    "2 ^ SP_MBITS \<le> unat m'" "unat m' < 2 ^ (SP_MBITS + 1)" "sp_val x = sgn_of s * (unat m' * 2 powi (e' - int SP_MBITS))"
    by (rule sp.operand [OF exf k])
  note ee = sp.operand_exponent [OF exf k m'(1)]
  define w where "w = (push_bit (DP_MBITS - SP_MBITS) (ucast (m' AND NOT SP_HIDDEN_BIT)) :: u64)"
  have h: "unat (m' AND NOT SP_HIDDEN_BIT) = unat m' - 2 ^ SP_MBITS" unfolding SP_MBIT_def by (rule unat_clear_hidden [OF m'(2,3)]) simp
  then have u: "unat (ucast (m' AND NOT SP_HIDDEN_BIT) :: u64) = unat m' - 2 ^ SP_MBITS"
    using m'(3) by (simp add: unsigned_ucast_eq take_bit_nat_eq_self)
  have uw: "unat w = (unat m' - 2 ^ SP_MBITS) * 2 ^ 29" unfolding w_def u [symmetric]
    by (subst unat_push_bit) (use m'(2,3) u in simp_all)
  then have "unat w < 2 ^ DP_MBITS" using m'(2,3) by simp
  moreover have "2 ^ DP_MBITS + real (unat w) = real (unat m') * 2 ^ 29" unfolding uw using m'(2) by (simp add: of_nat_diff)
  moreover have "(2::real) powi (e' - 23) = 2 ^ 29 * 2 powi (e' - 52)" using powi_shift2 [of 29 "e' - 23"] by simp
  ultimately have "dp_fin (builddp s (e' + DP_EBIAS) w)" "dp_val (builddp s (e' + DP_EBIAS) w) = sp_val x"
    using dp.build_norm [of w e' s] ee unfolding dp_fields m'(4) by simp_all
  moreover have "ieee754dp_fsp c x = (CLEARCX c, builddp s (e' + DP_EBIAS) w)"
    using k m'(1) nod unfolding ieee754dp_fsp_def w_def by (auto simp: ex sp_flush_off)
  ultimately show ?thesis by blast
qed

lemma fsign_val:
  assumes "fp_val p emin w \<noteq> 0"
  shows "fsign w \<longleftrightarrow> fp_val p emin w < 0"
proof -
  have v: "fp_val p emin w = sgn_of (fsign w) * \<bar>fp_val p emin w\<bar>" by (simp add: fp_val_def)
  show ?thesis
  proof (cases "fsign w")
    case True
    then have "fp_val p emin w = - \<bar>fp_val p emin w\<bar>" using v by simp
    then show ?thesis using True assms by linarith
  next
    case False
    then have "fp_val p emin w = \<bar>fp_val p emin w\<bar>" using v by simp
    then show ?thesis using False by linarith
  qed
qed

text \<open>
  C30. Widening a finite single precision number is exact, raises no exception and keeps the sign, also of a zero and
  of a denormalised number.
\<close>

theorem dp_fsp_correct:
  assumes "csr_nod c = 0" and "sp_fin x"
  shows "\<exists>r. ieee754dp_fsp c x = (CLEARCX c, r) \<and> dp_fin r \<and> dp_val r = sp_val x \<and> DPSIGN r = SPSIGN x"
proof (cases "sp_val x = 0")
  case True
  obtain k s e m where ex: "EXPLODESP x = (k, s, e, m)" by (metis prod_cases4)
  have "k = CLASS_ZERO" "s = SPSIGN x"
    using sp.explode_class [OF ex [unfolded sp_explode]] sp.val_zero_iff [OF assms(2)] True by (simp_all add: sp_fields)
  then have "ieee754dp_fsp c x = (CLEARCX c, ieee754dp_zero (SPSIGN x))" using assms(1) by (simp add: ieee754dp_fsp_def ex sp_flush_off)
  moreover have "DPSIGN (ieee754dp_zero (SPSIGN x)) = SPSIGN x" by (simp add: dp_constants dp_fields fp_zero_def)
  ultimately show ?thesis using True dp_zero_one(1,2) by simp
next
  case False
  then obtain r where r: "ieee754dp_fsp c x = (CLEARCX c, r)" "dp_fin r" "dp_val r = sp_val x"
    using dp_fsp_nonzero [OF assms] by blast
  have "DPSIGN r = SPSIGN x" using fsign_val [of DP_MBITS DP_EMIN r] fsign_val [of SP_MBITS SP_EMIN x] r False by (simp add: sp_fields dp_fields)
  then show ?thesis using r by blast
qed

theorem dp_fsp_correct_witness: "\<exists>r. ieee754dp_fsp (csr_of_fcr31 0) 0x40400000 = (CLEARCX (csr_of_fcr31 0), r) \<and> dp_val r = 3"
  using dp_fsp_correct [of "csr_of_fcr31 0" "0x40400000"] by (auto simp: csr_reset sp_ground)

section \<open>Narrowing\<close>

text \<open>Every double precision denormal is far below half the least single precision number.\<close>

lemma sp_underflow_all:
  assumes "0 < a" and "a < 2 powi (- 151)" and v: "v = sgn_of s * a" and up: "up \<longleftrightarrow> rm = RU \<and> \<not> s \<or> rm = RD \<and> s"
  shows "sp_correct rm v (if up then ieee754sp_mind s else ieee754sp_zero s)"
    and "ieee_flags SP_MBITS SP_EMIN SP_EMAX trap rm v = IEEE754_UNDERFLOW OR IEEE754_INEXACT"
proof -
  define y where "y = a / 2 powi (- 149)"
  have "(2::real) powi (- 151) / 2 powi (- 149) = 1 / 4" by (simp flip: powi_diff2)
  then have y: "0 < y" "y < 1 / 4" using assms(1) divide_strict_right_mono [OF assms(2), of "2 powi (- 149)"] by (simp_all add: y_def)
  define l where "l = \<lfloor>log 2 \<bar>v\<bar>\<rfloor>"
  have av: "\<bar>v\<bar> = a" using assms(1) v by simp
  have "log 2 a < real_of_int (- 151)" using assms(1,2) powr_real_of_int' [of 2 "- 151"] by (subst log_less_iff) simp_all
  then have l: "l \<le> - 151" unfolding l_def av by linarith
  have "log 2 a < real_of_int (l + 1)" unfolding l_def av by linarith
  then have al: "a < 2 powi (l + 1)" using assms(1) powr_real_of_int' [of 2 "l + 1"] by (subst (asm) log_less_iff) simp_all
  have "a / 2 powi (l - 23) < 2 ^ 24" using al powi_shift2_Suc [of 23 l] by (simp add: pos_divide_less_eq)
  then have "\<lceil>a / 2 powi (l - 23)\<rceil> \<le> 2 ^ 24" by (simp add: ceiling_le_iff less_imp_le)
  then have ub: "rmag rm s (a / 2 powi (l - 23)) \<le> 2 ^ 24" using rmag_bounds(2) [of rm s "a / 2 powi (l - 23)"] by linarith
  have lb: "0 \<le> rmag rm s (a / 2 powi (l - 23))"
    using rmag_bounds(1) [of "a / 2 powi (l - 23)" rm s] assms(1) by (simp add: order_trans [rotated])
  have "\<bar>uround SP_MBITS rm v\<bar> = of_int (rmag rm s (a / 2 powi (l - 23))) * 2 powi (l - 23)"
    unfolding uround_def l_def [symmetric] unfolding v by (simp only: round_at_signed [OF assms(1)]) (use lb in simp)
  also have "\<dots> \<le> 2 ^ 24 * 2 powi (l - 23)" using ub by simp
  also have "\<dots> = 2 powi (l + 1)" using powi_shift2_Suc [of 23 l] by simp
  also have "\<dots> < 2 powi (- 126)" using l by (simp only: powi_less2)
  finally have ti: "tiny SP_MBITS SP_EMIN rm v" by (simp add: tiny_def)
  from l have "fexp SP_MBITS SP_EMIN v = - 149" by (simp add: fexp_def l_def)
  then have "fexp SP_MBITS SP_EMIN v = - 149" by (simp add: fexp_def)
  then have fr: "fround SP_MBITS SP_EMIN rm v = sgn_of s * (of_int (rmag rm s y) * 2 powi (- 149))"
    unfolding fround_def v y_def by (simp only: round_at_signed [OF assms(1)])
  have y01: "\<lfloor>y\<rfloor> = 0" "\<lceil>y\<rceil> = 1" using y by (simp_all add: floor_eq_iff ceiling_eq_iff)
  then have "half_even y = 0" using y by (simp add: half_even_def)
  with y01 have rm: "rmag rm s y = of_bool up" unfolding up by (cases rm; cases s) simp_all
  have f: "fround SP_MBITS SP_EMIN rm v = (if up then sgn_of s * 2 powi (- 149) else 0)" unfolding fr rm by simp
  have "(2::real) powi (- 149) < 2 powi 128" by (simp only: powi_less2)
  then have ov: "\<not> overflows SP_MBITS SP_EMIN SP_EMAX rm v" unfolding overflows_def f by (simp add: abs_mult)
  have "(2::real) powi (- 151) < 2 powi (- 149)" by (simp only: powi_less2)
  then have "a < 2 powi (- 149)" using assms(2) by linarith
  moreover have "\<bar>fround SP_MBITS SP_EMIN rm v\<bar> = (if up then 2 powi (- 149) else 0)" unfolding f by (simp add: abs_mult)
  ultimately have "\<bar>fround SP_MBITS SP_EMIN rm v\<bar> \<noteq> a" using assms(1) by auto
  then have ne: "fround SP_MBITS SP_EMIN rm v \<noteq> v" using av by auto
  show "ieee_flags SP_MBITS SP_EMIN SP_EMAX trap rm v = IEEE754_UNDERFLOW OR IEEE754_INEXACT"
    using ov ne ti by (simp add: ieee_flags_def)
  have "v < 0 \<longleftrightarrow> s" using assms(1) v by (cases s) simp_all
  moreover have "ieee754sp_mind s = buildsp s (SP_EMIN - 1 + SP_EBIAS) 1"
    by (cases s) (simp_all add: ieee754sp_mind_def ieee754sp_spcvals_def)
  moreover have "ieee754sp_zero s = buildsp s (SP_EMIN - 1 + SP_EBIAS) 0" by (simp add: sp_constants fp_zero_def sp_fields)
  ultimately show "sp_correct rm v (if up then ieee754sp_mind s else ieee754sp_zero s)"
    using ov f sp.build_denorm [of 1 s] sp.build_denorm [of 0 s] by (simp add: fp_correct_def fp_rounds_def sp_fields)
qed

lemma sp_fdp_norm:
  assumes nod: "csr_nod c = 0" and m: "2 ^ DP_MBITS \<le> unat m" "unat m < 2 ^ (DP_MBITS + 1)"
    and v: "v = sgn_of s * (unat m * 2 powi (e - int DP_MBITS))"
  shows "\<exists>r. SPNORMRET2 c s e ((ucast (drop_bit 26 m) :: u32) OR of_bool (push_bit 38 (m :: u64) \<noteq> 0)) =
      (SETCX (sp_flags c v) c, r) \<and> sp_correct (rmode_of c) v r"
proof -
  define w where "w = (ucast (drop_bit 26 m) :: u32) OR of_bool (push_bit 38 m \<noteq> 0)"
  have w: "w = ucast (drop_bit 26 m OR of_bool (push_bit 38 m \<noteq> 0))"
    unfolding w_def by (rule bit_word_eqI) (auto simp: bit_simps)
  have st: "unat (drop_bit 26 m OR of_bool (push_bit 38 m \<noteq> 0)) = srs (unat m) 26" using unat_sticky [of 26 m] by simp
  have lt: "srs (unat m) 26 < 2 ^ 27" by (rule srs_less) (use m(2) in simp_all)
  have "(2::nat) ^ DP_MBITS div 2 ^ 26 \<le> unat m div 2 ^ 26" using m(1) by (rule div_le_mono)
  then have ge: "2 ^ 26 \<le> srs (unat m) 26" using srs_ge [of "unat m" 26] by simp
  have u: "unat w = srs (unat m) 26" unfolding w using st lt by (simp add: unsigned_ucast_eq take_bit_nat_eq_self)
  have "(2::real) powi (e - 26) = 2 ^ 26 * 2 powi (e - 52)" using powi_shift2 [of 26 "e - 26"] by simp
  then have v': "v = sgn_of s * (real (unat m) / 2 ^ 26 * 2 powi (e - int SP_MBITS - 3))" unfolding v by simp
  show ?thesis unfolding w_def [symmetric] sp_normret
    by (rule sp.fmt_correct [OF nod _ _ _ v']) (use lt ge u cell_2_4 [OF cell_srs [of "unat m" 26]] in simp_all)
qed

lemma sp_fdp_finite:
  assumes nod: "csr_nod c = 0" and fin: "dp_fin x"
  shows "\<exists>r. ieee754sp_fdp c x = (if dp_val x = 0 then CLEARCX c else SETCX (sp_flags c (dp_val x)) (CLEARCX c), r) \<and>
    (if dp_val x = 0 then r = ieee754sp_zero (DPSIGN x) else sp_correct (rmode_of c) (dp_val x) r)"
proof -
  obtain k s e m where ex: "EXPLODEDP x = (k, s, e, m)" by (metis prod_cases4)
  note exf = ex [unfolded dp_explode] and nod' = nod [folded CLEARCX_simps(2) [of c]]
  have ks: "k = fp_class DP_MBITS x" "s = DPSIGN x" using dp.explode_class [OF exf] by (simp_all add: dp_fields)
  consider (zero) "k = CLASS_ZERO" | (norm) "k = CLASS_NORM" | (dnorm) "k = CLASS_DNORM" using ks(1) fin dp.class_fin [of x] by auto
  then show ?thesis
  proof cases
    case zero
    then show ?thesis using nod ks dp.val_zero_iff [OF fin] by (simp add: ieee754sp_fdp_def ex dp_flush_off)
  next
    case norm
    note ez = dp.explode_nonzero [OF exf disjI1 [OF norm]]
    have nz: "dp_val x \<noteq> 0" using dp.val_nonzero_iff [OF fin] ks norm by simp
    show ?thesis using sp_fdp_norm [OF nod' ez(7) [OF norm] ez(4,2)] nod norm nz
      by (simp add: ieee754sp_fdp_def ex dp_flush_off)
  next
    case dnorm
    note ez = dp.explode_nonzero [OF exf disjI2 [OF dnorm]]
    have nz: "dp_val x \<noteq> 0" using dp.val_nonzero_iff [OF fin] ks dnorm by simp
    define a where "a = unat m * (2 powi (e - int DP_MBITS) :: real)"
    have "real (unat m) < real (2 ^ DP_MBITS)" using ez(8) [OF dnorm] by (simp only: of_nat_less_iff)
    then have "a < 2 ^ DP_MBITS * 2 powi (e - int DP_MBITS)" unfolding a_def by simp
    also have "\<dots> = 2 powi e" by (rule powi_shift2)
    also have "\<dots> < 2 powi (- 151)" using ez(8) [OF dnorm] by (simp only: powi_less2)
    finally have a: "0 < a" "a < 2 powi (- 151)" "dp_val x = sgn_of s * a" using ez(2,3) by (simp_all add: a_def)
    define up where "up \<longleftrightarrow> rmode_of c = RU \<and> \<not> s \<or> rmode_of c = RD \<and> s"
    note su = sp_underflow_all [OF a up_def]
    have "csr_rm c = IEEE754_RU \<and> \<not> s \<or> csr_rm c = IEEE754_RD \<and> s \<longleftrightarrow> up" unfolding up_def by (cases c rule: rm_cases) simp_all
    then have "ieee754sp_fdp c x = (SETCX (sp_flags c (dp_val x)) (CLEARCX c), if up then ieee754sp_mind s else ieee754sp_zero s)"
      using nod dnorm su(2) [of "uf_enabled c"] by (simp add: ieee754sp_fdp_def ex dp_flush_off SETCX_SETCX)
    then show ?thesis using su(1) nz by simp
  qed
qed

text \<open>
  C29. Narrowing a finite double to single precision rounds its value in the current mode with exactly the exceptions of the
  specification; a zero keeps its sign and raises nothing.
\<close>

theorem sp_fdp_correct:
  assumes "csr_nod c = 0" and "dp_fin x"
  shows "\<exists>r. ieee754sp_fdp c x = (if dp_val x = 0 then CLEARCX c else SETCX (sp_flags c (dp_val x)) (CLEARCX c), r) \<and>
    (if dp_val x = 0 then r = ieee754sp_zero (DPSIGN x) else sp_correct (rmode_of c) (dp_val x) r)"
  by (rule sp_fdp_finite [OF assms])

theorem sp_fdp_correct_witness: "sp_correct RN (1 + 1 / 2 ^ 24) 0x3f800000"
proof -
  have x: "dp_fin 0x3ff0000010000000" "dp_val 0x3ff0000010000000 = 1 + 1 / 2 ^ 24" by (simp_all add: ground_value)
  have "ieee754sp_fdp (csr_of_fcr31 0) 0x3ff0000010000000 = (csr_of_fcr31 0x1004, 0x3f800000)" by code_simp
  then show ?thesis using sp_fdp_correct [of "csr_of_fcr31 0" "0x3ff0000010000000"] by (simp add: csr_reset x)
qed

section \<open>Round trip\<close>

lemma fp_val_inj:
  fixes x y :: "'a::len word"
  assumes "p < LENGTH('a)" and "fp_val p emin x = fp_val p emin y" and "fsign x = fsign y"
  shows "x = y"
proof -
  have "cmp_key x = cmp_key y" using cmp_key_order(2) [OF assms(1)] assms(2) by blast
  then have "fp_mag x = fp_mag y" using sint_cmp_key [of x] sint_cmp_key [of y] assms(3) by (simp split: if_splits)
  then show ?thesis using unat_fp_mag [of x] unat_fp_mag [of y] assms(3) by (simp only: word_unat_eq_iff)
qed

lemma fp_correct_unique:
  fixes x y :: "'a::len word"
  assumes "p < LENGTH('a)" and "fp_correct p emin emax rm v x" and "fp_correct p emin emax rm v y"
  shows "x = y"
  using assms fp_val_inj [OF assms(1), of emin x y] unfolding fp_correct_def fp_rounds_def by (auto split: if_splits)

lemma sp_dp_quiet:
  assumes nod: "csr_nod c = 0" and k: "ieee754sp_class x = CLASS_QNAN"
  shows "snd (ieee754sp_fdp c (snd (ieee754dp_fsp c x))) = x"
proof -
  have x: "SPBEXP x = 255" "SPMANT x \<noteq> 0" "SPMANT x AND SP_MBIT (SP_MBITS - 1) = 0"
    using k by (auto simp: ieee754sp_class_def EXPLODESP_def Let_def split: if_splits)
  define m where "m = (push_bit 29 (ucast (SPMANT x)) :: u64)"
  have mb: "bit m n \<longleftrightarrow> 29 \<le> n \<and> bit (SPMANT x) (n - 29)" for n
    unfolding m_def by (auto simp: bit_simps dest: bit_imp_le_length)
  have "unat (SPMANT x) < 2 ^ 23" using unat_fmant_less [of 23 x] by (simp add: sp_fields)
  then have u: "unat m = unat (SPMANT x) * 2 ^ 29" unfolding m_def
    by (subst unat_push_bit) (simp_all add: unsigned_ucast_eq take_bit_nat_eq_self)
  have m52: "unat m < 2 ^ DP_MBITS" using u \<open>unat (SPMANT x) < 2 ^ 23\<close> by simp
  have m0: "m \<noteq> 0" using x(2) u by (auto simp: unat_eq_0 [symmetric])
  define W where "W = builddp (SPSIGN x) 2047 m"
  have W: "DPSIGN W = SPSIGN x" "DPBEXP W = 2047" "DPMANT W = m"
    unfolding W_def dp_fields using m52 by (simp_all add: fmant_fbuild fbexp_fbuild)
  have q: "m AND DP_MBIT (DP_MBITS - 1) = 0" using x(3) unfolding DP_MBIT_def SP_MBIT_def and_bit_iff mb by simp
  have exW: "EXPLODEDP W = (CLASS_QNAN, SPSIGN x, 2047, m)" using W m0 q by (simp add: EXPLODEDP_def)
  have "EXPLODESP x = (CLASS_QNAN, SPSIGN x, 255, SPMANT x)" using x by (simp add: EXPLODESP_def)
  then have "ieee754dp_fsp c x = (CLEARCX c, W)" using nod dp_quiet [of W "CLEARCX c"] exW
    by (simp add: ieee754dp_fsp_def sp_flush_off m_def [symmetric] W_def [symmetric] ieee754dp_class_def)
  moreover have "buildsp (SPSIGN x) 255 (ucast (drop_bit 29 m)) = x"
  proof -
    have "ucast (drop_bit 29 m) = SPMANT x" by (rule bit_word_eqI) (auto simp: bit_simps mb)
    then show ?thesis using x(1) fbuild_fields [of 23 x] by (simp add: sp_fields)
  qed
  moreover have "ieee754sp_isnan x" "\<not> ieee754sp_issnan x" using k x(3) by (simp_all add: ieee754sp_isnan_def ieee754sp_issnan_def)
  ultimately show ?thesis using nod exW by (simp add: ieee754sp_fdp_def dp_flush_off ieee754sp_nanxcpt_def)
qed

text \<open>
  C31. Widening a single precision number and narrowing it again gives the same bit pattern in every rounding
  mode, for numbers, zeros, infinities and quiet NaNs.
\<close>

theorem sp_dp_roundtrip:
  assumes nod: "csr_nod c = 0" and ns: "ieee754sp_class x \<noteq> CLASS_SNAN"
  shows "snd (ieee754sp_fdp c (snd (ieee754dp_fsp c x))) = x"
proof -
  obtain k s e m where ex: "EXPLODESP x = (k, s, e, m)" by (metis prod_cases4)
  have ks: "fp_class SP_MBITS x = k" "fsign x = s" using sp.explode_class [OF ex [unfolded sp_explode]] by simp_all
  consider (q) "k = CLASS_QNAN" | (inf) "k = CLASS_INF" | (zero) "sp_fin x" "sp_val x = 0" | (nz) "sp_fin x" "sp_val x \<noteq> 0"
    using ns sp.class_fin [of x] unfolding sp_class ks by (cases k) auto
  then show ?thesis
  proof cases
    case q
    then show ?thesis using sp_dp_quiet [OF nod] by (simp add: sp_class ks)
  next
    case inf
    then have "x = ieee754sp_inf s" using ks fbuild_fields [of 23 x] by (auto simp: sp_constants fp_inf_def fp_class_def split: if_splits)
    moreover have "EXPLODEDP (ieee754dp_inf s) = (CLASS_INF, s, 2047, 0)"
      by (cases s) (simp_all add: ieee754dp_inf_def ieee754dp_spcvals_def DPSTR_def builddp_def EXPLODEDP_def DPSIGN_def DPBEXP_def DPMANT_def)
    moreover have "ieee754dp_fsp c x = (CLEARCX c, ieee754dp_inf s)" using nod inf by (simp add: ieee754dp_fsp_def ex sp_flush_off)
    ultimately show ?thesis using nod by (simp add: ieee754sp_fdp_def dp_flush_off)
  next
    case zero
    have "k = CLASS_ZERO" using sp.val_zero_iff zero ks by simp
    then have "ieee754dp_fsp c x = (CLEARCX c, ieee754dp_zero s)" using nod by (simp add: ieee754dp_fsp_def ex sp_flush_off)
    moreover have "x = ieee754sp_zero s" using sp.class_zero(3) [of x] \<open>k = CLASS_ZERO\<close> ks by (simp add: sp_constants fp_zero_def)
    moreover have "DPSIGN (ieee754dp_zero s) = s" by (simp add: dp_constants dp_fields fp_zero_def)
    ultimately show ?thesis using sp_fdp_finite [OF nod dp_zero_one(1) [of s]] dp_zero_one(2) [of s] by auto
  next
    case nz
    then obtain w where w: "ieee754dp_fsp c x = (CLEARCX c, w)" "dp_fin w" "dp_val w = sp_val x" using dp_fsp_nonzero [OF nod] by blast
    then have "sp_correct (rmode_of c) (sp_val x) (snd (ieee754sp_fdp c w))" using sp_fdp_finite [OF nod w(2)] nz by auto
    then show ?thesis using fp_correct_unique [OF _ _ sp.correct_self(1) [OF nz]] w(1) by simp
  qed
qed

theorem sp_dp_roundtrip_witness: "snd (ieee754sp_fdp (csr_of_fcr31 0) (snd (ieee754dp_fsp (csr_of_fcr31 0) 0x00000001))) = 0x00000001"
proof -
  have "ieee754sp_class 1 \<noteq> CLASS_SNAN" by code_simp
  then show ?thesis using sp_dp_roundtrip [of "csr_of_fcr31 0" 1] by (simp add: csr_reset)
qed

end
