(* ===== verification/Machine.thy ===== *)
theory Machine
  imports Ieee754
begin

text \<open>
  The machine as the emulator sees it: the fields of an instruction word (\<^verbatim>\<open>asm-mips/inst.h\<close>), the
  saved registers of a trap (\<^verbatim>\<open>struct pt_regs\<close>), the FPU context (\<^verbatim>\<open>struct mips_fpu_struct\<close>), the
  emulator statistics, and user memory behind the access macros of \<^verbatim>\<open>asm-mips/uaccess.h\<close>. The
  kernel is a big endian 32 bit one, so an \<^verbatim>\<open>unsigned long\<close> is a \<open>u32\<close> and a 64 bit user
  access is two word accesses, the upper half at the lower address.
\<close>

section \<open>Instruction fields\<close>

definition MIPSInst_OPCODE :: "u32 \<Rightarrow> 6 word" where
  "MIPSInst_OPCODE x = ucast (drop_bit 26 x)"

definition MIPSInst_JTARGET :: "u32 \<Rightarrow> u32" where
  "MIPSInst_JTARGET x = x AND 0x03ffffff"

definition MIPSInst_RS :: "u32 \<Rightarrow> 5 word" where
  "MIPSInst_RS x = ucast (drop_bit 21 (x AND 0x03e00000))"

definition MIPSInst_RT :: "u32 \<Rightarrow> 5 word" where
  "MIPSInst_RT x = ucast (drop_bit 16 (x AND 0x001f0000))"

definition MIPSInst_SIMM :: "u32 \<Rightarrow> u32" where
  "MIPSInst_SIMM x = scast (ucast (x AND 0xffff) :: 16 word)"

definition MIPSInst_RD :: "u32 \<Rightarrow> 5 word" where
  "MIPSInst_RD x = ucast (drop_bit 11 (x AND 0x0000f800))"

definition MIPSInst_FUNC :: "u32 \<Rightarrow> 6 word" where
  "MIPSInst_FUNC x = ucast (x AND 0x0000003f)"

definition MIPSInst_FFMT :: "u32 \<Rightarrow> 4 word" where
  "MIPSInst_FFMT x = ucast (drop_bit 21 (x AND 0x01e00000))"

definition MIPSInst_FT :: "u32 \<Rightarrow> 5 word" where
  "MIPSInst_FT x = ucast (drop_bit 16 (x AND 0x001f0000))"

definition MIPSInst_FS :: "u32 \<Rightarrow> 5 word" where
  "MIPSInst_FS x = ucast (drop_bit 11 (x AND 0x0000f800))"

definition MIPSInst_FD :: "u32 \<Rightarrow> 5 word" where
  "MIPSInst_FD x = ucast (drop_bit 6 (x AND 0x000007c0))"

definition MIPSInst_FR :: "u32 \<Rightarrow> 5 word" where
  "MIPSInst_FR x = ucast (drop_bit 21 (x AND 0x03e00000))"

definition MIPSInst_FMA_FFMT :: "u32 \<Rightarrow> u32" where
  "MIPSInst_FMA_FFMT x = x AND 0x00000003"

section \<open>Operation codes\<close>

abbreviation (input) spec_op :: "6 word" where "spec_op \<equiv> 0x00"
abbreviation (input) bcond_op :: "6 word" where "bcond_op \<equiv> 0x01"
abbreviation (input) j_op :: "6 word" where "j_op \<equiv> 0x02"
abbreviation (input) jal_op :: "6 word" where "jal_op \<equiv> 0x03"
abbreviation (input) beq_op :: "6 word" where "beq_op \<equiv> 0x04"
abbreviation (input) bne_op :: "6 word" where "bne_op \<equiv> 0x05"
abbreviation (input) blez_op :: "6 word" where "blez_op \<equiv> 0x06"
abbreviation (input) bgtz_op :: "6 word" where "bgtz_op \<equiv> 0x07"
abbreviation (input) cop0_op :: "6 word" where "cop0_op \<equiv> 0x10"
abbreviation (input) cop1_op :: "6 word" where "cop1_op \<equiv> 0x11"
abbreviation (input) cop2_op :: "6 word" where "cop2_op \<equiv> 0x12"
abbreviation (input) cop1x_op :: "6 word" where "cop1x_op \<equiv> 0x13"
abbreviation (input) beql_op :: "6 word" where "beql_op \<equiv> 0x14"
abbreviation (input) bnel_op :: "6 word" where "bnel_op \<equiv> 0x15"
abbreviation (input) blezl_op :: "6 word" where "blezl_op \<equiv> 0x16"
abbreviation (input) bgtzl_op :: "6 word" where "bgtzl_op \<equiv> 0x17"
abbreviation (input) jalx_op :: "6 word" where "jalx_op \<equiv> 0x1d"
abbreviation (input) lwc1_op :: "6 word" where "lwc1_op \<equiv> 0x31"
abbreviation (input) ldc1_op :: "6 word" where "ldc1_op \<equiv> 0x35"
abbreviation (input) swc1_op :: "6 word" where "swc1_op \<equiv> 0x39"
abbreviation (input) sdc1_op :: "6 word" where "sdc1_op \<equiv> 0x3d"

abbreviation (input) movc_op :: "6 word" where "movc_op \<equiv> 0x01"
abbreviation (input) jr_op :: "6 word" where "jr_op \<equiv> 0x08"
abbreviation (input) jalr_op :: "6 word" where "jalr_op \<equiv> 0x09"

abbreviation (input) bltz_op :: "5 word" where "bltz_op \<equiv> 0x00"
abbreviation (input) bgez_op :: "5 word" where "bgez_op \<equiv> 0x01"
abbreviation (input) bltzl_op :: "5 word" where "bltzl_op \<equiv> 0x02"
abbreviation (input) bgezl_op :: "5 word" where "bgezl_op \<equiv> 0x03"
abbreviation (input) bltzal_op :: "5 word" where "bltzal_op \<equiv> 0x10"
abbreviation (input) bgezal_op :: "5 word" where "bgezal_op \<equiv> 0x11"
abbreviation (input) bltzall_op :: "5 word" where "bltzall_op \<equiv> 0x12"
abbreviation (input) bgezall_op :: "5 word" where "bgezall_op \<equiv> 0x13"
abbreviation (input) bposge32_op :: "5 word" where "bposge32_op \<equiv> 0x1c"

abbreviation (input) mfc_op :: "5 word" where "mfc_op \<equiv> 0x00"
abbreviation (input) cfc_op :: "5 word" where "cfc_op \<equiv> 0x02"
abbreviation (input) mtc_op :: "5 word" where "mtc_op \<equiv> 0x04"
abbreviation (input) ctc_op :: "5 word" where "ctc_op \<equiv> 0x06"
abbreviation (input) bc_op :: "5 word" where "bc_op \<equiv> 0x08"

abbreviation (input) bcf_op :: "5 word" where "bcf_op \<equiv> 0"
abbreviation (input) bct_op :: "5 word" where "bct_op \<equiv> 1"
abbreviation (input) bcfl_op :: "5 word" where "bcfl_op \<equiv> 2"
abbreviation (input) bctl_op :: "5 word" where "bctl_op \<equiv> 3"

abbreviation (input) s_fmt :: "4 word" where "s_fmt \<equiv> 0"
abbreviation (input) d_fmt :: "4 word" where "d_fmt \<equiv> 1"
abbreviation (input) w_fmt :: "4 word" where "w_fmt \<equiv> 4"

abbreviation (input) fadd_op :: "6 word" where "fadd_op \<equiv> 0x00"
abbreviation (input) fsub_op :: "6 word" where "fsub_op \<equiv> 0x01"
abbreviation (input) fmul_op :: "6 word" where "fmul_op \<equiv> 0x02"
abbreviation (input) fdiv_op :: "6 word" where "fdiv_op \<equiv> 0x03"
abbreviation (input) fsqrt_op :: "6 word" where "fsqrt_op \<equiv> 0x04"
abbreviation (input) fabs_op :: "6 word" where "fabs_op \<equiv> 0x05"
abbreviation (input) fmov_op :: "6 word" where "fmov_op \<equiv> 0x06"
abbreviation (input) fneg_op :: "6 word" where "fneg_op \<equiv> 0x07"
abbreviation (input) fround_op :: "6 word" where "fround_op \<equiv> 0x0c"
abbreviation (input) ftrunc_op :: "6 word" where "ftrunc_op \<equiv> 0x0d"
abbreviation (input) fceil_op :: "6 word" where "fceil_op \<equiv> 0x0e"
abbreviation (input) ffloor_op :: "6 word" where "ffloor_op \<equiv> 0x0f"
abbreviation (input) fmovc_op :: "6 word" where "fmovc_op \<equiv> 0x11"
abbreviation (input) fmovz_op :: "6 word" where "fmovz_op \<equiv> 0x12"
abbreviation (input) fmovn_op :: "6 word" where "fmovn_op \<equiv> 0x13"
abbreviation (input) frecip_op :: "6 word" where "frecip_op \<equiv> 0x15"
abbreviation (input) frsqrt_op :: "6 word" where "frsqrt_op \<equiv> 0x16"
abbreviation (input) fcvts_op :: "6 word" where "fcvts_op \<equiv> 0x20"
abbreviation (input) fcvtd_op :: "6 word" where "fcvtd_op \<equiv> 0x21"
abbreviation (input) fcvtw_op :: "6 word" where "fcvtw_op \<equiv> 0x24"
abbreviation (input) fcmp_op :: "6 word" where "fcmp_op \<equiv> 0x30"

abbreviation (input) lwxc1_op :: "6 word" where "lwxc1_op \<equiv> 0x00"
abbreviation (input) ldxc1_op :: "6 word" where "ldxc1_op \<equiv> 0x01"
abbreviation (input) pfetch_op :: "6 word" where "pfetch_op \<equiv> 0x07"
abbreviation (input) swxc1_op :: "6 word" where "swxc1_op \<equiv> 0x08"
abbreviation (input) sdxc1_op :: "6 word" where "sdxc1_op \<equiv> 0x09"
abbreviation (input) madd_s_op :: "6 word" where "madd_s_op \<equiv> 0x20"
abbreviation (input) madd_d_op :: "6 word" where "madd_d_op \<equiv> 0x21"
abbreviation (input) msub_s_op :: "6 word" where "msub_s_op \<equiv> 0x28"
abbreviation (input) msub_d_op :: "6 word" where "msub_d_op \<equiv> 0x29"
abbreviation (input) nmadd_s_op :: "6 word" where "nmadd_s_op \<equiv> 0x30"
abbreviation (input) nmadd_d_op :: "6 word" where "nmadd_d_op \<equiv> 0x31"
abbreviation (input) nmsub_s_op :: "6 word" where "nmsub_s_op \<equiv> 0x38"
abbreviation (input) nmsub_d_op :: "6 word" where "nmsub_d_op \<equiv> 0x39"

section \<open>Signals and register bits\<close>

abbreviation (input) SIGILL :: int where "SIGILL \<equiv> 4"
abbreviation (input) SIGFPE :: int where "SIGFPE \<equiv> 8"
abbreviation (input) SIGBUS :: int where "SIGBUS \<equiv> 10"
abbreviation (input) SIGSEGV :: int where "SIGSEGV \<equiv> 11"
abbreviation (input) EFAULT :: int where "EFAULT \<equiv> 14"

abbreviation (input) ST0_FR :: u32 where "ST0_FR \<equiv> 0x04000000"
abbreviation (input) CAUSEF_BD :: u32 where "CAUSEF_BD \<equiv> 0x80000000"

abbreviation (input) FPU_CSR_FLUSH :: u32 where "FPU_CSR_FLUSH \<equiv> 0x01000000"
abbreviation (input) FPU_CSR_ALL_X :: u32 where "FPU_CSR_ALL_X \<equiv> 0x0003f000"
abbreviation (input) FPU_CSR_INV_X :: u32 where "FPU_CSR_INV_X \<equiv> 0x00010000"
abbreviation (input) FPU_CSR_DIV_X :: u32 where "FPU_CSR_DIV_X \<equiv> 0x00008000"
abbreviation (input) FPU_CSR_OVF_X :: u32 where "FPU_CSR_OVF_X \<equiv> 0x00004000"
abbreviation (input) FPU_CSR_UDF_X :: u32 where "FPU_CSR_UDF_X \<equiv> 0x00002000"
abbreviation (input) FPU_CSR_INE_X :: u32 where "FPU_CSR_INE_X \<equiv> 0x00001000"
abbreviation (input) FPU_CSR_ALL_E :: u32 where "FPU_CSR_ALL_E \<equiv> 0x00000f80"
abbreviation (input) FPU_CSR_ALL_S :: u32 where "FPU_CSR_ALL_S \<equiv> 0x0000007c"
abbreviation (input) FPU_CSR_INV_S :: u32 where "FPU_CSR_INV_S \<equiv> 0x00000040"
abbreviation (input) FPU_CSR_DIV_S :: u32 where "FPU_CSR_DIV_S \<equiv> 0x00000020"
abbreviation (input) FPU_CSR_OVF_S :: u32 where "FPU_CSR_OVF_S \<equiv> 0x00000010"
abbreviation (input) FPU_CSR_UDF_S :: u32 where "FPU_CSR_UDF_S \<equiv> 0x00000008"
abbreviation (input) FPU_CSR_INE_S :: u32 where "FPU_CSR_INE_S \<equiv> 0x00000004"

section \<open>State\<close>

record pt_regs =
  regs :: "5 word \<Rightarrow> u32"
  cp0_status :: u32
  cp0_cause :: u32
  cp0_epc :: u32

record fpu_context = pt_regs +
  fpr :: "5 word \<Rightarrow> u64"
  fcr31 :: u32

record fpu_stats = fpu_context +
  emulated :: u32
  loads :: u32
  stores :: u32
  cp1ops :: u32
  cp1xops :: u32
  errors :: u32

text \<open>
  \<open>umem\<close> is the memory of the process and \<open>forced\<close> the signals sent with \<^verbatim>\<open>force_sig\<close>, latest
  first. The last three fields are read by the branch emulator only: whether the processor has the DSP
  extension, its \<^verbatim>\<open>DSPControl\<close> position field, and the control register of the hardware FPU when the
  process owns it.
\<close>

record 'm emu = fpu_stats +
  umem :: 'm
  forced :: "int list"
  cpu_has_dsp :: bool
  dspcontrol :: u32
  hw_fcr31 :: "u32 option"

definition force_sig :: "int \<Rightarrow> 'm emu \<Rightarrow> 'm emu" where
  "force_sig sig s = s\<lparr>forced := sig # forced s\<rparr>"

section \<open>User memory\<close>

text \<open>
  The word load and store instructions the access macros execute are a parameter of the model:
  \<open>uload\<close> and \<open>ustore\<close> deliver \<open>None\<close> when the access faults.
\<close>

record 'm user_ops =
  uload :: "'m \<Rightarrow> u32 \<Rightarrow> u32 option"
  ustore :: "'m \<Rightarrow> u32 \<Rightarrow> u32 \<Rightarrow> 'm option"

definition access_ok :: "u32 \<Rightarrow> u32 \<Rightarrow> bool" where
  "access_ok addr sz \<longleftrightarrow> 0x80000000 AND (addr OR (addr + sz)) = 0"

definition get_user :: "'m user_ops \<Rightarrow> 'm \<Rightarrow> u32 \<Rightarrow> u32 option" where
  "get_user U m a = (if access_ok a 4 then uload U m a else None)"

definition put_user :: "'m user_ops \<Rightarrow> 'm \<Rightarrow> u32 \<Rightarrow> u32 \<Rightarrow> 'm option" where
  "put_user U m a v = (if access_ok a 4 then ustore U m a v else None)"

definition uload64 :: "'m user_ops \<Rightarrow> 'm \<Rightarrow> u32 \<Rightarrow> u64 option" where
  "uload64 U m a = (case (uload U m a, uload U m (a + 4)) of
     (Some h, Some l) \<Rightarrow> Some (push_bit 32 (ucast h) OR ucast l) | _ \<Rightarrow> None)"

text \<open>A 64 bit store that faults on its second word has written the first.\<close>

definition ustore64 :: "'m user_ops \<Rightarrow> 'm \<Rightarrow> u32 \<Rightarrow> u64 \<Rightarrow> 'm \<times> bool" where
  "ustore64 U m a v = (case ustore U m a (ucast (drop_bit 32 v)) of
     None \<Rightarrow> (m, False)
   | Some m \<Rightarrow> (case ustore U m (a + 4) (ucast v) of None \<Rightarrow> (m, False) | Some m \<Rightarrow> (m, True)))"

definition get_user64 :: "'m user_ops \<Rightarrow> 'm \<Rightarrow> u32 \<Rightarrow> u64 option" where
  "get_user64 U m a = (if access_ok a 8 then uload64 U m a else None)"

definition put_user64 :: "'m user_ops \<Rightarrow> 'm \<Rightarrow> u32 \<Rightarrow> u64 \<Rightarrow> 'm \<times> bool" where
  "put_user64 U m a v = (if access_ok a 8 then ustore64 U m a v else (m, False))"

lemma and_not_disjoint:
  fixes x m :: "'a::len word"
  assumes "x AND m = 0"
  shows "x AND NOT m = x"
proof (rule bit_word_eqI)
  fix n assume "n < LENGTH('a)"
  moreover have "bit (x AND m) n = bit (0 :: 'a word) n" by (simp only: assms)
  ultimately show "bit (x AND NOT m) n = bit x n" by (auto simp: bit_simps)
qed

lemma low2: "(w :: u32) AND 3 = ucast (ucast w :: 2 word)"
proof (rule bit_word_eqI)
  have m: "(3 :: u32) = mask 2" by (simp add: mask_numeral)
  fix n show "bit (w AND 3) n = bit (ucast (ucast w :: 2 word) :: u32) n" unfolding m by (auto simp: bit_simps)
qed

lemma two_bits: "(v :: u32) AND 3 = 0 \<or> v AND 3 = 1 \<or> v AND 3 = 2 \<or> v AND 3 = 3"
  using word2_cases [of "ucast v"] unfolding low2 by auto

text \<open>Two words in memory that share no byte.\<close>

definition apart :: "u32 \<Rightarrow> u32 \<Rightarrow> bool" where
  "apart a b \<longleftrightarrow> 4 \<le> a - b \<and> 4 \<le> b - a"

lemma apart_sym: "apart a b \<Longrightarrow> apart b a"
  by (simp add: apart_def)

lemma apart_next [simp]: "apart (a + 4) a" "apart a (a + 4)"
  by (simp_all add: apart_def)

text \<open>What the hardware promises: a store is seen by the next load of its word and by none of a word apart from it.\<close>

locale user_memory =
  fixes U :: "'m user_ops"
  assumes load_same: "ustore U m a v = Some m' \<Longrightarrow> uload U m' a = Some v"
    and load_other: "ustore U m a v = Some m' \<Longrightarrow> uload U m b \<noteq> None \<Longrightarrow> apart a b \<Longrightarrow> uload U m' b = uload U m b"
begin

lemma get_put: "put_user U m a v = Some m' \<Longrightarrow> get_user U m' a = Some v"
  using load_same by (auto simp: get_user_def put_user_def split: if_splits)

lemma join_split64: "push_bit 32 (ucast (ucast (drop_bit 32 v) :: u32)) OR ucast (ucast v :: u32) = (v :: u64)"
  by (rule bit_word_eqI) (auto simp: bit_simps)

lemma get_put64:
  assumes "put_user64 U m a v = (m', True)"
  shows "get_user64 U m' a = Some v"
proof -
  obtain m1 where m1: "ustore U m a (ucast (drop_bit 32 v)) = Some m1" "ustore U m1 (a + 4) (ucast v) = Some m'" "access_ok a 8"
    using assms by (auto simp: put_user64_def ustore64_def split: if_splits option.splits)
  have "uload U m' a = Some (ucast (drop_bit 32 v))" using load_other [OF m1(2), of a] load_same [OF m1(1)] by simp
  then show ?thesis using m1(3) load_same [OF m1(2)] by (simp add: get_user64_def uload64_def join_split64)
qed

end

text \<open>Word memory: a partial map on aligned addresses, faulting elsewhere.\<close>

definition word_load :: "(u32 \<rightharpoonup> u32) \<Rightarrow> u32 \<Rightarrow> u32 option" where
  "word_load m a = (if a AND 3 = 0 then m a else None)"

definition word_store :: "(u32 \<rightharpoonup> u32) \<Rightarrow> u32 \<Rightarrow> u32 \<Rightarrow> (u32 \<rightharpoonup> u32) option" where
  "word_store m a v = (if a AND 3 = 0 \<and> m a \<noteq> None then Some (m(a \<mapsto> v)) else None)"

definition word_ops :: "(u32 \<rightharpoonup> u32) user_ops" where
  "word_ops = \<lparr>uload = word_load, ustore = word_store\<rparr>"

interpretation wm: user_memory word_ops
  by unfold_locales (auto simp: word_ops_def word_load_def word_store_def apart_def split: if_splits)

text \<open>A process at \<open>pc\<close> with memory \<open>m\<close> and all registers zero.\<close>

definition start :: "u32 \<Rightarrow> (u32 \<rightharpoonup> u32) \<Rightarrow> (u32 \<rightharpoonup> u32) emu" where
  "start pc m = \<lparr>regs = (\<lambda>r. 0), cp0_status = 0, cp0_cause = 0, cp0_epc = pc, fpr = (\<lambda>r. 0), fcr31 = 0,
     emulated = 0, loads = 0, stores = 0, cp1ops = 0, cp1xops = 0, errors = 0,
     umem = m, forced = [], cpu_has_dsp = False, dspcontrol = 0, hw_fcr31 = None\<rparr>"

end
