(* ===== verification/Branch.thy ===== *)
theory Branch
  imports Machine
begin

text \<open>
  The branch emulator of the kernel (\<^verbatim>\<open>arch/mips/kernel/branch.c\<close>, \<^verbatim>\<open>asm-mips/branch.h\<close>): it reads
  the branch at the saved EPC, sets the link register and moves the EPC to the instruction that
  follows the delay slot. An \<^verbatim>\<open>int\<close> result is 0 or \<open>- EFAULT\<close>.
\<close>

section \<open>The code\<close>

text \<open>The two ways a conditional branch leaves \<^verbatim>\<open>epc\<close>.\<close>

definition branch_epc :: "u32 \<Rightarrow> u32 \<Rightarrow> bool \<Rightarrow> u32" where
  "branch_epc epc insn taken = (if taken then epc + 4 + push_bit 2 (MIPSInst_SIMM insn) else epc + 8)"

definition set_reg :: "5 word \<Rightarrow> u32 \<Rightarrow> 'm emu \<Rightarrow> 'm emu" where
  "set_reg r v s = s\<lparr>regs := (regs s)(r := v)\<rparr>"

definition branch_bcond :: "u32 \<Rightarrow> u32 \<Rightarrow> 'm emu \<Rightarrow> 'm emu \<times> int" where
  "branch_bcond epc insn s =
     (let rs = MIPSInst_RS insn; rt = MIPSInst_RT insn
      in if rt = bltz_op \<or> rt = bltzl_op then
           (s\<lparr>cp0_epc := branch_epc epc insn (sint (regs s rs) < 0)\<rparr>, 0)
         else if rt = bgez_op \<or> rt = bgezl_op then
           (s\<lparr>cp0_epc := branch_epc epc insn (sint (regs s rs) \<ge> 0)\<rparr>, 0)
         else if rt = bltzal_op \<or> rt = bltzall_op then
           let s = set_reg 31 (epc + 8) s
           in (s\<lparr>cp0_epc := branch_epc epc insn (sint (regs s rs) < 0)\<rparr>, 0)
         else if rt = bgezal_op \<or> rt = bgezall_op then
           let s = set_reg 31 (epc + 8) s
           in (s\<lparr>cp0_epc := branch_epc epc insn (sint (regs s rs) \<ge> 0)\<rparr>, 0)
         else if rt = bposge32_op then
           if \<not> cpu_has_dsp s then (force_sig SIGBUS s, - EFAULT)
           else (s\<lparr>cp0_epc := branch_epc epc insn (dspcontrol s \<ge> 32)\<rparr>, 0)
         else (s, 0))"

definition branch_cop1 :: "u32 \<Rightarrow> u32 \<Rightarrow> 'm emu \<Rightarrow> 'm emu \<times> int" where
  "branch_cop1 epc insn s =
     (let csr = (case hw_fcr31 s of Some w \<Rightarrow> w | None \<Rightarrow> fcr31 s);
          rt = MIPSInst_RT insn;
          b = unat (drop_bit 2 rt);
          b = b + of_bool (b \<noteq> 0);
          b = b + 23
      in if rt AND 3 = 0 \<or> rt AND 3 = 2 then
           (s\<lparr>cp0_epc := branch_epc epc insn (NOT csr AND push_bit b 1 \<noteq> 0)\<rparr>, 0)
         else (s\<lparr>cp0_epc := branch_epc epc insn (csr AND push_bit b 1 \<noteq> 0)\<rparr>, 0))"

definition compute_return_epc_insn :: "u32 \<Rightarrow> u32 \<Rightarrow> 'm emu \<Rightarrow> 'm emu \<times> int" where
  "compute_return_epc_insn epc insn s =
     (let opcode = MIPSInst_OPCODE insn; rs = MIPSInst_RS insn; rt = MIPSInst_RT insn
      in if opcode = spec_op then
           if MIPSInst_FUNC insn = jalr_op then
             let s = set_reg (MIPSInst_RD insn) (epc + 8) s in (s\<lparr>cp0_epc := regs s rs\<rparr>, 0)
           else if MIPSInst_FUNC insn = jr_op then (s\<lparr>cp0_epc := regs s rs\<rparr>, 0)
           else (s, 0)
         else if opcode = bcond_op then branch_bcond epc insn s
         else if opcode = jal_op \<or> opcode = j_op then
           let s = (if opcode = jal_op then set_reg 31 (cp0_epc s + 8) s else s);
               epc = epc + 4;
               epc = signed_drop_bit 28 epc;
               epc = push_bit 28 epc;
               epc = epc OR push_bit 2 (MIPSInst_JTARGET insn)
           in (s\<lparr>cp0_epc := epc\<rparr>, 0)
         else if opcode = beq_op \<or> opcode = beql_op then
           (s\<lparr>cp0_epc := branch_epc epc insn (regs s rs = regs s rt)\<rparr>, 0)
         else if opcode = bne_op \<or> opcode = bnel_op then
           (s\<lparr>cp0_epc := branch_epc epc insn (regs s rs \<noteq> regs s rt)\<rparr>, 0)
         else if opcode = blez_op \<or> opcode = blezl_op then
           (s\<lparr>cp0_epc := branch_epc epc insn (sint (regs s rs) \<le> 0)\<rparr>, 0)
         else if opcode = bgtz_op \<or> opcode = bgtzl_op then
           (s\<lparr>cp0_epc := branch_epc epc insn (sint (regs s rs) > 0)\<rparr>, 0)
         else if opcode = cop1_op then branch_cop1 epc insn s
         else (s, 0))"

definition compute_return_epc :: "'m user_ops \<Rightarrow> 'm emu \<Rightarrow> 'm emu \<times> int" where
  "compute_return_epc U s =
     (let epc = cp0_epc s
      in if epc AND 3 \<noteq> 0 then (force_sig SIGBUS s, - EFAULT)
         else case uload U (umem s) epc of
           None \<Rightarrow> (force_sig SIGSEGV s, - EFAULT)
         | Some insn \<Rightarrow> compute_return_epc_insn epc insn (set_reg 0 0 s))"

definition delay_slot :: "'m emu \<Rightarrow> bool" where
  "delay_slot s \<longleftrightarrow> cp0_cause s AND CAUSEF_BD \<noteq> 0"

definition exception_epc :: "'m emu \<Rightarrow> u32" where
  "exception_epc s = (if \<not> delay_slot s then cp0_epc s else cp0_epc s + 4)"

text \<open>The inline \<^verbatim>\<open>compute_return_epc\<close>, which skips an instruction that is not in a delay slot.\<close>

definition skip_epc :: "'m user_ops \<Rightarrow> 'm emu \<Rightarrow> 'm emu \<times> int" where
  "skip_epc U s = (if \<not> delay_slot s then (s\<lparr>cp0_epc := cp0_epc s + 4\<rparr>, 0) else compute_return_epc U s)"

lemma branch_memory: "umem (fst (compute_return_epc U s)) = umem s"
  by (simp add: compute_return_epc_def compute_return_epc_insn_def branch_bcond_def branch_cop1_def set_reg_def force_sig_def Let_def split: option.split)

lemma branch_delay: "delay_slot (fst (compute_return_epc U s)) = delay_slot s"
  by (simp add: delay_slot_def compute_return_epc_def compute_return_epc_insn_def branch_bcond_def branch_cop1_def set_reg_def force_sig_def Let_def split: option.split)

section \<open>The branches of the architecture\<close>

text \<open>
  The architecture's view of a control transfer: what it tests, where it goes and which register
  gets the return address. \<open>Fcc n\<close> is floating point condition \<open>n\<close>. The decoder knows the jumps and branches of MIPS32 on
  general registers and floating point conditions, with their likely forms, and \<^verbatim>\<open>bposge32\<close> of the DSP extension. It leaves out the branches on
  conditions of coprocessor 2 (\<^verbatim>\<open>bc2f\<close>, \<^verbatim>\<open>bc2t\<close>), the jump \<^verbatim>\<open>jalx\<close> to MIPS16 code and the branches on several conditions of
  MIPS-3D.
\<close>

datatype test = Eq "5 word" "5 word" | Ne "5 word" "5 word" | Lez "5 word" | Gtz "5 word" | Ltz "5 word" | Gez "5 word"
  | Fcc nat bool | PosGe32

datatype transfer = Jump | JumpReg "5 word" | Cond test

definition mips_decode :: "u32 \<Rightarrow> (transfer \<times> 5 word option) option" where
  "mips_decode i =
     (let opc = MIPSInst_OPCODE i; rs = MIPSInst_RS i; rt = MIPSInst_RT i; f = MIPSInst_FUNC i
      in if opc = 0 then
           if f = 8 then Some (JumpReg rs, None) else if f = 9 then Some (JumpReg rs, Some (MIPSInst_RD i)) else None
         else if opc = 1 then
           if rt = 0 \<or> rt = 2 then Some (Cond (Ltz rs), None)
           else if rt = 1 \<or> rt = 3 then Some (Cond (Gez rs), None)
           else if rt = 16 \<or> rt = 18 then Some (Cond (Ltz rs), Some 31)
           else if rt = 17 \<or> rt = 19 then Some (Cond (Gez rs), Some 31)
           else if rt = 28 then Some (Cond PosGe32, None)
           else None
         else if opc = 2 then Some (Jump, None)
         else if opc = 3 then Some (Jump, Some 31)
         else if opc = 4 \<or> opc = 20 then Some (Cond (Eq rs rt), None)
         else if opc = 5 \<or> opc = 21 then Some (Cond (Ne rs rt), None)
         else if opc = 6 \<or> opc = 22 then Some (Cond (Lez rs), None)
         else if opc = 7 \<or> opc = 23 then Some (Cond (Gtz rs), None)
         else if opc = 17 \<and> rs = 8 then Some (Cond (Fcc (unat (drop_bit 2 rt)) (odd (unat rt))), None)
         else None)"

definition fcc :: "u32 \<Rightarrow> nat \<Rightarrow> bool" where
  "fcc csr n = bit csr (if n = 0 then 23 else 24 + n)"

fun holds :: "(5 word \<Rightarrow> u32) \<Rightarrow> u32 \<Rightarrow> u32 \<Rightarrow> test \<Rightarrow> bool" where
  "holds R csr dsp (Eq a b) = (R a = R b)"
| "holds R csr dsp (Ne a b) = (R a \<noteq> R b)"
| "holds R csr dsp (Lez a) = (sint (R a) \<le> 0)"
| "holds R csr dsp (Gtz a) = (0 < sint (R a))"
| "holds R csr dsp (Ltz a) = (sint (R a) < 0)"
| "holds R csr dsp (Gez a) = (0 \<le> sint (R a))"
| "holds R csr dsp (Fcc n b) = (fcc csr n = b)"
| "holds R csr dsp PosGe32 = (32 \<le> dsp)"

text \<open>The instruction after the delay slot. A jump keeps the upper four bits of the delay slot's address.\<close>

fun next_pc :: "(5 word \<Rightarrow> u32) \<Rightarrow> u32 \<Rightarrow> u32 \<Rightarrow> u32 \<Rightarrow> u32 \<Rightarrow> transfer \<Rightarrow> u32" where
  "next_pc R csr dsp pc i Jump = (pc + 4) AND 0xf0000000 OR push_bit 2 (i AND 0x03ffffff)"
| "next_pc R csr dsp pc i (JumpReg r) = R r"
| "next_pc R csr dsp pc i (Cond t) =
     (if holds R csr dsp t then pc + 4 + push_bit 2 (scast (ucast i :: 16 word)) else pc + 8)"

text \<open>The link register gets the address behind the delay slot. Register 0 cannot be written.\<close>

definition link_regs :: "(5 word \<Rightarrow> u32) \<Rightarrow> u32 \<Rightarrow> 5 word option \<Rightarrow> 5 word \<Rightarrow> u32" where
  "link_regs R pc l = (case l of None \<Rightarrow> R | Some r \<Rightarrow> if r = 0 then R else R(r := pc + 8))"

text \<open>
  The instruction set leaves the result of a linking jump or branch open when it reads its own link register: \<^verbatim>\<open>jalr\<close> with two equal
  registers, \<^verbatim>\<open>bltzal\<close> and \<^verbatim>\<open>bgezal\<close> on register 31.
\<close>

fun reads :: "transfer \<Rightarrow> 5 word set" where
  "reads Jump = {}"
| "reads (JumpReg r) = {r}"
| "reads (Cond (Eq a b)) = {a, b}"
| "reads (Cond (Ne a b)) = {a, b}"
| "reads (Cond (Lez a)) = {a}"
| "reads (Cond (Gtz a)) = {a}"
| "reads (Cond (Ltz a)) = {a}"
| "reads (Cond (Gez a)) = {a}"
| "reads (Cond (Fcc n b)) = {}"
| "reads (Cond PosGe32) = {}"

definition predictable :: "transfer \<Rightarrow> 5 word option \<Rightarrow> bool" where
  "predictable t l = (case l of None \<Rightarrow> True | Some r \<Rightarrow> r \<notin> reads t)"

section \<open>The emulator follows the architecture\<close>

lemma jump_segment: "push_bit 28 (signed_drop_bit 28 (e :: u32)) = e AND 0xf0000000"
proof -
  have m: "(0xf0000000 :: u32) = NOT (mask 28)" by (simp add: mask_numeral)
  show ?thesis unfolding m by (rule bit_word_eqI) (auto simp: bit_simps)
qed

lemma simm_low: "MIPSInst_SIMM i = scast (ucast i :: 16 word)"
proof -
  have "i AND 0xffff = take_bit 16 i" by (simp add: take_bit_eq_mask mask_numeral)
  then have "(ucast (i AND 0xffff) :: 16 word) = ucast i" by (simp only:) (rule bit_word_eqI, auto simp: bit_simps)
  then show ?thesis by (simp add: MIPSInst_SIMM_def)
qed

lemma fcc_bit:
  fixes csr :: u32 and rt :: "5 word"
  assumes "b = unat (drop_bit 2 rt)"
  shows "csr AND push_bit (b + of_bool (b \<noteq> 0) + 23) 1 \<noteq> 0 \<longleftrightarrow> fcc csr b"
    and "NOT csr AND push_bit (b + of_bool (b \<noteq> 0) + 23) 1 \<noteq> 0 \<longleftrightarrow> \<not> fcc csr b"
proof -
  have "unat rt < 2 ^ LENGTH(5)" by (rule unsigned_less)
  then have "b < 8" unfolding assms unat_drop_bit by simp
  then have "b + of_bool (b \<noteq> 0) + 23 < 32" "b + of_bool (b \<noteq> 0) + 23 = (if b = 0 then 23 else 24 + b)" by auto
  then show "csr AND push_bit (b + of_bool (b \<noteq> 0) + 23) 1 \<noteq> 0 \<longleftrightarrow> fcc csr b"
    "NOT csr AND push_bit (b + of_bool (b \<noteq> 0) + 23) 1 \<noteq> 0 \<longleftrightarrow> \<not> fcc csr b"
    by (simp_all only: fcc_def and_exp_eq_0_iff_not_bit push_bit_of_1) (simp_all add: bit_simps)
qed

lemma rt_low_bits: "rt AND 3 = 0 \<or> rt AND 3 = 2 \<longleftrightarrow> even (unat (rt :: 5 word))"
proof -
  have u: "unat (rt AND 3) = unat rt mod 4" using unat_and_mask [of rt 2] by (simp add: mask_numeral)
  have "rt AND 3 = 0 \<or> rt AND 3 = 2 \<longleftrightarrow> unat (rt AND 3) = 0 \<or> unat (rt AND 3) = 2" by (simp only: word_unat_eq_iff) simp
  then show ?thesis unfolding u by presburger
qed

lemma branch_cop1_next:
  "branch_cop1 epc i s = (s\<lparr>cp0_epc := next_pc R (case hw_fcr31 s of Some w \<Rightarrow> w | None \<Rightarrow> fcr31 s) d epc i
     (Cond (Fcc (unat (drop_bit 2 (MIPSInst_RT i))) (odd (unat (MIPSInst_RT i)))))\<rparr>, 0)"
  using fcc_bit [OF refl, of _ "MIPSInst_RT i"]
  unfolding branch_cop1_def Let_def rt_low_bits branch_epc_def simm_low by (auto simp del: push_bit_of_1)

text \<open>The registers as the code leaves them, which does not treat register 0 apart.\<close>

definition written_regs :: "(5 word \<Rightarrow> u32) \<Rightarrow> u32 \<Rightarrow> 5 word option \<Rightarrow> 5 word \<Rightarrow> u32" where
  "written_regs R pc l = (case l of None \<Rightarrow> R | Some r \<Rightarrow> R(r := pc + 8))"

lemma branch_bcond_next:
  assumes "MIPSInst_OPCODE i = bcond_op" and "mips_decode i = Some (t, l)" and "t = Cond PosGe32 \<Longrightarrow> cpu_has_dsp s"
    and "R = written_regs (regs s) epc l"
  shows "branch_bcond epc i s = (s\<lparr>regs := R, cp0_epc := next_pc R c (dspcontrol s) epc i t\<rparr>, 0)"
proof -
  consider "MIPSInst_RT i = 0 \<or> MIPSInst_RT i = 2" | "MIPSInst_RT i = 1 \<or> MIPSInst_RT i = 3"
    | "MIPSInst_RT i = 16 \<or> MIPSInst_RT i = 18" | "MIPSInst_RT i = 17 \<or> MIPSInst_RT i = 19" | "MIPSInst_RT i = 28"
    using assms(1,2) by (auto simp: mips_decode_def Let_def split: if_splits)
  then show ?thesis
    using assms by cases (auto simp: mips_decode_def branch_bcond_def branch_epc_def simm_low written_regs_def set_reg_def not_le)
qed

lemma branch_next:
  assumes d: "mips_decode i = Some (t, l)" and e: "cp0_epc s = epc" and dsp: "t = Cond PosGe32 \<Longrightarrow> cpu_has_dsp s"
    and R: "R = written_regs (regs s) epc l"
  shows "compute_return_epc_insn epc i s =
    (s\<lparr>regs := R, cp0_epc := next_pc R (case hw_fcr31 s of Some w \<Rightarrow> w | None \<Rightarrow> fcr31 s) (dspcontrol s) epc i t\<rparr>, 0)"
proof -
  note defs = mips_decode_def compute_return_epc_insn_def branch_epc_def simm_low written_regs_def set_reg_def
  consider (spec) "MIPSInst_OPCODE i = 0" | (bcond) "MIPSInst_OPCODE i = 1" | (jump) "MIPSInst_OPCODE i = 2 \<or> MIPSInst_OPCODE i = 3"
    | (eq) "MIPSInst_OPCODE i = 4 \<or> MIPSInst_OPCODE i = 20 \<or> MIPSInst_OPCODE i = 5 \<or> MIPSInst_OPCODE i = 21"
    | (ord) "MIPSInst_OPCODE i = 6 \<or> MIPSInst_OPCODE i = 22 \<or> MIPSInst_OPCODE i = 7 \<or> MIPSInst_OPCODE i = 23"
    | (cop1) "MIPSInst_OPCODE i = 17" "MIPSInst_RS i = 8"
    using d by (auto simp: mips_decode_def Let_def split: if_splits)
  then show ?thesis
  proof cases
    case spec
    then consider "MIPSInst_FUNC i = 8" "t = JumpReg (MIPSInst_RS i)" "l = None"
      | "MIPSInst_FUNC i = 9" "t = JumpReg (MIPSInst_RS i)" "l = Some (MIPSInst_RD i)"
      using d by (auto simp: mips_decode_def Let_def split: if_splits)
    then show ?thesis using spec R by cases (simp_all add: compute_return_epc_insn_def written_regs_def set_reg_def Let_def)
  next
    case bcond
    then show ?thesis using branch_bcond_next [OF bcond d dsp R] by (simp add: compute_return_epc_insn_def)
  next
    case jump
    have j: "push_bit 28 (signed_drop_bit 28 (epc + 4)) OR push_bit 2 (MIPSInst_JTARGET i) = next_pc R c d epc i Jump" for c d
      by (simp only: jump_segment MIPSInst_JTARGET_def next_pc.simps)
    have t: "t = Jump" "l = (if MIPSInst_OPCODE i = 3 then Some 31 else None)" using jump d by (auto simp: mips_decode_def)
    show ?thesis unfolding t(1) j [symmetric] using jump
    proof
      assume "MIPSInst_OPCODE i = 2"
      then show "compute_return_epc_insn epc i s = (s\<lparr>regs := R, cp0_epc := push_bit 28 (signed_drop_bit 28 (epc + 4)) OR push_bit 2 (MIPSInst_JTARGET i)\<rparr>, 0)"
        using R t(2) unfolding compute_return_epc_insn_def Let_def written_regs_def by simp
    next
      assume "MIPSInst_OPCODE i = 3"
      then show "compute_return_epc_insn epc i s = (s\<lparr>regs := R, cp0_epc := push_bit 28 (signed_drop_bit 28 (epc + 4)) OR push_bit 2 (MIPSInst_JTARGET i)\<rparr>, 0)"
        using R t(2) e unfolding compute_return_epc_insn_def Let_def written_regs_def set_reg_def by simp
    qed
  next
    case eq
    then show ?thesis using d R by (elim disjE) (auto simp: defs)
  next
    case ord
    then show ?thesis using d R by (elim disjE) (auto simp: defs)
  next
    case cop1
    then have "t = Cond (Fcc (unat (drop_bit 2 (MIPSInst_RT i))) (odd (unat (MIPSInst_RT i))))" "l = None"
      using d by (simp_all add: mips_decode_def Let_def)
    then show ?thesis using cop1 R branch_cop1_next [of epc i s R "dspcontrol s"]
      by (simp add: compute_return_epc_insn_def written_regs_def)
  qed
qed

lemma next_pc_reads: "(\<And>r. r \<in> reads t \<Longrightarrow> R r = R' r) \<Longrightarrow> next_pc R c d pc i t = next_pc R' c d pc i t"
  by (cases t rule: reads.cases) auto

lemma branch_architecture:
  assumes "cp0_epc s AND 3 = 0" and "uload U (umem s) (cp0_epc s) = Some i"
    and d: "mips_decode i = Some (t, l)" and p: "predictable t l" and dsp: "t = Cond PosGe32 \<Longrightarrow> cpu_has_dsp s"
    and R: "R = (regs s)(0 := 0)"
  shows "compute_return_epc U s = (s\<lparr>regs := (link_regs R (cp0_epc s) l)(0 := if l = Some 0 then cp0_epc s + 8 else 0),
    cp0_epc := next_pc R (case hw_fcr31 s of Some w \<Rightarrow> w | None \<Rightarrow> fcr31 s) (dspcontrol s) (cp0_epc s) i t\<rparr>, 0)"
proof -
  let ?R = "(link_regs R (cp0_epc s) l)(0 := if l = Some 0 then cp0_epc s + 8 else 0)" and ?s = "set_reg 0 0 s"
  have l: "?R = written_regs (regs ?s) (cp0_epc s) l" by (auto simp: link_regs_def written_regs_def R set_reg_def split: option.split)
  have n: "next_pc ?R c e (cp0_epc s) i t = next_pc R c e (cp0_epc s) i t" for c e
    using p by (intro next_pc_reads) (auto simp: link_regs_def predictable_def R split: option.splits)
  show ?thesis using assms(1,2) branch_next [OF d, of ?s "cp0_epc s" ?R] dsp l n
    by (simp add: compute_return_epc_def set_reg_def Let_def split: option.split)
qed

text \<open>A jump that links to register 0 leaves the return address in its saved word.\<close>

lemma jalr_zero: "regs (fst (compute_return_epc word_ops (start 0x400000 [0x400000 \<mapsto> 0x00400009]))) 0 = 0x400008"
  by code_simp

text \<open>
  C16. The branch code refines the instruction set: for every jump and branch of MIPS32 on general registers or floating point
  conditions, and \<^verbatim>\<open>bposge32\<close> where the processor has the DSP unit, \<^verbatim>\<open>__compute_return_epc\<close> puts into the EPC the address the processor would go to,
  and the registers become those of the processor; nothing else changes. The reference decoder \<open>mips_decode\<close>, \<open>next_pc\<close> and
  \<open>link_regs\<close> are written from the instruction set, not from the code. Outside the claim are \<^verbatim>\<open>bc2f\<close>, \<^verbatim>\<open>bc2t\<close> and \<^verbatim>\<open>jalx\<close>, for which
  the code leaves the EPC at the instruction, and jumps that read their own link register, whose result the
  instruction set leaves open. Register 0 reads as zero; its saved word, which no register of the processor is loaded from, is 0
  but for \<^verbatim>\<open>jalr\<close> with register 0 as link register, where the code writes the return address into it.
\<close>

theorem branch_refines:
  assumes "cp0_epc s AND 3 = 0" and "uload U (umem s) (cp0_epc s) = Some i"
    and d: "mips_decode i = Some (t, l)" and p: "predictable t l" and dsp: "t = Cond PosGe32 \<Longrightarrow> cpu_has_dsp s"
    and R: "R = (regs s)(0 := 0)"
  shows "compute_return_epc U s = (s\<lparr>regs := (link_regs R (cp0_epc s) l)(0 := if l = Some 0 then cp0_epc s + 8 else 0),
    cp0_epc := next_pc R (case hw_fcr31 s of Some w \<Rightarrow> w | None \<Rightarrow> fcr31 s) (dspcontrol s) (cp0_epc s) i t\<rparr>, 0)"
  using assms by (rule branch_architecture)

theorem branch_refines_witness:
  "compute_return_epc word_ops ((start 0x400000 [0x400000 \<mapsto> 0x04510003])\<lparr>regs := (\<lambda>r. 0)(2 := 5)\<rparr>) =
   ((start 0x400000 [0x400000 \<mapsto> 0x04510003])\<lparr>regs := (\<lambda>r. 0)(2 := 5, 31 := 0x400008), cp0_epc := 0x400010\<rparr>, 0)"
proof -
  let ?s = "(start 0x400000 [0x400000 \<mapsto> 0x04510003])\<lparr>regs := (\<lambda>r. 0)(2 := 5)\<rparr>"
  have d: "mips_decode 0x04510003 = Some (Cond (Gez 2), Some 31)" "predictable (Cond (Gez 2)) (Some 31)" by code_simp+
  have u: "cp0_epc ?s AND 3 = 0" "uload word_ops (umem ?s) (cp0_epc ?s) = Some 0x04510003" by (simp_all add: start_def word_ops_def word_load_def)
  from branch_refines [OF u d _ refl]
  show ?thesis by (auto simp: start_def link_regs_def fun_eq_iff)
qed

end
