(* ===== verification/Dsemul.thy ===== *)
theory Dsemul
  imports Branch
begin

text \<open>
  Emulation of the instruction in the delay slot of a floating point branch
  (\<^verbatim>\<open>arch/mips/math-emu/dsemul.c\<close>): \<^verbatim>\<open>mips_dsemul\<close> writes a frame with the instruction, a trapping
  instruction, a cookie and the continuation address below the user stack pointer and points the EPC at it;
  the trap ends in \<^verbatim>\<open>do_dsemulret\<close>, which recognises the frame and continues behind the branch.
\<close>

section \<open>The code\<close>

abbreviation (input) AdELOAD :: u32 where "AdELOAD \<equiv> 0x8c000001"
abbreviation (input) CP1UNDEF :: u32 where "CP1UNDEF \<equiv> 0x44400001"
abbreviation (input) BD_COOKIE :: u32 where "BD_COOKIE \<equiv> 0x0000bd36"
abbreviation (input) BADINST :: u32 where "BADINST \<equiv> AdELOAD"

text \<open>Addresses of the members of a \<^verbatim>\<open>struct emuframe\<close> at \<open>fr\<close>, and its size.\<close>

abbreviation (input) emul_at :: "u32 \<Rightarrow> u32" where "emul_at fr \<equiv> fr"
abbreviation (input) badinst_at :: "u32 \<Rightarrow> u32" where "badinst_at fr \<equiv> fr + 4"
abbreviation (input) cookie_at :: "u32 \<Rightarrow> u32" where "cookie_at fr \<equiv> fr + 8"
abbreviation (input) epc_at :: "u32 \<Rightarrow> u32" where "epc_at fr \<equiv> fr + 12"
abbreviation (input) emuframe_size :: u32 where "emuframe_size \<equiv> 16"

text \<open>\<^verbatim>\<open>err |= __put_user(v, a)\<close>: an earlier fault does not stop the later stores.\<close>

definition or_put :: "'m user_ops \<Rightarrow> u32 \<Rightarrow> u32 \<Rightarrow> 'm \<times> bool \<Rightarrow> 'm \<times> bool" where
  "or_put U a v = (\<lambda>(m, err). case ustore U m a v of None \<Rightarrow> (m, True) | Some m' \<Rightarrow> (m', err))"

definition mips_dsemul :: "'m user_ops \<Rightarrow> u32 \<Rightarrow> u32 \<Rightarrow> 'm emu \<Rightarrow> 'm emu \<times> int" where
  "mips_dsemul U ir cpc s =
     (if ir = 0 then (s\<lparr>cp0_epc := cpc, cp0_cause := cp0_cause s AND NOT CAUSEF_BD\<rparr>, 0)
      else
        let fr = (regs s 29 - emuframe_size) AND NOT 0x7
        in if \<not> access_ok fr emuframe_size then (s, SIGBUS)
           else
             let (m, err) = or_put U (epc_at fr) cpc (or_put U (cookie_at fr) BD_COOKIE
                   (or_put U (badinst_at fr) BADINST (or_put U (emul_at fr) ir (umem s, False))));
                 s = s\<lparr>umem := m\<rparr>
             in if err then (s\<lparr>errors := errors s + 1\<rparr>, SIGBUS)
                else (s\<lparr>cp0_epc := emul_at fr\<rparr>, SIGILL))"

definition do_dsemulret :: "'m user_ops \<Rightarrow> 'm emu \<Rightarrow> 'm emu \<times> int" where
  "do_dsemulret U s =
     (let fr = cp0_epc s - 4
      in if \<not> access_ok fr emuframe_size then (s, 0)
         else
           let insn = uload U (umem s) (badinst_at fr);
               cookie = uload U (umem s) (cookie_at fr)
           in if insn \<noteq> Some BADINST \<or> cookie \<noteq> Some BD_COOKIE then (s\<lparr>errors := errors s + 1\<rparr>, 0)
              else case uload U (umem s) (epc_at fr) of
                None \<Rightarrow> (force_sig SIGBUS s, 0)
              | Some epc \<Rightarrow> (s\<lparr>cp0_epc := epc\<rparr>, 1))"

section \<open>The frame\<close>

context user_memory
begin

lemma or_put_ok:
  assumes "or_put U a v st = (m', False)"
  obtains m where "st = (m, False)" and "ustore U m a v = Some m'"
  using assms by (auto simp: or_put_def split: prod.splits option.splits)

lemma frame_loads:
  assumes "or_put U (fr + 12) d (or_put U (fr + 8) c (or_put U (fr + 4) b (or_put U fr a (m, False)))) = (m', False)"
  shows "uload U m' fr = Some a" and "uload U m' (fr + 4) = Some b" and "uload U m' (fr + 8) = Some c" and "uload U m' (fr + 12) = Some d"
proof -
  obtain m1 m2 m3 where st: "ustore U m fr a = Some m1" "ustore U m1 (fr + 4) b = Some m2" "ustore U m2 (fr + 8) c = Some m3"
    "ustore U m3 (fr + 12) d = Some m'"
    using assms by (elim or_put_ok) (auto elim!: or_put_ok)
  have ne: "apart (fr + 12) (fr + 8)" "apart (fr + 12) (fr + 4)" "apart (fr + 12) fr" "apart (fr + 8) (fr + 4)" "apart (fr + 8) fr" "apart (fr + 4) fr"
    by (simp_all add: apart_def)
  note l1 = load_same [OF st(1)]
  note l2 = load_same [OF st(2)] load_other [OF st(2), of fr]
  note l3 = load_same [OF st(3)] load_other [OF st(3), of fr] load_other [OF st(3), of "fr + 4"]
  note l4 = load_same [OF st(4)] load_other [OF st(4), of fr] load_other [OF st(4), of "fr + 4"] load_other [OF st(4), of "fr + 8"]
  show "uload U m' fr = Some a" "uload U m' (fr + 4) = Some b" "uload U m' (fr + 8) = Some c" "uload U m' (fr + 12) = Some d"
    using l1 l2 l3 l4 ne by simp_all
qed

lemma dsemul_frame:
  assumes "mips_dsemul U ir cpc s = (s', SIGILL)" and "ir \<noteq> 0"
  shows "do_dsemulret U (s'\<lparr>cp0_epc := cp0_epc s' + 4\<rparr>) = (s'\<lparr>cp0_epc := cpc\<rparr>, 1)"
    and "uload U (umem s') (cp0_epc s') = Some ir" and "uload U (umem s') (cp0_epc s' + 4) = Some BADINST" and "s' = s\<lparr>umem := umem s', cp0_epc := (regs s 29 - 16) AND NOT 7\<rparr>"
proof -
  define fr where "fr = (regs s 29 - 16) AND NOT 7"
  have ok: "access_ok fr 16" using assms by (auto simp: mips_dsemul_def fr_def Let_def split: if_splits prod.splits)
  obtain m' where m': "or_put U (fr + 12) cpc (or_put U (fr + 8) BD_COOKIE (or_put U (fr + 4) BADINST (or_put U fr ir (umem s, False)))) = (m', False)"
    "s' = s\<lparr>umem := m', cp0_epc := fr\<rparr>"
    using assms ok by (auto simp: mips_dsemul_def fr_def Let_def split: if_splits prod.splits)
  note fl = frame_loads [OF m'(1)]
  show "do_dsemulret U (s'\<lparr>cp0_epc := cp0_epc s' + 4\<rparr>) = (s'\<lparr>cp0_epc := cpc\<rparr>, 1)"
    using ok fl m'(2) by (simp add: do_dsemulret_def)
  show "uload U (umem s') (cp0_epc s') = Some ir" "uload U (umem s') (cp0_epc s' + 4) = Some BADINST" "s' = s\<lparr>umem := umem s', cp0_epc := (regs s 29 - 16) AND NOT 7\<rparr>"
    using fl(1,2) m'(2) by (simp_all add: fr_def)
qed

end

end
