(* ===== verification/Cp1emu.thy ===== *)
theory Cp1emu
  imports Sp_Dp Dsemul
begin

text \<open>
  The instruction emulator (\<^verbatim>\<open>arch/mips/math-emu/cp1emu.c\<close>), configured as the file configures itself,
  for MIPS IV on a 32 bit kernel. \<^verbatim>\<open>ieee754_csr\<close> is the same word as \<^verbatim>\<open>ctx->fcr31\<close>:
  \<open>with_csr\<close> runs a library function on it. A handler returns the state and a signal number, 0 for none.
\<close>

section \<open>Tables\<close>

definition ieee_rm :: "u32 list" where
  "ieee_rm = [0, 1, 3, 2]"

definition mips_rm :: "u32 list" where
  "mips_rm = [0, 1, 3, 2]"

definition fpucondbit :: "u32 list" where
  "fpucondbit = [0x00800000, 0x02000000, 0x04000000, 0x08000000, 0x10000000, 0x20000000, 0x40000000, 0x80000000]"

definition cmptab :: "4 word list" where
  "cmptab = [0, IEEE754_CUN, IEEE754_CEQ, IEEE754_CEQ OR IEEE754_CUN, IEEE754_CLT, IEEE754_CLT OR IEEE754_CUN,
     IEEE754_CLT OR IEEE754_CEQ, IEEE754_CLT OR IEEE754_CEQ OR IEEE754_CUN]"

abbreviation (input) FPCREG_RID :: "5 word" where "FPCREG_RID \<equiv> 0"
abbreviation (input) FPCREG_CSR :: "5 word" where "FPCREG_CSR \<equiv> 31"

definition isBranchInstr :: "u32 \<Rightarrow> bool" where
  "isBranchInstr i =
     (let opc = MIPSInst_OPCODE i
      in if opc = spec_op then MIPSInst_FUNC i = jalr_op \<or> MIPSInst_FUNC i = jr_op
         else if opc = bcond_op then
           MIPSInst_RT i \<in> {bltz_op, bgez_op, bltzl_op, bgezl_op, bltzal_op, bgezal_op, bltzall_op, bgezall_op}
         else if opc \<in> {j_op, jal_op, jalx_op, beq_op, bne_op, blez_op, bgtz_op, beql_op, bnel_op, blezl_op, bgtzl_op} then True
         else if opc \<in> {cop0_op, cop1_op, cop2_op, cop1x_op} then MIPSInst_RS i = bc_op
         else False)"

section \<open>Register access\<close>

definition FR :: "('m, 'z) emu_scheme \<Rightarrow> bool" where
  "FR s \<longleftrightarrow> cp0_status s AND ST0_FR \<noteq> 0"

definition SIFROMREG :: "('m, 'z) emu_scheme \<Rightarrow> 5 word \<Rightarrow> u32" where
  "SIFROMREG s x = (if FR s \<or> x AND 1 = 0 then ucast (fpr s x) else ucast (drop_bit 32 (fpr s (x AND NOT 1))))"

definition SITOREG :: "u32 \<Rightarrow> 5 word \<Rightarrow> ('m, 'z) emu_scheme \<Rightarrow> ('m, 'z) emu_scheme" where
  "SITOREG si x s =
     s\<lparr>fpr := (fpr s)(x AND NOT (if FR s then 0 else 1) :=
       if FR s \<or> x AND 1 = 0 then push_bit 32 (drop_bit 32 (fpr s (x AND NOT 1))) OR ucast si
       else drop_bit 32 (push_bit 32 (fpr s (x AND NOT 1))) OR push_bit 32 (ucast si))\<rparr>"

definition DIFROMREG :: "('m, 'z) emu_scheme \<Rightarrow> 5 word \<Rightarrow> u64" where
  "DIFROMREG s x = fpr s (x AND NOT (if FR s then 0 else 1))"

definition DITOREG :: "u64 \<Rightarrow> 5 word \<Rightarrow> ('m, 'z) emu_scheme \<Rightarrow> ('m, 'z) emu_scheme" where
  "DITOREG di x s = s\<lparr>fpr := (fpr s)(x AND NOT (if FR s then 0 else 1) := di)\<rparr>"

abbreviation SPFROMREG :: "('m, 'z) emu_scheme \<Rightarrow> 5 word \<Rightarrow> ieee754sp" where "SPFROMREG \<equiv> SIFROMREG"
abbreviation SPTOREG :: "ieee754sp \<Rightarrow> 5 word \<Rightarrow> ('m, 'z) emu_scheme \<Rightarrow> ('m, 'z) emu_scheme" where "SPTOREG \<equiv> SITOREG"
abbreviation DPFROMREG :: "('m, 'z) emu_scheme \<Rightarrow> 5 word \<Rightarrow> ieee754dp" where "DPFROMREG \<equiv> DIFROMREG"
abbreviation DPTOREG :: "ieee754dp \<Rightarrow> 5 word \<Rightarrow> ('m, 'z) emu_scheme \<Rightarrow> ('m, 'z) emu_scheme" where "DPTOREG \<equiv> DITOREG"

section \<open>The control and status register\<close>

definition with_csr :: "(ieee754_csr \<Rightarrow> ieee754_csr \<times> 'r) \<Rightarrow> 'm emu \<Rightarrow> 'm emu \<times> 'r" where
  "with_csr f s = (let (c, r) = f (csr_of_fcr31 (fcr31 s)) in (s\<lparr>fcr31 := fcr31_of_csr c\<rparr>, r))"

text \<open>The bits of \<^verbatim>\<open>rcsr\<close> at label \<^verbatim>\<open>copcsr\<close> of \<^verbatim>\<open>fpu_emu\<close>. The one of \<^verbatim>\<open>fpux_emu\<close> leaves out division by zero.\<close>

definition copcsr :: "'m emu \<Rightarrow> u32" where
  "copcsr s =
     (let test = ieee754_cxtest (csr_of_fcr31 (fcr31 s))
      in (if test IEEE754_INEXACT then FPU_CSR_INE_X OR FPU_CSR_INE_S else 0) OR
         (if test IEEE754_UNDERFLOW then FPU_CSR_UDF_X OR FPU_CSR_UDF_S else 0) OR
         (if test IEEE754_OVERFLOW then FPU_CSR_OVF_X OR FPU_CSR_OVF_S else 0) OR
         (if test IEEE754_ZERO_DIVIDE then FPU_CSR_DIV_X OR FPU_CSR_DIV_S else 0) OR
         (if test IEEE754_INVALID_OPERATION then FPU_CSR_INV_X OR FPU_CSR_INV_S else 0))"

definition copcsr_x :: "'m emu \<Rightarrow> u32" where
  "copcsr_x s =
     (let test = ieee754_cxtest (csr_of_fcr31 (fcr31 s))
      in (if test IEEE754_INEXACT then FPU_CSR_INE_X OR FPU_CSR_INE_S else 0) OR
         (if test IEEE754_UNDERFLOW then FPU_CSR_UDF_X OR FPU_CSR_UDF_S else 0) OR
         (if test IEEE754_OVERFLOW then FPU_CSR_OVF_X OR FPU_CSR_OVF_S else 0) OR
         (if test IEEE754_INVALID_OPERATION then FPU_CSR_INV_X OR FPU_CSR_INV_S else 0))"

definition put_rcsr :: "u32 \<Rightarrow> 'm emu \<Rightarrow> 'm emu" where
  "put_rcsr rcsr s = s\<lparr>fcr31 := (fcr31 s AND NOT FPU_CSR_ALL_X) OR rcsr\<rparr>"

text \<open>An exception whose enable bit is set: the cause bits lie five places above the enables.\<close>

definition csr_traps :: "'m emu \<Rightarrow> bool" where
  "csr_traps s \<longleftrightarrow> drop_bit 5 (fcr31 s) AND fcr31 s AND FPU_CSR_ALL_E \<noteq> 0"

section \<open>MIPS IV operations\<close>

definition DEF3OP ::
  "(ieee754_csr \<Rightarrow> 'v \<Rightarrow> 'v \<Rightarrow> ieee754_csr \<times> 'v) \<Rightarrow> (ieee754_csr \<Rightarrow> 'v \<Rightarrow> 'v \<Rightarrow> ieee754_csr \<times> 'v) \<Rightarrow>
   (ieee754_csr \<Rightarrow> 'v \<Rightarrow> ieee754_csr \<times> 'v) \<Rightarrow> ieee754_csr \<Rightarrow> 'v \<Rightarrow> 'v \<Rightarrow> 'v \<Rightarrow> ieee754_csr \<times> 'v" where
  "DEF3OP f1 f2 f3 c r s t =
     (let (c, s) = f1 c s t;
          save = c;
          (c, s) = f2 c s r;
          save = save\<lparr>csr_cx := csr_cx save OR csr_cx c, csr_sx := csr_sx save OR csr_sx c\<rparr>;
          (c, s) = f3 c s
      in (c\<lparr>csr_cx := csr_cx c OR csr_cx save, csr_sx := csr_sx c OR csr_sx save\<rparr>, s))"

definition fpemu_dp_recip :: "ieee754_csr \<Rightarrow> ieee754dp \<Rightarrow> ieee754_csr \<times> ieee754dp" where
  "fpemu_dp_recip c d = ieee754dp_div c (ieee754dp_one False) d"

definition fpemu_dp_rsqrt :: "ieee754_csr \<Rightarrow> ieee754dp \<Rightarrow> ieee754_csr \<times> ieee754dp" where
  "fpemu_dp_rsqrt c d = (let (c, r) = ieee754dp_sqrt c d in ieee754dp_div c (ieee754dp_one False) r)"

definition fpemu_sp_recip :: "ieee754_csr \<Rightarrow> ieee754sp \<Rightarrow> ieee754_csr \<times> ieee754sp" where
  "fpemu_sp_recip c s = ieee754sp_div c (ieee754sp_one False) s"

definition fpemu_sp_rsqrt :: "ieee754_csr \<Rightarrow> ieee754sp \<Rightarrow> ieee754_csr \<times> ieee754sp" where
  "fpemu_sp_rsqrt c s = (let (c, r) = ieee754sp_sqrt c s in ieee754sp_div c (ieee754sp_one False) r)"

definition fpemu_sp_madd :: "ieee754_csr \<Rightarrow> ieee754sp \<Rightarrow> ieee754sp \<Rightarrow> ieee754sp \<Rightarrow> ieee754_csr \<times> ieee754sp" where
  "fpemu_sp_madd = DEF3OP ieee754sp_mul ieee754sp_add Pair"

definition fpemu_sp_msub :: "ieee754_csr \<Rightarrow> ieee754sp \<Rightarrow> ieee754sp \<Rightarrow> ieee754sp \<Rightarrow> ieee754_csr \<times> ieee754sp" where
  "fpemu_sp_msub = DEF3OP ieee754sp_mul ieee754sp_sub Pair"

definition fpemu_sp_nmadd :: "ieee754_csr \<Rightarrow> ieee754sp \<Rightarrow> ieee754sp \<Rightarrow> ieee754sp \<Rightarrow> ieee754_csr \<times> ieee754sp" where
  "fpemu_sp_nmadd = DEF3OP ieee754sp_mul ieee754sp_add ieee754sp_neg"

definition fpemu_sp_nmsub :: "ieee754_csr \<Rightarrow> ieee754sp \<Rightarrow> ieee754sp \<Rightarrow> ieee754sp \<Rightarrow> ieee754_csr \<times> ieee754sp" where
  "fpemu_sp_nmsub = DEF3OP ieee754sp_mul ieee754sp_sub ieee754sp_neg"

definition fpemu_dp_madd :: "ieee754_csr \<Rightarrow> ieee754dp \<Rightarrow> ieee754dp \<Rightarrow> ieee754dp \<Rightarrow> ieee754_csr \<times> ieee754dp" where
  "fpemu_dp_madd = DEF3OP ieee754dp_mul ieee754dp_add Pair"

definition fpemu_dp_msub :: "ieee754_csr \<Rightarrow> ieee754dp \<Rightarrow> ieee754dp \<Rightarrow> ieee754dp \<Rightarrow> ieee754_csr \<times> ieee754dp" where
  "fpemu_dp_msub = DEF3OP ieee754dp_mul ieee754dp_sub Pair"

definition fpemu_dp_nmadd :: "ieee754_csr \<Rightarrow> ieee754dp \<Rightarrow> ieee754dp \<Rightarrow> ieee754dp \<Rightarrow> ieee754_csr \<times> ieee754dp" where
  "fpemu_dp_nmadd = DEF3OP ieee754dp_mul ieee754dp_add ieee754dp_neg"

definition fpemu_dp_nmsub :: "ieee754_csr \<Rightarrow> ieee754dp \<Rightarrow> ieee754dp \<Rightarrow> ieee754dp \<Rightarrow> ieee754_csr \<times> ieee754dp" where
  "fpemu_dp_nmsub = DEF3OP ieee754dp_mul ieee754dp_sub ieee754dp_neg"

section \<open>Memory access\<close>

definition fault :: "'m emu \<Rightarrow> 'm emu \<times> int" where
  "fault s = (s\<lparr>errors := errors s + 1\<rparr>, SIGBUS)"

definition emu_load64 :: "'m user_ops \<Rightarrow> u32 \<Rightarrow> 5 word \<Rightarrow> 'm emu \<Rightarrow> 'm emu \<times> int" where
  "emu_load64 U va r s =
     (let s = s\<lparr>loads := loads s + 1\<rparr>
      in case get_user64 U (umem s) va of None \<Rightarrow> fault s | Some v \<Rightarrow> (DITOREG v r s, 0))"

definition emu_store64 :: "'m user_ops \<Rightarrow> u32 \<Rightarrow> 5 word \<Rightarrow> 'm emu \<Rightarrow> 'm emu \<times> int" where
  "emu_store64 U va r s =
     (let s = s\<lparr>stores := stores s + 1\<rparr>;
          (m, ok) = put_user64 U (umem s) va (DIFROMREG s r);
          s = s\<lparr>umem := m\<rparr>
      in if ok then (s, 0) else fault s)"

definition emu_load32 :: "'m user_ops \<Rightarrow> u32 \<Rightarrow> 5 word \<Rightarrow> 'm emu \<Rightarrow> 'm emu \<times> int" where
  "emu_load32 U va r s =
     (let s = s\<lparr>loads := loads s + 1\<rparr>
      in case get_user U (umem s) va of None \<Rightarrow> fault s | Some v \<Rightarrow> (SITOREG v r s, 0))"

definition emu_store32 :: "'m user_ops \<Rightarrow> u32 \<Rightarrow> 5 word \<Rightarrow> 'm emu \<Rightarrow> 'm emu \<times> int" where
  "emu_store32 U va r s =
     (let s = s\<lparr>stores := stores s + 1\<rparr>
      in case put_user U (umem s) va (SIFROMREG s r) of None \<Rightarrow> fault s | Some m \<Rightarrow> (s\<lparr>umem := m\<rparr>, 0))"

section \<open>COP1X instructions\<close>

text \<open>The tail of a multiply-add: the destination is written, then the exceptions are tested.\<close>

definition fpux_csr :: "'m emu \<Rightarrow> 'm emu \<times> int" where
  "fpux_csr s = (let s = put_rcsr (copcsr_x s) s in (s, if csr_traps s then SIGFPE else 0))"

definition sp_3op :: "6 word \<Rightarrow> (ieee754_csr \<Rightarrow> ieee754sp \<Rightarrow> ieee754sp \<Rightarrow> ieee754sp \<Rightarrow> ieee754_csr \<times> ieee754sp) option" where
  "sp_3op f = (if f = madd_s_op then Some fpemu_sp_madd else if f = msub_s_op then Some fpemu_sp_msub
     else if f = nmadd_s_op then Some fpemu_sp_nmadd else if f = nmsub_s_op then Some fpemu_sp_nmsub else None)"

definition dp_3op :: "6 word \<Rightarrow> (ieee754_csr \<Rightarrow> ieee754dp \<Rightarrow> ieee754dp \<Rightarrow> ieee754dp \<Rightarrow> ieee754_csr \<times> ieee754dp) option" where
  "dp_3op f = (if f = madd_d_op then Some fpemu_dp_madd else if f = msub_d_op then Some fpemu_dp_msub
     else if f = nmadd_d_op then Some fpemu_dp_nmadd else if f = nmsub_d_op then Some fpemu_dp_nmsub else None)"

definition fpux_emu_s :: "'m user_ops \<Rightarrow> u32 \<Rightarrow> 'm emu \<Rightarrow> 'm emu \<times> int" where
  "fpux_emu_s U ir s =
     (let va = regs s (MIPSInst_FR ir) + regs s (MIPSInst_FT ir)
      in if MIPSInst_FUNC ir = lwxc1_op then emu_load32 U va (MIPSInst_FD ir) s
         else if MIPSInst_FUNC ir = swxc1_op then emu_store32 U va (MIPSInst_FS ir) s
         else case sp_3op (MIPSInst_FUNC ir) of
           Some handler \<Rightarrow>
             let fr = SPFROMREG s (MIPSInst_FR ir);
                 fs = SPFROMREG s (MIPSInst_FS ir);
                 ft = SPFROMREG s (MIPSInst_FT ir);
                 (s, fd) = with_csr (\<lambda>c. handler c fr fs ft) s;
                 s = SPTOREG fd (MIPSInst_FD ir) s
             in fpux_csr s
         | None \<Rightarrow> (s, SIGILL))"

definition fpux_emu_d :: "'m user_ops \<Rightarrow> u32 \<Rightarrow> 'm emu \<Rightarrow> 'm emu \<times> int" where
  "fpux_emu_d U ir s =
     (let va = regs s (MIPSInst_FR ir) + regs s (MIPSInst_FT ir)
      in if MIPSInst_FUNC ir = ldxc1_op then emu_load64 U va (MIPSInst_FD ir) s
         else if MIPSInst_FUNC ir = sdxc1_op then emu_store64 U va (MIPSInst_FS ir) s
         else case dp_3op (MIPSInst_FUNC ir) of
           Some handler \<Rightarrow>
             let fr = DPFROMREG s (MIPSInst_FR ir);
                 fs = DPFROMREG s (MIPSInst_FS ir);
                 ft = DPFROMREG s (MIPSInst_FT ir);
                 (s, fd) = with_csr (\<lambda>c. handler c fr fs ft) s;
                 s = DPTOREG fd (MIPSInst_FD ir) s
             in fpux_csr s
         | None \<Rightarrow> (s, SIGILL))"

definition fpux_emu :: "'m user_ops \<Rightarrow> u32 \<Rightarrow> 'm emu \<Rightarrow> 'm emu \<times> int" where
  "fpux_emu U ir s =
     (let s = s\<lparr>cp1xops := cp1xops s + 1\<rparr>
      in if MIPSInst_FMA_FFMT ir = 0 then fpux_emu_s U ir s
         else if MIPSInst_FMA_FFMT ir = 1 then fpux_emu_d U ir s
         else if MIPSInst_FMA_FFMT ir = 0x7 then (s, if MIPSInst_FUNC ir \<noteq> pfetch_op then SIGILL else 0)
         else (s, SIGILL))"

section \<open>COP1 arithmetic\<close>

text \<open>
  \<^verbatim>\<open>rv\<close> with the format \<^verbatim>\<open>rfmt\<close> that says how to write it back; \<open>Cmp\<close> is \<^verbatim>\<open>rfmt == -1\<close>. The first
  switch of \<^verbatim>\<open>fpu_emu\<close> either returns or goes on with \<^verbatim>\<open>rcsr\<close> and \<^verbatim>\<open>rv\<close>.
\<close>

datatype fpu_value = S_val u32 | D_val u64 | W_val u32 | Cmp bool

datatype fpu_outcome = Return int | Result u32 fpu_value

definition sp_binop :: "6 word \<Rightarrow> (ieee754_csr \<Rightarrow> ieee754sp \<Rightarrow> ieee754sp \<Rightarrow> ieee754_csr \<times> ieee754sp) option" where
  "sp_binop f = (if f = fadd_op then Some ieee754sp_add else if f = fsub_op then Some ieee754sp_sub
     else if f = fmul_op then Some ieee754sp_mul else if f = fdiv_op then Some ieee754sp_div else None)"

definition sp_unop :: "6 word \<Rightarrow> (ieee754_csr \<Rightarrow> ieee754sp \<Rightarrow> ieee754_csr \<times> ieee754sp) option" where
  "sp_unop f = (if f = fsqrt_op then Some ieee754sp_sqrt else if f = frsqrt_op then Some fpemu_sp_rsqrt
     else if f = frecip_op then Some fpemu_sp_recip else if f = fabs_op then Some ieee754sp_abs
     else if f = fneg_op then Some ieee754sp_neg else None)"

definition dp_binop :: "6 word \<Rightarrow> (ieee754_csr \<Rightarrow> ieee754dp \<Rightarrow> ieee754dp \<Rightarrow> ieee754_csr \<times> ieee754dp) option" where
  "dp_binop f = (if f = fadd_op then Some ieee754dp_add else if f = fsub_op then Some ieee754dp_sub
     else if f = fmul_op then Some ieee754dp_mul else if f = fdiv_op then Some ieee754dp_div else None)"

definition dp_unop :: "6 word \<Rightarrow> (ieee754_csr \<Rightarrow> ieee754dp \<Rightarrow> ieee754_csr \<times> ieee754dp) option" where
  "dp_unop f = (if f = fsqrt_op then Some ieee754dp_sqrt else if f = frsqrt_op then Some fpemu_dp_rsqrt
     else if f = frecip_op then Some fpemu_dp_recip else if f = fabs_op then Some ieee754dp_abs
     else if f = fneg_op then Some ieee754dp_neg else None)"

text \<open>\<^verbatim>\<open>goto copcsr\<close> with the result of a library call.\<close>

definition fpu_call :: "(ieee754_csr \<Rightarrow> ieee754_csr \<times> 'r) \<Rightarrow> ('r \<Rightarrow> fpu_value) \<Rightarrow> 'm emu \<Rightarrow> 'm emu \<times> fpu_outcome" where
  "fpu_call f k s = (let (s, r) = with_csr f s in (s, Result (copcsr s) (k r)))"

text \<open>The conversions that round in a mode of their own: the mode is set around the call.\<close>

definition fpu_call_rm :: "6 word \<Rightarrow> (ieee754_csr \<Rightarrow> ieee754_csr \<times> u32) \<Rightarrow> 'm emu \<Rightarrow> 'm emu \<times> fpu_outcome" where
  "fpu_call_rm func f s =
     (let c = csr_of_fcr31 (fcr31 s);
          oldrm = csr_rm c;
          c = c\<lparr>csr_rm := ucast (ieee_rm ! unat (func AND 0x3))\<rparr>;
          (c, r) = f c;
          c = c\<lparr>csr_rm := oldrm\<rparr>;
          s = s\<lparr>fcr31 := fcr31_of_csr c\<rparr>
      in (s, Result (copcsr s) (W_val r)))"

definition fpu_compare :: "6 word \<Rightarrow> (ieee754_csr \<Rightarrow> 4 word \<Rightarrow> bool \<Rightarrow> ieee754_csr \<times> bool) \<Rightarrow> 'm emu \<Rightarrow> 'm emu \<times> fpu_outcome" where
  "fpu_compare func f s =
     (let cmpop = func - fcmp_op;
          (s, r) = with_csr (\<lambda>c. f c (cmptab ! unat (cmpop AND 0x7)) (cmpop AND 0x8 \<noteq> 0)) s
      in if cmpop AND 0x8 \<noteq> 0 \<and> ieee754_cxtest (csr_of_fcr31 (fcr31 s)) IEEE754_INVALID_OPERATION
         then (s, Result (FPU_CSR_INV_X OR FPU_CSR_INV_S) (Cmp r))
         else (s, Result (copcsr s) (Cmp r)))"

text \<open>The condition bit the instruction field names is set as the field's last bit asks.\<close>

definition fcc_matches :: "u32 \<Rightarrow> 5 word \<Rightarrow> bool" where
  "fcc_matches csr t \<longleftrightarrow> (csr AND fpucondbit ! unat (drop_bit 2 t) \<noteq> 0) = (t AND 1 \<noteq> 0)"

definition fpu_emu_s :: "u32 \<Rightarrow> 'm emu \<Rightarrow> 'm emu \<times> fpu_outcome" where
  "fpu_emu_s ir s =
     (let func = MIPSInst_FUNC ir;
          fs = SPFROMREG s (MIPSInst_FS ir);
          ft = SPFROMREG s (MIPSInst_FT ir)
      in case sp_binop func of
           Some h \<Rightarrow> fpu_call (\<lambda>c. h c fs ft) S_val s
         | None \<Rightarrow> (case sp_unop func of
             Some h \<Rightarrow> fpu_call (\<lambda>c. h c fs) S_val s
           | None \<Rightarrow>
               if func = fmovc_op then
                 if \<not> fcc_matches (fcr31 s) (MIPSInst_FT ir) then (s, Return 0) else (s, Result 0 (S_val fs))
               else if func = fmovz_op then
                 if regs s (MIPSInst_FT ir) \<noteq> 0 then (s, Return 0) else (s, Result 0 (S_val fs))
               else if func = fmovn_op then
                 if regs s (MIPSInst_FT ir) = 0 then (s, Return 0) else (s, Result 0 (S_val fs))
               else if func = fmov_op then (s, Result (copcsr s) (S_val fs))
               else if func = fcvts_op then (s, Return SIGILL)
               else if func = fcvtd_op then fpu_call (\<lambda>c. ieee754dp_fsp c fs) D_val s
               else if func = fcvtw_op then fpu_call (\<lambda>c. ieee754sp_tint c fs) W_val s
               else if func = fround_op \<or> func = ftrunc_op \<or> func = fceil_op \<or> func = ffloor_op then
                 fpu_call_rm func (\<lambda>c. ieee754sp_tint c fs) s
               else if func \<ge> fcmp_op then fpu_compare func (\<lambda>c. ieee754sp_cmp c fs ft) s
               else (s, Return SIGILL)))"

definition fpu_emu_d :: "u32 \<Rightarrow> 'm emu \<Rightarrow> 'm emu \<times> fpu_outcome" where
  "fpu_emu_d ir s =
     (let func = MIPSInst_FUNC ir;
          fs = DPFROMREG s (MIPSInst_FS ir);
          ft = DPFROMREG s (MIPSInst_FT ir)
      in case dp_binop func of
           Some h \<Rightarrow> fpu_call (\<lambda>c. h c fs ft) D_val s
         | None \<Rightarrow> (case dp_unop func of
             Some h \<Rightarrow> fpu_call (\<lambda>c. h c fs) D_val s
           | None \<Rightarrow>
               if func = fmovc_op then
                 if \<not> fcc_matches (fcr31 s) (MIPSInst_FT ir) then (s, Return 0) else (s, Result 0 (D_val fs))
               else if func = fmovz_op then
                 if regs s (MIPSInst_FT ir) \<noteq> 0 then (s, Return 0) else (s, Result 0 (D_val fs))
               else if func = fmovn_op then
                 if regs s (MIPSInst_FT ir) = 0 then (s, Return 0) else (s, Result 0 (D_val fs))
               else if func = fmov_op then (s, Result (copcsr s) (D_val fs))
               else if func = fcvts_op then fpu_call (\<lambda>c. ieee754sp_fdp c fs) S_val s
               else if func = fcvtd_op then (s, Return SIGILL)
               else if func = fcvtw_op then fpu_call (\<lambda>c. ieee754dp_tint c fs) W_val s
               else if func = fround_op \<or> func = ftrunc_op \<or> func = fceil_op \<or> func = ffloor_op then
                 fpu_call_rm func (\<lambda>c. ieee754dp_tint c fs) s
               else if func \<ge> fcmp_op then fpu_compare func (\<lambda>c. ieee754dp_cmp c fs ft) s
               else (s, Return SIGILL)))"

definition fpu_emu_w :: "u32 \<Rightarrow> 'm emu \<Rightarrow> 'm emu \<times> fpu_outcome" where
  "fpu_emu_w ir s =
     (let func = MIPSInst_FUNC ir;
          fs = SPFROMREG s (MIPSInst_FS ir)
      in if func = fcvts_op then fpu_call (\<lambda>c. ieee754sp_fint c fs) S_val s
         else if func = fcvtd_op then fpu_call (\<lambda>c. ieee754dp_fint c fs) D_val s
         else (s, Return SIGILL))"

definition fpu_writeback :: "u32 \<Rightarrow> fpu_value \<Rightarrow> 'm emu \<Rightarrow> 'm emu" where
  "fpu_writeback ir rv s = (case rv of
     Cmp b \<Rightarrow>
       let cond = fpucondbit ! unat (drop_bit 2 (MIPSInst_FD ir))
       in if b then s\<lparr>fcr31 := fcr31 s OR cond\<rparr> else s\<lparr>fcr31 := fcr31 s AND NOT cond\<rparr>
   | D_val d \<Rightarrow> DPTOREG d (MIPSInst_FD ir) s
   | S_val x \<Rightarrow> SPTOREG x (MIPSInst_FD ir) s
   | W_val w \<Rightarrow> SITOREG w (MIPSInst_FD ir) s)"

definition fpu_end :: "u32 \<Rightarrow> fpu_outcome \<Rightarrow> 'm emu \<Rightarrow> 'm emu \<times> int" where
  "fpu_end ir out s = (case out of
     Return sig \<Rightarrow> (s, sig)
   | Result rcsr rv \<Rightarrow>
       let s = put_rcsr rcsr s
       in if csr_traps s then (s, SIGFPE) else (fpu_writeback ir rv s, 0))"

definition fpu_emu :: "u32 \<Rightarrow> 'm emu \<Rightarrow> 'm emu \<times> int" where
  "fpu_emu ir s =
     (let s = s\<lparr>cp1ops := cp1ops s + 1\<rparr>;
          (s, out) =
            (if MIPSInst_FFMT ir AND 0xf = s_fmt then fpu_emu_s ir s
             else if MIPSInst_FFMT ir AND 0xf = d_fmt then fpu_emu_d ir s
             else if MIPSInst_FFMT ir AND 0xf = w_fmt then fpu_emu_w ir s
             else (s, Return SIGILL))
      in fpu_end ir out s)"

section \<open>One instruction\<close>

text \<open>The end of \<^verbatim>\<open>cop1Emulate\<close>: a signal returns at once, otherwise the program goes on at \<open>contpc\<close>.\<close>

definition emul_done :: "u32 \<Rightarrow> 'm emu \<times> int \<Rightarrow> 'm emu \<times> int" where
  "emul_done contpc = (\<lambda>(s, sig).
     if sig \<noteq> 0 then (s, sig) else (s\<lparr>cp0_epc := contpc, cp0_cause := cp0_cause s AND NOT CAUSEF_BD\<rparr>, 0))"

definition emul_mfc :: "u32 \<Rightarrow> 'm emu \<Rightarrow> 'm emu" where
  "emul_mfc ir s = (if MIPSInst_RT ir \<noteq> 0 then set_reg (MIPSInst_RT ir) (SIFROMREG s (MIPSInst_RD ir)) s else s)"

definition emul_mtc :: "u32 \<Rightarrow> 'm emu \<Rightarrow> 'm emu" where
  "emul_mtc ir s = SITOREG (regs s (MIPSInst_RT ir)) (MIPSInst_RD ir) s"

definition emul_cfc :: "u32 \<Rightarrow> 'm emu \<Rightarrow> 'm emu" where
  "emul_cfc ir s =
     (let v = (if MIPSInst_RD ir = FPCREG_CSR
               then (fcr31 s AND NOT 0x3) OR mips_rm ! unat (fcr31 s AND 0x3) else 0)
      in if MIPSInst_RT ir \<noteq> 0 then set_reg (MIPSInst_RT ir) v s else s)"

abbreviation (input) FPU_CSR_WRITABLE :: u32 where
  "FPU_CSR_WRITABLE \<equiv> FPU_CSR_FLUSH OR FPU_CSR_ALL_E OR FPU_CSR_ALL_S OR 0x03"

definition emul_ctc :: "u32 \<Rightarrow> 'm emu \<Rightarrow> 'm emu \<times> int" where
  "emul_ctc ir s =
     (let v = (if MIPSInst_RT ir = 0 then 0 else regs s (MIPSInst_RT ir));
          s = (if MIPSInst_RD ir = FPCREG_CSR then
                 let v = v AND FPU_CSR_WRITABLE
                 in s\<lparr>fcr31 := (fcr31 s AND NOT FPU_CSR_WRITABLE) OR ((v AND NOT 0x3) OR ieee_rm ! unat (v AND 0x3))\<rparr>
               else s)
      in (s, if csr_traps s then SIGFPE else 0))"

text \<open>A floating point branch: whether it is taken, and whether it is a likely one.\<close>

definition bc_test :: "u32 \<Rightarrow> 5 word \<Rightarrow> (bool \<times> bool) option" where
  "bc_test csr rt =
     (let cond = csr AND fpucondbit ! unat (drop_bit 2 rt) \<noteq> 0
      in if rt AND 3 = bcfl_op then Some (\<not> cond, True)
         else if rt AND 3 = bcf_op then Some (\<not> cond, False)
         else if rt AND 3 = bctl_op then Some (cond, True)
         else if rt AND 3 = bct_op then Some (cond, False)
         else None)"

text \<open>The instructions in a delay slot that are emulated here and not on the user stack.\<close>

definition one_of_ours :: "u32 \<Rightarrow> bool" where
  "one_of_ours ir \<longleftrightarrow> MIPSInst_OPCODE ir \<in> {lwc1_op, swc1_op, ldc1_op, sdc1_op, cop1_op, cop1x_op} \<or>
     MIPSInst_OPCODE ir = spec_op \<and> MIPSInst_FUNC ir = movc_op"

definition emul_cop1 :: "'m user_ops \<Rightarrow> u32 \<Rightarrow> u32 \<Rightarrow> 'm emu \<Rightarrow> 'm emu \<times> int" where
  "emul_cop1 U ir contpc s =
     (let rs = MIPSInst_RS ir
      in if rs = mfc_op then emul_done contpc (emul_mfc ir s, 0)
         else if rs = mtc_op then emul_done contpc (emul_mtc ir s, 0)
         else if rs = cfc_op then
           if ir = CP1UNDEF then do_dsemulret U s else emul_done contpc (emul_cfc ir s, 0)
         else if rs = ctc_op then emul_done contpc (emul_ctc ir s)
         else if rs AND 0x10 = 0 then (s, SIGILL)
         else emul_done contpc (fpu_emu ir s))"

definition emul_movc :: "u32 \<Rightarrow> 'm emu \<Rightarrow> 'm emu" where
  "emul_movc ir s =
     (if fcc_matches (fcr31 s) (MIPSInst_RT ir) then set_reg (MIPSInst_RD ir) (regs s (MIPSInst_RS ir)) s else s)"

definition emul_insn :: "'m user_ops \<Rightarrow> u32 \<Rightarrow> u32 \<Rightarrow> 'm emu \<Rightarrow> 'm emu \<times> int" where
  "emul_insn U ir contpc s =
     (let opc = MIPSInst_OPCODE ir; va = regs s (MIPSInst_RS ir) + MIPSInst_SIMM ir
      in if opc = ldc1_op then emul_done contpc (emu_load64 U va (MIPSInst_RT ir) s)
         else if opc = sdc1_op then emul_done contpc (emu_store64 U va (MIPSInst_RT ir) s)
         else if opc = lwc1_op then emul_done contpc (emu_load32 U va (MIPSInst_RT ir) s)
         else if opc = swc1_op then emul_done contpc (emu_store32 U va (MIPSInst_RT ir) s)
         else if opc = cop1_op then emul_cop1 U ir contpc s
         else if opc = cop1x_op then emul_done contpc (fpux_emu U ir s)
         else if opc = spec_op then
           if MIPSInst_FUNC ir \<noteq> movc_op then (s, SIGILL) else emul_done contpc (emul_movc ir s, 0)
         else (s, SIGILL))"

lemma or_and_self: "(c OR w) AND w = (w :: 'a :: len word)"
  by (rule bit_word_eqI) (auto simp: bit_simps)

text \<open>
  From label \<^verbatim>\<open>emul\<close>. A floating point branch that is taken goes back there with the instruction in its
  delay slot; the branch delay bit it has set keeps that from happening again.
\<close>

function emul :: "'m user_ops \<Rightarrow> u32 \<Rightarrow> u32 \<Rightarrow> 'm emu \<Rightarrow> 'm emu \<times> int" where
  "emul U ir contpc s0 =
     (let s = s0\<lparr>emulated := emulated s0 + 1\<rparr>
      in if MIPSInst_OPCODE ir = cop1_op \<and> MIPSInst_RS ir = bc_op then
           if delay_slot s0 then (s, SIGILL)
           else case bc_test (fcr31 s) (MIPSInst_RT ir) of
             None \<Rightarrow> (s, SIGILL)
           | Some (cond, likely) \<Rightarrow>
               let s = s\<lparr>cp0_cause := cp0_cause s0 OR CAUSEF_BD\<rparr>
               in if cond then
                    let s = s\<lparr>cp0_epc := cp0_epc s + 4\<rparr>;
                        contpc = cp0_epc s + push_bit 2 (MIPSInst_SIMM ir)
                    in case get_user U (umem s) (cp0_epc s) of
                         None \<Rightarrow> fault s
                       | Some ir \<Rightarrow> if one_of_ours ir then emul U ir contpc s else mips_dsemul U ir contpc s
                  else if likely then emul_done (contpc + 4) (s\<lparr>cp0_epc := cp0_epc s + 4\<rparr>, 0)
                  else emul_done contpc (s, 0)
         else emul_insn U ir contpc s)"
  by pat_completeness auto
termination
proof (relation "measure (\<lambda>(U, ir, contpc, s). if delay_slot s then 0 else 1)")
qed (auto simp: delay_slot_def or_and_self)

declare emul.simps [simp del]

definition cop1Emulate :: "'m user_ops \<Rightarrow> 'm emu \<Rightarrow> 'm emu \<times> int" where
  "cop1Emulate U s =
     (case get_user U (umem s) (cp0_epc s) of
        None \<Rightarrow> fault s
      | Some ir \<Rightarrow>
          let s = (if delay_slot s \<and> \<not> isBranchInstr ir then s\<lparr>cp0_cause := cp0_cause s AND NOT CAUSEF_BD\<rparr> else s)
          in if delay_slot s then
               let emulpc = cp0_epc s + 4;
                   (s, err) = compute_return_epc U s
               in if err \<noteq> 0 then (s, SIGILL)
                  else case get_user U (umem s) emulpc of
                    None \<Rightarrow> fault s
                  | Some ir \<Rightarrow>
                      let contpc = cp0_epc s; s = s\<lparr>cp0_epc := emulpc - 4\<rparr>
                      in emul U ir contpc s
             else emul U ir (cp0_epc s + 4) s)"

section \<open>The trap handler\<close>

text \<open>\<^verbatim>\<open>ieee754_csr.rm = tab[ieee754_csr.rm]\<close>\<close>

definition convert_rm :: "u32 list \<Rightarrow> 'm emu \<Rightarrow> 'm emu" where
  "convert_rm tab s =
     (let c = csr_of_fcr31 (fcr31 s) in s\<lparr>fcr31 := fcr31_of_csr (c\<lparr>csr_rm := ucast (tab ! unat (csr_rm c))\<rparr>)\<rparr>)"

definition handler_step :: "'m user_ops \<Rightarrow> u32 \<Rightarrow> 'm emu \<Rightarrow> 'm emu \<times> int" where
  "handler_step U insn s =
     (if insn = 0 then (s\<lparr>cp0_epc := cp0_epc s + 4\<rparr>, 0)
      else
        let s = convert_rm ieee_rm s;
            (s, sig) = cop1Emulate U s
        in (convert_rm mips_rm s, sig))"

text \<open>The loop ends with a signal to return as it is (\<open>Inl\<close>) or with one to look at after the loop (\<open>Inr\<close>).\<close>

function handler_loop :: "'m user_ops \<Rightarrow> bool \<Rightarrow> 'm emu \<Rightarrow> 'm emu \<times> (int + int)" where
  "handler_loop U has_fpu s =
     (case get_user U (umem s) (cp0_epc s) of
        None \<Rightarrow> (fst (fault s), Inl (snd (fault s)))
      | Some insn \<Rightarrow>
          let s' = fst (handler_step U insn s); sig = snd (handler_step U insn s)
          in if has_fpu then (s', Inr sig)
             else if sig \<noteq> 0 then (s', Inr sig)
             else if cp0_epc s' > cp0_epc s then handler_loop U has_fpu s'
             else (s', Inr sig))"
  by pat_completeness auto
termination
proof (relation "measure (\<lambda>(U, has_fpu, s). 2 ^ 32 - unat (cp0_epc s))", goal_cases)
  case (2 U has_fpu s insn s' sig)
  have "unat (cp0_epc s') < 2 ^ LENGTH(32)" by (rule unsigned_less)
  moreover have "unat (cp0_epc s) < unat (cp0_epc s')" using 2(6) by (simp add: word_less_nat_alt)
  ultimately show ?case by simp
qed simp

declare handler_loop.simps [simp del]

definition fpu_emulator_cop1Handler :: "'m user_ops \<Rightarrow> bool \<Rightarrow> 'm emu \<Rightarrow> 'm emu \<times> int" where
  "fpu_emulator_cop1Handler U has_fpu s =
     (case handler_loop U has_fpu s of
        (s', Inl sig) \<Rightarrow> (s', sig)
      | (s', Inr sig) \<Rightarrow> (s', if sig = SIGILL \<and> cp0_epc s' \<noteq> cp0_epc s then 0 else sig))"

end
