(* ===== verification/Lib_Effect.thy ===== *)
theory Lib_Effect
  imports Cp1emu
begin

text \<open>
  The effect of the library on the control and status register. Every function the emulator calls clears the
  cause bits and then only raises exceptions, on every operand, NaNs and flushed denormals included:
  the rounding mode, the enables, the flush bit and the condition bits stay as they were, sticky bits
  are never lost, and a cause bit is never set without its sticky bit.
\<close>

section \<open>Raising exceptions\<close>

definition raises :: "ieee754_csr \<Rightarrow> ieee754_csr \<Rightarrow> bool" where
  "raises c d \<longleftrightarrow> (\<exists>k. d = SETCX k c)"

text \<open>Exceptions before the cause bits are cleared are seen in the sticky bits only (comparisons).\<close>

definition lib_step :: "ieee754_csr \<Rightarrow> ieee754_csr \<Rightarrow> bool" where
  "lib_step c d \<longleftrightarrow> (\<exists>a k. d = SETCX k (CLEARCX (SETCX a c)))"

named_theorems effect \<open>what a library function raises\<close>

lemma raises_refl [intro!, simp]: "raises c c"
  unfolding raises_def by (rule exI [of _ 0]) simp

lemma raises_SETCX [intro]: "raises c d \<Longrightarrow> raises c (SETCX k d)"
  unfolding raises_def by (auto simp: SETCX_SETCX)

lemma raises_trans [trans]: "raises c d \<Longrightarrow> raises d e \<Longrightarrow> raises c e"
  unfolding raises_def by (auto simp: SETCX_SETCX)

lemma lib_step_clear: "raises (CLEARCX c) d \<Longrightarrow> lib_step c d"
  unfolding raises_def lib_step_def by (metis SETCX_0)

lemma lib_step_late: "raises c b \<Longrightarrow> raises (CLEARCX b) d \<Longrightarrow> lib_step c d"
  unfolding raises_def lib_step_def by auto

lemma clear_step: "CLEARCX (SETCX k (CLEARCX c)) = CLEARCX (SETCX k c)"
  by (simp add: CLEARCX_def SETCX_def)

lemma lib_step_trans [trans]: "lib_step c d \<Longrightarrow> lib_step d e \<Longrightarrow> lib_step c e"
  unfolding lib_step_def by (metis SETCX_SETCX clear_step)

lemma lib_step_raises: "lib_step c d \<Longrightarrow> raises d e \<Longrightarrow> lib_step c e"
  unfolding lib_step_def raises_def by (metis SETCX_SETCX)

lemma raises_parts:
  "raises c d \<Longrightarrow> raises c (fst (d, r))"
  "raises c (fst x) \<Longrightarrow> raises c (fst y) \<Longrightarrow> raises c (fst (if b then x else y))"
  "raises c d \<Longrightarrow> raises c e \<Longrightarrow> raises c (if b then d else e)"
  "(\<And>u v w. raises c (fst (f u v w))) \<Longrightarrow> raises c (fst (case p of (u, v, w) \<Rightarrow> f u v w))"
  by (auto split: prod.split)

section \<open>The shared code\<close>

lemma raises_denorm [effect]: "raises c (fst (fp_denorm p emin c s e m))"
  by (auto simp: fp_denorm_def)

lemma raises_guard [effect]: "raises c (fst (fp_guard p c s e m))"
  by (auto simp: fp_guard_def Let_def)

lemma raises_pack [effect]: "raises c (fst (fp_pack p emin emax eb finf fbig fb c s e m))"
  by (auto simp: fp_pack_def)

lemma raises_format [effect]: "raises c (fst (fp_format p emin emax eb fz fl finf fbig fb c s e m))"
proof -
  obtain c1 e1 m1 where 1: "fp_denorm p emin c s e m = (c1, e1, m1)" by (metis prod_cases3)
  obtain c2 e2 m2 where 2: "fp_guard p c1 s e1 m1 = (c2, e2, m2)" by (metis prod_cases3)
  have "raises c (fst (fp_pack p emin emax eb finf fbig fb c2 s e2 (drop_bit 3 m2)))"
    using raises_denorm [of c p emin s e m] raises_guard [of c1 p s e1 m1] raises_pack [of c2 p emin emax eb finf fbig fb s e2 "drop_bit 3 m2"]
    unfolding 1 2 fst_conv by (blast intro: raises_trans)
  then show ?thesis unfolding fp_format_def 1 Let_def prod.case 2 by auto
qed

lemma raises_add_core: "raises c (fst (fp_add_core p ret fz c xs xe xm ys ye ym))" if "\<And>s e m. raises c (fst (ret c s e m))"
  using that by (auto simp: fp_add_core_def Let_def split: prod.splits)

lemma raises_mul_core: "raises c (fst (fp_mul_core p ret c xs xe xm ys ye ym))" if "\<And>s e m. raises c (fst (ret c s e m))"
  using that by (auto simp: fp_mul_core_def Let_def split: prod.splits)

lemma raises_div_core: "raises c (fst (fp_div_core p ret c xs xe xm ys ye ym))" if "\<And>s e m. raises c (fst (ret c s e m))"
  using that by (auto simp: fp_div_core_def Let_def split: prod.splits)

lemma raises_tint_finish: "raises c (fst (tint_finish xcpt indef c xs rnd sticky xm))"
  by (auto simp: tint_finish_def Let_def)

lemma lib_fint: "lib_step c (fst (fp_fint p ret fz f1 f10 c x))" if "\<And>c s e m. raises c (fst (ret c s e m))"
  using that by (auto intro!: lib_step_clear simp: fp_fint_def Let_def split: prod.splits)

section \<open>Single precision\<close>

lemma sp_raises_nanxcpt [effect]: "raises c (fst (ieee754sp_nanxcpt c r))"
  by (auto simp: ieee754sp_nanxcpt_def Let_def SETANDTESTCX_def)

lemma sp_raises_ret [effect]: "raises c (fst (SPNORMRET2 c s e m))"
proof -
  have "fst (SPNORMRET2 c s e m) = fst (ieee754sp_format c s e m)" by (simp add: SPNORMRET2_def Let_def split: prod.splits)
  then show ?thesis using raises_format by (simp add: ieee754sp_format_def)
qed

lemma sp_raises_flush: "FLUSHSP c v vc vs ve vm = (d, r) \<Longrightarrow> raises c d"
  by (auto simp: FLUSHSP_def split: if_splits)

text \<open>The operands of a binary and of a unary operation, unpacked and flushed.\<close>

lemma sp_operands:
  obtains d x' y' xc xs xe xm yc ys ye ym c1 xe0 xc0 xm0 yc0 ye0 ym0 where "EXPLODESP x = (xc0, xs, xe0, xm0)" "EXPLODESP y = (yc0, ys, ye0, ym0)"
    "FLUSHSP c x xc0 xs xe0 xm0 = (c1, x', xc, xe, xm)" "FLUSHSP c1 y yc0 ys ye0 ym0 = (d, y', yc, ye, ym)" "raises c d"
proof -
  obtain xc0 xs xe0 xm0 where x: "EXPLODESP x = (xc0, xs, xe0, xm0)" by (rule prod_cases4)
  obtain yc0 ys ye0 ym0 where y: "EXPLODESP y = (yc0, ys, ye0, ym0)" by (rule prod_cases4)
  obtain c1 x' xc xe xm where fx: "FLUSHSP c x xc0 xs xe0 xm0 = (c1, x', xc, xe, xm)" by (rule prod_cases5)
  obtain d y' yc ye ym where fy: "FLUSHSP c1 y yc0 ys ye0 ym0 = (d, y', yc, ye, ym)" by (rule prod_cases5)
  show thesis by (rule that [OF x y fx fy]) (rule raises_trans [OF sp_raises_flush [OF fx] sp_raises_flush [OF fy]])
qed

lemma sp_operand:
  obtains d x' xc xs xe xm xc0 xe0 xm0 where "EXPLODESP x = (xc0, xs, xe0, xm0)" "FLUSHSP c x xc0 xs xe0 xm0 = (d, x', xc, xe, xm)" "raises c d"
proof -
  obtain xc0 xs xe0 xm0 where x: "EXPLODESP x = (xc0, xs, xe0, xm0)" by (rule prod_cases4)
  obtain d x' xc xe xm where fx: "FLUSHSP c x xc0 xs xe0 xm0 = (d, x', xc, xe, xm)" by (rule prod_cases5)
  show thesis by (rule that [OF x fx sp_raises_flush [OF fx]])
qed

lemmas sp_raises = raises_trans [OF _ sp_raises_nanxcpt] raises_trans [OF _ sp_raises_ret]
  raises_trans [OF _ raises_add_core [where ret = SPNORMRET2, OF sp_raises_ret]] raises_trans [OF _ raises_mul_core [where ret = SPNORMRET2, OF sp_raises_ret]]
  raises_trans [OF _ raises_div_core [where ret = SPNORMRET2, OF sp_raises_ret]]

lemma sp_add_step [effect]: "lib_step c (fst (ieee754sp_add c x y))"
  by (rule sp_operands [of x y "CLEARCX c"], rule lib_step_clear, simp only: ieee754sp_add_def Let_def prod.case)
    (auto intro!: sp_raises split: ieee754_class.split prod.split)

lemma sp_sub_step [effect]: "lib_step c (fst (ieee754sp_sub c x y))"
  by (rule sp_operands [of x y "CLEARCX c"], rule lib_step_clear, simp only: ieee754sp_sub_def Let_def prod.case)
    (auto intro!: sp_raises split: ieee754_class.split prod.split)

lemma sp_mul_step [effect]: "lib_step c (fst (ieee754sp_mul c x y))"
  by (rule sp_operands [of x y "CLEARCX c"], rule lib_step_clear, simp only: ieee754sp_mul_def Let_def prod.case)
    (auto intro!: sp_raises split: ieee754_class.split prod.split)

lemma sp_div_step [effect]: "lib_step c (fst (ieee754sp_div c x y))"
  by (rule sp_operands [of x y "CLEARCX c"], rule lib_step_clear, simp only: ieee754sp_div_def Let_def prod.case)
    (auto intro!: sp_raises split: ieee754_class.split prod.split)

lemma sp_cmp_step [effect]: "lib_step c (fst (ieee754sp_cmp c x y cmp sig))"
  by (rule sp_operands [of x y c], rule lib_step_late, assumption, simp only: ieee754sp_cmp_def Let_def prod.case)
    (auto simp: SETANDTESTCX_def)

lemma sp_neg_step [effect]: "lib_step c (fst (ieee754sp_neg c x))"
  by (rule sp_operand [of x "CLEARCX c"], rule lib_step_clear, simp only: ieee754sp_neg_def Let_def prod.case)
    (auto intro!: sp_raises)

lemma sp_abs_step [effect]: "lib_step c (fst (ieee754sp_abs c x))"
  by (rule sp_operand [of x "CLEARCX c"], rule lib_step_clear, simp only: ieee754sp_abs_def Let_def prod.case)
    (auto intro!: sp_raises)

lemma sp_tint_step [effect]: "lib_step c (fst (ieee754sp_tint c x))"
  by (rule sp_operand [of x "CLEARCX c"], rule lib_step_clear, simp only: ieee754sp_tint_def Let_def prod.case)
    (auto intro: raises_trans [OF _ raises_tint_finish])

lemma sp_sqrt_step [effect]: "lib_step c (fst (ieee754sp_sqrt c x))"
  by (rule sp_operand [of x "CLEARCX c"], rule lib_step_clear, simp only: ieee754sp_sqrt_def Let_def prod.case)
    (auto intro!: sp_raises split: prod.split)

section \<open>Double precision\<close>

lemma dp_raises_nanxcpt [effect]: "raises c (fst (ieee754dp_nanxcpt c r))"
  by (auto simp: ieee754dp_nanxcpt_def Let_def SETANDTESTCX_def)

lemma dp_raises_ret [effect]: "raises c (fst (DPNORMRET2 c s e m))"
proof -
  have "fst (DPNORMRET2 c s e m) = fst (ieee754dp_format c s e m)" by (simp add: DPNORMRET2_def Let_def split: prod.splits)
  then show ?thesis using raises_format by (simp add: ieee754dp_format_def)
qed

lemma dp_raises_flush: "FLUSHDP c v vc vs ve vm = (d, r) \<Longrightarrow> raises c d"
  by (auto simp: FLUSHDP_def split: if_splits)

lemma dp_operands:
  obtains d x' y' xc xs xe xm yc ys ye ym c1 xe0 xc0 xm0 yc0 ye0 ym0 where "EXPLODEDP x = (xc0, xs, xe0, xm0)" "EXPLODEDP y = (yc0, ys, ye0, ym0)"
    "FLUSHDP c x xc0 xs xe0 xm0 = (c1, x', xc, xe, xm)" "FLUSHDP c1 y yc0 ys ye0 ym0 = (d, y', yc, ye, ym)" "raises c d"
proof -
  obtain xc0 xs xe0 xm0 where x: "EXPLODEDP x = (xc0, xs, xe0, xm0)" by (rule prod_cases4)
  obtain yc0 ys ye0 ym0 where y: "EXPLODEDP y = (yc0, ys, ye0, ym0)" by (rule prod_cases4)
  obtain c1 x' xc xe xm where fx: "FLUSHDP c x xc0 xs xe0 xm0 = (c1, x', xc, xe, xm)" by (rule prod_cases5)
  obtain d y' yc ye ym where fy: "FLUSHDP c1 y yc0 ys ye0 ym0 = (d, y', yc, ye, ym)" by (rule prod_cases5)
  show thesis by (rule that [OF x y fx fy]) (rule raises_trans [OF dp_raises_flush [OF fx] dp_raises_flush [OF fy]])
qed

lemma dp_operand:
  obtains d x' xc xs xe xm xc0 xe0 xm0 where "EXPLODEDP x = (xc0, xs, xe0, xm0)" "FLUSHDP c x xc0 xs xe0 xm0 = (d, x', xc, xe, xm)" "raises c d"
proof -
  obtain xc0 xs xe0 xm0 where x: "EXPLODEDP x = (xc0, xs, xe0, xm0)" by (rule prod_cases4)
  obtain d x' xc xe xm where fx: "FLUSHDP c x xc0 xs xe0 xm0 = (d, x', xc, xe, xm)" by (rule prod_cases5)
  show thesis by (rule that [OF x fx dp_raises_flush [OF fx]])
qed

lemmas dp_raises = raises_trans [OF _ dp_raises_nanxcpt] raises_trans [OF _ dp_raises_ret]
  raises_trans [OF _ raises_add_core [where ret = DPNORMRET2, OF dp_raises_ret]] raises_trans [OF _ raises_mul_core [where ret = DPNORMRET2, OF dp_raises_ret]]
  raises_trans [OF _ raises_div_core [where ret = DPNORMRET2, OF dp_raises_ret]]

lemma dp_add_step [effect]: "lib_step c (fst (ieee754dp_add c x y))"
  by (rule dp_operands [of x y "CLEARCX c"], rule lib_step_clear, simp only: ieee754dp_add_def Let_def prod.case)
    (auto intro!: dp_raises split: ieee754_class.split prod.split)

lemma dp_sub_step [effect]: "lib_step c (fst (ieee754dp_sub c x y))"
  by (rule dp_operands [of x y "CLEARCX c"], rule lib_step_clear, simp only: ieee754dp_sub_def Let_def prod.case)
    (auto intro!: dp_raises split: ieee754_class.split prod.split)

lemma dp_mul_step [effect]: "lib_step c (fst (ieee754dp_mul c x y))"
  by (rule dp_operands [of x y "CLEARCX c"], rule lib_step_clear, simp only: ieee754dp_mul_def Let_def prod.case)
    (auto intro!: dp_raises split: ieee754_class.split prod.split)

lemma dp_div_step [effect]: "lib_step c (fst (ieee754dp_div c x y))"
  by (rule dp_operands [of x y "CLEARCX c"], rule lib_step_clear, simp only: ieee754dp_div_def Let_def prod.case)
    (auto intro!: dp_raises split: ieee754_class.split prod.split)

lemma dp_cmp_step [effect]: "lib_step c (fst (ieee754dp_cmp c x y cmp sig))"
  by (rule dp_operands [of x y c], rule lib_step_late, assumption, simp only: ieee754dp_cmp_def Let_def prod.case)
    (auto simp: SETANDTESTCX_def)

lemma dp_neg_step [effect]: "lib_step c (fst (ieee754dp_neg c x))"
  by (rule dp_operand [of x "CLEARCX c"], rule lib_step_clear, simp only: ieee754dp_neg_def Let_def prod.case)
    (auto intro!: dp_raises)

lemma dp_abs_step [effect]: "lib_step c (fst (ieee754dp_abs c x))"
  by (rule dp_operand [of x "CLEARCX c"], rule lib_step_clear, simp only: ieee754dp_abs_def Let_def prod.case)
    (auto intro!: dp_raises)

lemma dp_tint_step [effect]: "lib_step c (fst (ieee754dp_tint c x))"
  by (rule dp_operand [of x "CLEARCX c"], rule lib_step_clear, simp only: ieee754dp_tint_def Let_def prod.case)
    (intro raises_parts raises_SETCX; assumption)

lemma raises_settle: "raises old (fst (dp_sqrt_settle old c x y scalx))"
  by (auto simp: dp_sqrt_settle_def Let_def split: prod.split)

lemma dp_sqrt_step [effect]: "lib_step c (fst (ieee754dp_sqrt c x))"
  by (rule dp_operand [of x "CLEARCX c"], rule lib_step_clear, simp only: ieee754dp_sqrt_def Let_def prod.case)
    (auto intro!: dp_raises raises_trans [OF _ raises_settle] split: prod.split)

section \<open>Conversions\<close>

lemma sp_fint_step [effect]: "lib_step c (fst (ieee754sp_fint c x))"
  unfolding ieee754sp_fint_def by (rule lib_fint) (rule sp_raises_ret)

lemma dp_fint_step [effect]: "lib_step c (fst (ieee754dp_fint c x))"
  by (rule lib_step_clear) (auto simp: ieee754dp_fint_def Let_def split: prod.split)

lemma sp_fdp_step [effect]: "lib_step c (fst (ieee754sp_fdp c x))"
  by (rule dp_operand [of x "CLEARCX c"], rule lib_step_clear, simp only: ieee754sp_fdp_def Let_def prod.case)
    (auto intro!: sp_raises split: ieee754_class.split)

lemma dp_fsp_step [effect]: "lib_step c (fst (ieee754dp_fsp c x))"
  by (rule sp_operand [of x "CLEARCX c"], rule lib_step_clear, simp only: ieee754dp_fsp_def Let_def prod.case)
    (auto intro!: dp_raises split: ieee754_class.split prod.split)

section \<open>The operations of the emulator\<close>

lemma sp_recip_step [effect]: "lib_step c (fst (fpemu_sp_recip c x))"
  unfolding fpemu_sp_recip_def by (rule sp_div_step)

lemma dp_recip_step [effect]: "lib_step c (fst (fpemu_dp_recip c x))"
  unfolding fpemu_dp_recip_def by (rule dp_div_step)

lemma sp_rsqrt_step [effect]: "lib_step c (fst (fpemu_sp_rsqrt c x))"
  using sp_sqrt_step [of c x] by (auto simp: fpemu_sp_rsqrt_def Let_def intro: lib_step_trans sp_div_step split: prod.split)

lemma dp_rsqrt_step [effect]: "lib_step c (fst (fpemu_dp_rsqrt c x))"
  using dp_sqrt_step [of c x] by (auto simp: fpemu_dp_rsqrt_def Let_def intro: lib_step_trans dp_div_step split: prod.split)

lemma sp_binop_step: "sp_binop f = Some h \<Longrightarrow> lib_step c (fst (h c x y))"
  by (auto simp: sp_binop_def intro: effect split: if_splits)

lemma dp_binop_step: "dp_binop f = Some h \<Longrightarrow> lib_step c (fst (h c x y))"
  by (auto simp: dp_binop_def intro: effect split: if_splits)

lemma sp_unop_step: "sp_unop f = Some h \<Longrightarrow> lib_step c (fst (h c x))"
  by (auto simp: sp_unop_def intro: effect split: if_splits)

lemma dp_unop_step: "dp_unop f = Some h \<Longrightarrow> lib_step c (fst (h c x))"
  by (auto simp: dp_unop_def intro: effect split: if_splits)

end
