(* ===== verification/Emu_Arith.thy ===== *)
theory Emu_Arith
  imports Lib_Effect
begin

text \<open>
  What an arithmetic instruction does to the state: the register word the emulator puts together after a
  library call is the one the library left, the trap test is the library's own, and beside the
  destination register and the control register nothing of the machine changes.
\<close>

section \<open>The control register after a library call\<close>

lemma word5_cases:
  fixes k :: "5 word"
  obtains n where "n < 32" and "k = of_nat n"
proof (rule that)
  show "unat k < 32" using unsigned_less [of k, where ?'a = nat] by simp
  show "k = of_nat (unat k)" by (simp add: of_nat_unat)
qed

lemma word_nonzero_iff: "w \<noteq> 0 \<longleftrightarrow> (\<exists>n. bit w n)" for w :: "'a::len word"
proof
  assume "w \<noteq> 0"
  then show "\<exists>n. bit w n" using bit_word_eqI [of w 0] by auto
qed auto

text \<open>\<open>flag_bits\<close> of the cause bits \<open>k\<close>, as \<open>copcsr\<close> collects them: each with its sticky bit.\<close>

definition flag_bits :: "5 word \<Rightarrow> u32" where
  "flag_bits k = push_bit 12 (ucast k) OR push_bit 2 (ucast k)"

lemma copcsr_flags:
  assumes "csr_cx (csr_of_fcr31 (fcr31 s)) = ucast k"
  shows "copcsr s = flag_bits k"
proof -
  obtain n where n: "n < 32" "k = of_nat n" by (rule word5_cases)
  have "n \<in> {0..<32}" using n(1) by simp
  then have "n \<in> set [0..<32]" by (simp only: atLeastLessThan_upt)
  then show ?thesis using assms unfolding n(2) copcsr_def Let_def ieee754_cxtest_def flag_bits_def
    by (simp add: upt_rec) (elim disjE; simp)
qed

lemma lib_step_cause: "lib_step c d \<Longrightarrow> \<exists>k. csr_cx d = ucast k \<and> k AND NOT (csr_sx d) = 0"
  unfolding lib_step_def by (elim exE) (rule exI, rule conjI, simp, simp add: bit_eq_iff bit_simps)

lemma csr_all_x: "(FPU_CSR_ALL_X :: u32) = push_bit 12 (mask 6)"
  by (simp add: mask_numeral)

lemma csr_all_e: "(FPU_CSR_ALL_E :: u32) = push_bit 7 (mask 5)"
  by (simp add: mask_numeral)

lemma Suc_Suc_sub: "2 \<le> n \<Longrightarrow> Suc (Suc (n - 2)) = n"
  by simp

text \<open>Writing back what \<open>copcsr\<close> computes changes nothing: the library has set the same bits in place.\<close>

lemma put_copcsr:
  assumes "lib_step c (csr_of_fcr31 (fcr31 s))"
  shows "put_rcsr (copcsr s) s = s"
proof -
  let ?w = "fcr31 s"
  obtain k where k: "csr_cx (csr_of_fcr31 ?w) = ucast k" "k AND NOT (csr_sx (csr_of_fcr31 ?w)) = 0"
    using lib_step_cause [OF assms] by blast
  have cx: "bit ?w (n + 12) = bit k n" if "n < 6" for n
  proof -
    have "bit (csr_cx (csr_of_fcr31 ?w)) n = bit (ucast k :: 6 word) n" by (simp only: k(1))
    then show ?thesis using that by (simp add: csr_of_fcr31_def bit_simps add.commute)
  qed
  have sx: "bit ?w (n + 2)" if "bit k n" for n
  proof -
    have "bit (k AND NOT (csr_sx (csr_of_fcr31 ?w))) n = bit (0 :: 5 word) n" by (simp only: k(2))
    then show ?thesis using that bit_imp_le_length [OF that] by (simp add: csr_of_fcr31_def bit_simps add.commute)
  qed
  have "(?w AND NOT FPU_CSR_ALL_X) OR flag_bits k = ?w"
  proof (rule bit_word_eqI)
    fix n assume "n < LENGTH(32)"
    then show "bit ((?w AND NOT FPU_CSR_ALL_X) OR flag_bits k) n = bit ?w n"
      using cx [of "n - 12"] sx [of "n - 2"] bit_imp_le_length [of k "n - 12"] Suc_Suc_sub unfolding csr_all_x flag_bits_def
      by (auto simp: bit_simps)
  qed
  then show ?thesis by (simp add: put_rcsr_def copcsr_flags [OF k(1)])
qed

lemma csr_traps_iff: "csr_traps s \<longleftrightarrow> TSTX (csr_of_fcr31 (fcr31 s))"
proof -
  let ?w = "fcr31 s"
  have "drop_bit 5 ?w AND ?w AND FPU_CSR_ALL_E \<noteq> 0 \<longleftrightarrow> (\<exists>n. bit (drop_bit 5 ?w AND ?w AND FPU_CSR_ALL_E) n)"
    by (rule word_nonzero_iff)
  also have "\<dots> \<longleftrightarrow> (\<exists>n<5. bit ?w (n + 12) \<and> bit ?w (n + 7))"
  proof
    assume "\<exists>n. bit (drop_bit 5 ?w AND ?w AND FPU_CSR_ALL_E) n"
    then obtain n where "bit (drop_bit 5 ?w AND ?w AND push_bit 7 (mask 5)) n" unfolding csr_all_e by blast
    then show "\<exists>n<5. bit ?w (n + 12) \<and> bit ?w (n + 7)"
      by (intro exI [of _ "n - 7"]) (auto simp: bit_simps)
  next
    assume "\<exists>n<5. bit ?w (n + 12) \<and> bit ?w (n + 7)"
    then obtain n where "n < 5" "bit ?w (n + 12)" "bit ?w (n + 7)" by blast
    then show "\<exists>n. bit (drop_bit 5 ?w AND ?w AND FPU_CSR_ALL_E) n"
      unfolding csr_all_e by (intro exI [of _ "n + 7"]) (auto simp: bit_simps add.commute)
  qed
  also have "\<dots> \<longleftrightarrow> TSTX (csr_of_fcr31 ?w)"
    unfolding TSTX_def word_nonzero_iff csr_of_fcr31_def ieee754_csr.select_convs
    by (intro iff_exI) (auto simp: bit_simps add.commute)
  finally show ?thesis by (simp add: csr_traps_def)
qed

section \<open>Calls of the library\<close>

lemma fpu_call_end:
  assumes "lib_step (csr_of_fcr31 (fcr31 s)) d" and "f (csr_of_fcr31 (fcr31 s)) = (d, r)" and "s' = s\<lparr>fcr31 := fcr31_of_csr d\<rparr>"
  shows "(case fpu_call f k s of (s, out) \<Rightarrow> fpu_end ir out s) = (if TSTX d then (s', SIGFPE) else (fpu_writeback ir (k r) s', 0))"
proof -
  have "put_rcsr (copcsr s') s' = s'" using assms by (intro put_copcsr) (simp add: csr_of_fcr31_inverse)
  then show ?thesis using assms by (simp add: fpu_call_def with_csr_def fpu_end_def csr_traps_iff csr_of_fcr31_inverse)
qed

text \<open>A library function runs in a rounding mode of its own and gives back the caller's.\<close>

lemma lib_step_rm:
  assumes "lib_step (c\<lparr>csr_rm := m\<rparr>) d"
  shows "lib_step c (d\<lparr>csr_rm := csr_rm c\<rparr>)"
proof -
  obtain a k where "d = SETCX k (CLEARCX (SETCX a (c\<lparr>csr_rm := m\<rparr>)))" using assms unfolding lib_step_def by blast
  then have "d\<lparr>csr_rm := csr_rm c\<rparr> = SETCX k (CLEARCX (SETCX a c))" by (simp add: SETCX_def CLEARCX_def)
  then show ?thesis unfolding lib_step_def by blast
qed

lemma fpu_call_rm_end:
  assumes "\<And>c. lib_step c (fst (f c))" and "f (c\<lparr>csr_rm := ucast (ieee_rm ! unat (func AND 0x3))\<rparr>) = (d0, r)"
    and "c = csr_of_fcr31 (fcr31 s)" and "d = d0\<lparr>csr_rm := csr_rm c\<rparr>" and "s' = s\<lparr>fcr31 := fcr31_of_csr d\<rparr>"
  shows "(case fpu_call_rm func f s of (s, out) \<Rightarrow> fpu_end ir out s) = (if TSTX d then (s', SIGFPE) else (fpu_writeback ir (W_val r) s', 0))"
proof -
  have "lib_step (c\<lparr>csr_rm := ucast (ieee_rm ! unat (func AND 0x3))\<rparr>) d0" using assms(1) assms(2) by (metis fst_conv)
  then have "lib_step c d" unfolding assms(4) by (rule lib_step_rm)
  then have "put_rcsr (copcsr s') s' = s'" using assms by (intro put_copcsr) (simp add: csr_of_fcr31_inverse)
  then show ?thesis using assms by (simp add: fpu_call_rm_def fpu_end_def csr_traps_iff csr_of_fcr31_inverse Let_def)
qed

section \<open>The whole instruction\<close>

text \<open>The states an outcome can come with: as before, or with a control register the library has left.\<close>

definition csr_only :: "'m emu \<Rightarrow> 'm emu \<Rightarrow> bool" where
  "csr_only s s' \<longleftrightarrow> (\<exists>d. lib_step (csr_of_fcr31 (fcr31 s)) d \<and> s' = s\<lparr>fcr31 := fcr31_of_csr d\<rparr>)"

lemma csr_onlyI: "s' = s\<lparr>fcr31 := fcr31_of_csr d\<rparr> \<Longrightarrow> lib_step (csr_of_fcr31 (fcr31 s)) d \<Longrightarrow> csr_only s s'"
  unfolding csr_only_def by blast

abbreviation (input) FPU_CSR_FLAGS :: u32 where "FPU_CSR_FLAGS \<equiv> 0x0003f07c"

definition rcsr_ok :: "fpu_outcome \<Rightarrow> bool" where
  "rcsr_ok out = (case out of Return sig \<Rightarrow> sig = 0 \<or> sig = SIGILL | Result rcsr rv \<Rightarrow> rcsr AND NOT FPU_CSR_FLAGS = 0)"

definition csr_safe :: "'m emu \<Rightarrow> 'm emu \<times> fpu_outcome \<Rightarrow> bool" where
  "csr_safe s p \<longleftrightarrow> (fst p = s \<or> csr_only s (fst p) \<and> (\<exists>rcsr rv. snd p = Result rcsr rv)) \<and> rcsr_ok (snd p)"

lemma copcsr_ok: "copcsr s AND NOT FPU_CSR_FLAGS = 0"
  by (simp add: copcsr_def Let_def)

lemma csr_safe_parts:
  "csr_safe s (s, Return 0)" "csr_safe s (s, Return SIGILL)" "csr_safe s (s, Result 0 rv)" "csr_safe s (s, Result (copcsr s) rv)"
  "csr_safe s p \<Longrightarrow> csr_safe s q \<Longrightarrow> csr_safe s (if b then p else q)"
  using copcsr_ok [of s] by (simp_all add: csr_safe_def rcsr_ok_def)

lemma csr_safeI: "csr_only s (fst p) \<Longrightarrow> snd p = Result rcsr rv \<Longrightarrow> rcsr AND NOT FPU_CSR_FLAGS = 0 \<Longrightarrow> csr_safe s p"
  by (simp add: csr_safe_def rcsr_ok_def)

lemma fpu_call_csr: "csr_safe s (fpu_call f k s)" if "\<And>c. lib_step c (fst (f c))"
proof (rule csr_safeI [OF csr_onlyI [OF _ that] _ copcsr_ok])
qed (simp_all add: fpu_call_def with_csr_def Let_def case_prod_beta)

lemma fpu_call_rm_csr: "csr_safe s (fpu_call_rm func f s)" if "\<And>c. lib_step c (fst (f c))"
proof (rule csr_safeI [OF csr_onlyI [OF _ lib_step_rm [OF that]] _ copcsr_ok])
qed (simp_all add: fpu_call_rm_def Let_def case_prod_beta)

lemma fpu_compare_csr: "csr_safe s (fpu_compare func f s)" if "\<And>c p g. lib_step c (fst (f c p g))"
proof -
  define r where "r = f (csr_of_fcr31 (fcr31 s)) (cmptab ! unat ((func - fcmp_op) AND 0x7)) ((func - fcmp_op) AND 0x8 \<noteq> 0)"
  define s' where "s' = s\<lparr>fcr31 := fcr31_of_csr (fst r)\<rparr>"
  have c: "csr_only s s'" unfolding s'_def r_def by (rule csr_onlyI [OF refl that])
  have "fpu_compare func f s = (s', Result (FPU_CSR_INV_X OR FPU_CSR_INV_S) (Cmp (snd r))) \<or>
    fpu_compare func f s = (s', Result (copcsr s') (Cmp (snd r)))"
    unfolding fpu_compare_def with_csr_def Let_def case_prod_beta r_def [symmetric] fst_conv snd_conv s'_def [symmetric] by simp
  then show ?thesis using c copcsr_ok [of s'] by (elim disjE) (simp_all add: csr_safe_def rcsr_ok_def)
qed

lemma fpu_emu_s_csr: "csr_safe s (fpu_emu_s ir s)"
proof -
  have u: "sp_unop (MIPSInst_FUNC ir) = Some h \<Longrightarrow> csr_safe s (fpu_call (\<lambda>c. h c x) k s)" for h x k by (intro fpu_call_csr sp_unop_step)
  have b: "sp_binop (MIPSInst_FUNC ir) = Some h \<Longrightarrow> csr_safe s (fpu_call (\<lambda>c. h c x y) k s)" for h x y k by (intro fpu_call_csr sp_binop_step)
  show ?thesis unfolding fpu_emu_s_def Let_def
    by (cases "sp_binop (MIPSInst_FUNC ir)"; cases "sp_unop (MIPSInst_FUNC ir)")
      (simp_all only: option.case u b csr_safe_parts fpu_call_csr fpu_call_rm_csr fpu_compare_csr effect)
qed

lemma fpu_emu_d_csr: "csr_safe s (fpu_emu_d ir s)"
proof -
  have u: "dp_unop (MIPSInst_FUNC ir) = Some h \<Longrightarrow> csr_safe s (fpu_call (\<lambda>c. h c x) k s)" for h x k by (intro fpu_call_csr dp_unop_step)
  have b: "dp_binop (MIPSInst_FUNC ir) = Some h \<Longrightarrow> csr_safe s (fpu_call (\<lambda>c. h c x y) k s)" for h x y k by (intro fpu_call_csr dp_binop_step)
  show ?thesis unfolding fpu_emu_d_def Let_def
    by (cases "dp_binop (MIPSInst_FUNC ir)"; cases "dp_unop (MIPSInst_FUNC ir)")
      (simp_all only: option.case u b csr_safe_parts fpu_call_csr fpu_call_rm_csr fpu_compare_csr effect)
qed

lemma fpu_emu_w_csr: "csr_safe s (fpu_emu_w ir s)"
  unfolding fpu_emu_w_def Let_def by (intro csr_safe_parts fpu_call_csr effect)

text \<open>
  What an arithmetic instruction writes, from the instruction set: comparisons a condition bit, conversions the format of their name, all
  other instructions the format of their operands.
\<close>

datatype fp_dest = To_cond | To_single | To_double

definition fp_dest_of :: "u32 \<Rightarrow> fp_dest" where
  "fp_dest_of ir =
     (let func = MIPSInst_FUNC ir
      in if func \<ge> 0x30 then To_cond
         else if func = 0x21 then To_double
         else if func = 0x20 \<or> func = 0x24 \<or> func \<in> {0x0c, 0x0d, 0x0e, 0x0f} then To_single
         else if MIPSInst_FFMT ir AND 0xf = 1 then To_double
         else To_single)"

fun value_dest :: "fpu_value \<Rightarrow> fp_dest" where
  "value_dest (S_val x) = To_single"
| "value_dest (W_val x) = To_single"
| "value_dest (D_val x) = To_double"
| "value_dest (Cmp b) = To_cond"

definition fits_dest :: "u32 \<Rightarrow> fpu_outcome \<Rightarrow> bool" where
  "fits_dest ir out = (case out of Return sig \<Rightarrow> True | Result rcsr rv \<Rightarrow> value_dest rv = fp_dest_of ir)"

lemma dest_calls:
  "fits_dest ir (Return sig)" "fits_dest ir (Result rcsr rv) \<longleftrightarrow> value_dest rv = fp_dest_of ir"
  "fits_dest ir (snd (fpu_call f S_val s)) \<longleftrightarrow> fp_dest_of ir = To_single" "fits_dest ir (snd (fpu_call g D_val s)) \<longleftrightarrow> fp_dest_of ir = To_double"
  "fits_dest ir (snd (fpu_call f W_val s)) \<longleftrightarrow> fp_dest_of ir = To_single" "fits_dest ir (snd (fpu_call_rm func f s)) \<longleftrightarrow> fp_dest_of ir = To_single"
  "fits_dest ir (snd (fpu_compare func h s)) \<longleftrightarrow> fp_dest_of ir = To_cond"
  by (auto simp: fits_dest_def fpu_call_def fpu_call_rm_def fpu_compare_def Let_def case_prod_beta)

lemma func_low: "\<not> (0x30 :: 6 word) \<le> 1" "\<not> (0x30 :: 6 word) \<le> 0"
  by (simp_all add: word_le_nat_alt)

lemma fpu_emu_s_dest: "MIPSInst_FFMT ir AND 0xf = s_fmt \<Longrightarrow> fits_dest ir (snd (fpu_emu_s ir s))"
  by (simp add: fpu_emu_s_def sp_binop_def sp_unop_def Let_def dest_calls if_distrib [where f = snd] if_distrib [where f = "fits_dest ir"] fp_dest_of_def func_low)

lemma fpu_emu_d_dest: "MIPSInst_FFMT ir AND 0xf = d_fmt \<Longrightarrow> fits_dest ir (snd (fpu_emu_d ir s))"
  by (simp add: fpu_emu_d_def dp_binop_def dp_unop_def Let_def dest_calls if_distrib [where f = snd] if_distrib [where f = "fits_dest ir"] fp_dest_of_def func_low)

lemma fpu_emu_w_dest: "MIPSInst_FFMT ir AND 0xf = w_fmt \<Longrightarrow> fits_dest ir (snd (fpu_emu_w ir s))"
  by (simp add: fpu_emu_w_def Let_def dest_calls if_distrib [where f = snd] if_distrib [where f = "fits_dest ir"] fp_dest_of_def)

lemma fpu_emu_end:
  obtains s1 out where "fpu_emu ir s = fpu_end ir out s1" and "csr_safe (s\<lparr>cp1ops := cp1ops s + 1\<rparr>) (s1, out)" and "fits_dest ir out"
proof -
  let ?s = "s\<lparr>cp1ops := cp1ops s + 1\<rparr>"
  define p where "p = (if MIPSInst_FFMT ir AND 0xf = s_fmt then fpu_emu_s ir ?s
     else if MIPSInst_FFMT ir AND 0xf = d_fmt then fpu_emu_d ir ?s
     else if MIPSInst_FFMT ir AND 0xf = w_fmt then fpu_emu_w ir ?s else (?s, Return SIGILL))"
  have "csr_safe ?s p" unfolding p_def by (intro csr_safe_parts fpu_emu_s_csr fpu_emu_d_csr fpu_emu_w_csr)
  moreover have "fits_dest ir (snd p)" unfolding p_def by (simp add: fpu_emu_s_dest fpu_emu_d_dest fpu_emu_w_dest dest_calls(1))
  moreover have "fpu_emu ir s = (case p of (s1, out) \<Rightarrow> fpu_end ir out s1)" unfolding fpu_emu_def p_def Let_def by (rule refl)
  ultimately show thesis by (cases p) (simp add: that)
qed

text \<open>The control register seen as a word: modes and enables stay, sticky bits accumulate.\<close>

abbreviation (input) FPU_CSR_MODES :: u32 where "FPU_CSR_MODES \<equiv> FPU_CSR_FLUSH OR FPU_CSR_ALL_E OR 0x3"

definition csr_grows :: "u32 \<Rightarrow> u32 \<Rightarrow> bool" where
  "csr_grows w w' \<longleftrightarrow> w' AND FPU_CSR_MODES = w AND FPU_CSR_MODES \<and> w AND FPU_CSR_ALL_S AND NOT w' = 0"

lemma csr_flags_mask: "(FPU_CSR_FLAGS :: u32) = push_bit 12 (mask 6) OR push_bit 2 (mask 5)"
  by (simp add: mask_numeral)

lemma flag_bits_mask: "flag_bits k AND NOT FPU_CSR_FLAGS = 0"
  unfolding csr_flags_mask flag_bits_def by (rule bit_word_eqI) (auto simp: bit_simps dest: bit_imp_le_length)

lemma csr_eqI:
  "csr_pad0 c = csr_pad0 d \<Longrightarrow> csr_nod c = csr_nod d \<Longrightarrow> csr_c c = csr_c d \<Longrightarrow> csr_pad1 c = csr_pad1 d \<Longrightarrow>
   csr_cx c = csr_cx d \<Longrightarrow> csr_mx c = csr_mx d \<Longrightarrow> csr_sx c = csr_sx d \<Longrightarrow> csr_rm c = csr_rm d \<Longrightarrow> c = (d :: ieee754_csr)"
  by (cases c, cases d) simp

lemma SETCX_csr: "csr_of_fcr31 (w OR flag_bits k) = SETCX k (csr_of_fcr31 w)"
proof -
  have k: "bit k n \<Longrightarrow> n < 5" for n using bit_imp_le_length [of k n] by simp
  show ?thesis unfolding csr_of_fcr31_def SETCX_def flag_bits_def ieee754_csr.simps
    by (rule csr_eqI; simp only: ieee754_csr.simps; rule bit_word_eqI) (auto simp: bit_simps dest!: k)
qed

lemma CLEARCX_csr: "csr_of_fcr31 (w AND NOT FPU_CSR_ALL_X) = CLEARCX (csr_of_fcr31 w)"
  unfolding csr_of_fcr31_def CLEARCX_def csr_all_x ieee754_csr.simps
  by (rule csr_eqI; simp only: ieee754_csr.simps; rule bit_word_eqI) (auto simp: bit_simps)

lemma SETCX_word: "fcr31_of_csr (SETCX k c) = fcr31_of_csr c OR flag_bits k"
  using SETCX_csr [of "fcr31_of_csr c" k] by (metis csr_of_fcr31_inverse fcr31_of_csr_inverse)

lemma CLEARCX_word: "fcr31_of_csr (CLEARCX c) = fcr31_of_csr c AND NOT FPU_CSR_ALL_X"
  using CLEARCX_csr [of "fcr31_of_csr c"] by (metis csr_of_fcr31_inverse fcr31_of_csr_inverse)

lemma lib_step_word:
  assumes "lib_step (csr_of_fcr31 w) d"
  obtains a where "a AND NOT FPU_CSR_FLAGS = 0" and "fcr31_of_csr d = (w AND NOT FPU_CSR_ALL_X) OR a"
proof -
  obtain a k where d: "d = SETCX k (CLEARCX (SETCX a (csr_of_fcr31 w)))" using assms unfolding lib_step_def by blast
  show thesis
  proof (rule that)
    show "(flag_bits a AND NOT FPU_CSR_ALL_X OR flag_bits k) AND NOT FPU_CSR_FLAGS = 0"
      using flag_bits_mask [of a] flag_bits_mask [of k] by (simp add: bit.conj_disj_distrib2 and.assoc and.left_commute)
    show "fcr31_of_csr d = (w AND NOT FPU_CSR_ALL_X) OR (flag_bits a AND NOT FPU_CSR_ALL_X OR flag_bits k)"
      unfolding d SETCX_word CLEARCX_word fcr31_of_csr_inverse by (simp only: bit.conj_disj_distrib2 or.assoc)
  qed
qed

lemma bit_and_not_self: "w AND m AND NOT w = (0 :: 'a :: len word)"
  by (rule bit_word_eqI) (auto simp: bit_simps)

lemma grows_refl: "csr_grows w w"
  by (simp add: csr_grows_def and.assoc bit_and_not_self)

lemma csr_mask_split: "FPU_CSR_ALL_X AND FPU_CSR_MODES = 0" "FPU_CSR_FLAGS AND FPU_CSR_MODES = 0" "FPU_CSR_ALL_X AND FPU_CSR_ALL_S = 0"
  by simp_all

text \<open>Bits outside two masks that do not meet.\<close>

lemma mask_keeps:
  fixes w :: "'a::len word"
  assumes "a AND NOT f = 0" and "x AND m = 0" and "f AND m = 0"
  shows "((w AND NOT x) OR a) AND m = w AND m"
proof (rule bit_word_eqI)
  fix n assume n: "n < LENGTH('a)"
  have z: "bit (a AND NOT f) n = bit (0 :: 'a word) n" "bit (x AND m) n = bit (0 :: 'a word) n" "bit (f AND m) n = bit (0 :: 'a word) n"
    by (simp_all only: assms)
  show "bit (((w AND NOT x) OR a) AND m) n = bit (w AND m) n" using z n by (auto simp: bit_simps)
qed

lemma mask_grows:
  fixes w :: "'a::len word"
  assumes "x AND m = 0"
  shows "w AND m AND NOT ((w AND NOT x) OR a) = 0"
proof (rule bit_word_eqI)
  fix n assume n: "n < LENGTH('a)"
  have "bit (x AND m) n = bit (0 :: 'a word) n" by (simp only: assms)
  then show "bit (w AND m AND NOT ((w AND NOT x) OR a)) n = bit 0 n" using n by (auto simp: bit_simps)
qed

lemma grows_flags: "a AND NOT FPU_CSR_FLAGS = 0 \<Longrightarrow> csr_grows w ((w AND NOT FPU_CSR_ALL_X) OR a)"
  unfolding csr_grows_def using mask_keeps [OF _ csr_mask_split(1,2)] mask_grows [OF csr_mask_split(3)] by blast

lemma grows_trans: "csr_grows u w" if "csr_grows u v" and "csr_grows v w"
proof -
  have "u AND FPU_CSR_ALL_S AND NOT w = 0"
  proof (rule bit_word_eqI)
    fix n assume n: "n < LENGTH(32)"
    have "bit (u AND FPU_CSR_ALL_S AND NOT v) n = bit (0 :: u32) n" "bit (v AND FPU_CSR_ALL_S AND NOT w) n = bit (0 :: u32) n"
      using that unfolding csr_grows_def by simp_all
    then show "bit (u AND FPU_CSR_ALL_S AND NOT w) n = bit 0 n" using n unfolding bit_and_iff bit_not_iff_eq by auto
  qed
  then show ?thesis using that unfolding csr_grows_def by simp
qed

lemma grows_cond:
  assumes "c AND FPU_CSR_MODES = 0" and "c AND FPU_CSR_ALL_S = 0"
  shows "csr_grows w (w OR c)" and "csr_grows w (w AND NOT c)"
  using mask_keeps [of c c 0 FPU_CSR_MODES w] mask_grows [of 0 FPU_CSR_ALL_S w c] mask_keeps [of 0 0 c FPU_CSR_MODES w]
    mask_grows [of c FPU_CSR_ALL_S w 0] assms by (simp_all add: csr_grows_def)

lemma condbit_masks: "fpucondbit ! unat (drop_bit 2 (t :: 5 word)) AND FPU_CSR_MODES = 0 \<and> fpucondbit ! unat (drop_bit 2 t) AND FPU_CSR_ALL_S = 0"
proof -
  have "unat t < 32" using unsigned_less [of t, where ?'a = nat] by simp
  then have "unat (drop_bit 2 t) < 8" by (simp add: unat_drop_bit)
  then have "unat (drop_bit 2 t) \<in> {0, 1, 2, 3, 4, 5, 6, 7}" by auto
  then show ?thesis by (auto simp: fpucondbit_def)
qed

section \<open>Frame and invariant of an arithmetic instruction\<close>

text \<open>
  The single and the double registers an instruction may change: in the 32 bit register mode a double register is a pair of
  single registers, and a number names the pair it is in.
\<close>

definition dest_singles :: "bool \<Rightarrow> fp_dest \<Rightarrow> 5 word \<Rightarrow> 5 word set" where
  "dest_singles fr k d = (case k of To_cond \<Rightarrow> {} | To_single \<Rightarrow> {d} | To_double \<Rightarrow> if fr then {d} else {r. r AND NOT 1 = d AND NOT 1})"

definition dest_doubles :: "bool \<Rightarrow> fp_dest \<Rightarrow> 5 word \<Rightarrow> 5 word set" where
  "dest_doubles fr k d = (if k = To_cond then {} else if fr then {d} else {r. r AND NOT 1 = d AND NOT 1})"

definition fp_frame :: "fp_dest \<Rightarrow> 5 word \<Rightarrow> ('m, 'z) emu_scheme \<Rightarrow> ('m, 'z) emu_scheme \<Rightarrow> bool" where
  "fp_frame k d s s' \<longleftrightarrow>
     (\<forall>r. r \<notin> dest_singles (FR s) k d \<longrightarrow> SIFROMREG s' r = SIFROMREG s r) \<and>
     (\<forall>r. r \<notin> dest_doubles (FR s) k d \<longrightarrow> DIFROMREG s' r = DIFROMREG s r)"

lemma pair_eq: "bit r 0 = bit d 0 \<Longrightarrow> r AND NOT 1 = d AND NOT 1 \<Longrightarrow> r = (d :: 5 word)"
proof (rule bit_word_eqI)
  fix n assume "bit r 0 = bit d 0" "r AND NOT 1 = d AND NOT 1" "n < LENGTH(5)"
  then have "bit (r AND NOT 1) n = bit (d AND NOT 1) n" "bit r 0 = bit d 0" "n < LENGTH(5)" by simp_all
  then show "bit r n = bit d n" by (cases n) (simp_all only: bit_and_iff bit_not_iff bit_1_iff, auto)
qed

lemma odd_reg: "(x :: 5 word) AND 1 = 0 \<longleftrightarrow> \<not> bit x 0" "\<not> bit x 0 \<Longrightarrow> x AND NOT 1 = x"
proof -
  show "x AND 1 = 0 \<longleftrightarrow> \<not> bit x 0" by (simp add: and_one_eq mod_2_eq_odd bit_0)
  show "\<not> bit x 0 \<Longrightarrow> x AND NOT 1 = x"
  proof (rule bit_word_eqI)
    fix n assume "\<not> bit x 0" "n < LENGTH(5)"
    then show "bit (x AND NOT 1) n = bit x n" by (cases n) (simp_all add: bit_simps)
  qed
qed

lemma half_kept:
  fixes w :: u64 and v :: u32
  shows "(ucast (drop_bit 32 (push_bit 32 w) OR push_bit 32 (ucast v)) :: u32) = ucast w"
    and "(ucast (drop_bit 32 (push_bit 32 (drop_bit 32 w) OR ucast v)) :: u32) = ucast (drop_bit 32 w)"
  by (rule bit_word_eqI, simp add: bit_simps)+ (auto dest: bit_imp_le_length)

lemma SITOREG_sibling:
  assumes "r \<noteq> d"
  shows "SIFROMREG (SITOREG v d s) r = SIFROMREG s r"
proof (cases "FR s \<or> r AND NOT 1 \<noteq> d AND NOT 1")
  case True
  then show ?thesis using assms odd_reg [of r] by (auto simp: SIFROMREG_def SITOREG_def FR_def)
next
  case False
  then have "bit r 0 \<noteq> bit d 0" using assms pair_eq by blast
  then show ?thesis using False odd_reg [of r] odd_reg [of d] half_kept by (auto simp: SIFROMREG_def SITOREG_def FR_def)
qed

lemma SITOREG_frame: "fp_frame To_single d s (SITOREG v d s)"
  by (auto simp: fp_frame_def dest_singles_def dest_doubles_def SITOREG_sibling) (auto simp: SITOREG_def DIFROMREG_def FR_def split: if_splits)

lemma DITOREG_frame: "fp_frame To_double d s (DITOREG v d s)"
proof -
  have "r AND NOT 1 \<noteq> d AND NOT 1 \<Longrightarrow> r AND 1 = 0 \<Longrightarrow> r \<noteq> d AND NOT 1" for r using odd_reg [of r] by auto
  then show ?thesis by (auto simp: fp_frame_def dest_singles_def dest_doubles_def DITOREG_def SIFROMREG_def DIFROMREG_def FR_def)
qed

lemma fp_frame_same: "fp_frame k d s (s\<lparr>fcr31 := w\<rparr>)" "fp_frame k d s s"
  by (simp_all add: fp_frame_def SIFROMREG_def DIFROMREG_def FR_def)

lemma fp_frame_cong:
  assumes "fp_frame k d s (s\<lparr>fpr := f\<rparr>)" and "fpr t = fpr s" and "cp0_status t = cp0_status s"
  shows "fp_frame k d t (t\<lparr>fpr := f, fcr31 := w\<rparr>)"
proof -
  have "SIFROMREG (t\<lparr>fpr := f, fcr31 := w\<rparr>) = SIFROMREG (s\<lparr>fpr := f\<rparr>)" "SIFROMREG t = SIFROMREG s" "FR t = FR s"
    "DIFROMREG (t\<lparr>fpr := f, fcr31 := w\<rparr>) = DIFROMREG (s\<lparr>fpr := f\<rparr>)" "DIFROMREG t = DIFROMREG s"
    using assms(2,3) by (auto simp: SIFROMREG_def DIFROMREG_def FR_def fun_eq_iff)
  then show ?thesis using assms(1) unfolding fp_frame_def by simp
qed

lemma SITOREG_simps: "\<exists>f. SITOREG v x s = s\<lparr>fpr := f\<rparr>" and DITOREG_simps: "\<exists>f. DITOREG d x s = s\<lparr>fpr := f\<rparr>"
  by (auto simp: SITOREG_def DITOREG_def)

lemma writeback_frame:
  obtains w f where "fpu_writeback ir rv s = s\<lparr>fpr := f, fcr31 := w\<rparr>" and "csr_grows (fcr31 s) w"
    and "fp_frame (value_dest rv) (MIPSInst_FD ir) s (s\<lparr>fpr := f\<rparr>)"
proof (cases rv)
  case (Cmp b)
  show thesis
  proof (rule that [of "if b then fcr31 s OR fpucondbit ! unat (drop_bit 2 (MIPSInst_FD ir))
      else fcr31 s AND NOT (fpucondbit ! unat (drop_bit 2 (MIPSInst_FD ir)))" "fpr s"])
  qed (use condbit_masks [of "MIPSInst_FD ir"] grows_cond in \<open>simp_all add: fpu_writeback_def Cmp fp_frame_same\<close>)
next
  case (S_val x)
  show thesis using SITOREG_simps [of x "MIPSInst_FD ir" s] SITOREG_frame [of "MIPSInst_FD ir" s x] that [of "fcr31 s"] grows_refl
    by (auto simp: fpu_writeback_def S_val)
next
  case (W_val x)
  show thesis using SITOREG_simps [of x "MIPSInst_FD ir" s] SITOREG_frame [of "MIPSInst_FD ir" s x] that [of "fcr31 s"] grows_refl
    by (auto simp: fpu_writeback_def W_val)
next
  case (D_val x)
  show thesis using DITOREG_simps [of x "MIPSInst_FD ir" s] DITOREG_frame [of "MIPSInst_FD ir" s x] that [of "fcr31 s"] grows_refl
    by (auto simp: fpu_writeback_def D_val)
qed

lemma csr_only_word:
  assumes "csr_only s s'"
  obtains w where "s' = s\<lparr>fcr31 := w\<rparr>" and "csr_grows (fcr31 s) w"
proof -
  obtain d where d: "lib_step (csr_of_fcr31 (fcr31 s)) d" "s' = s\<lparr>fcr31 := fcr31_of_csr d\<rparr>" using assms unfolding csr_only_def by blast
  then show thesis using lib_step_word [OF d(1)] grows_flags that by metis
qed

lemma fpu_emu_effect:
  assumes "fpu_emu ir s = (s', sig)"
  obtains w f where "s' = s\<lparr>cp1ops := cp1ops s + 1, fpr := f, fcr31 := w\<rparr>" and "csr_grows (fcr31 s) w" and "sig \<in> {0, SIGFPE, SIGILL}"
    and "sig \<noteq> 0 \<Longrightarrow> f = fpr s" and "sig = SIGILL \<Longrightarrow> w = fcr31 s"
    and "fp_frame (fp_dest_of ir) (MIPSInst_FD ir) s (s\<lparr>fpr := f\<rparr>)"
proof -
  let ?s = "s\<lparr>cp1ops := cp1ops s + 1\<rparr>"
  have same: "fp_frame k d s (s\<lparr>fpr := fpr s\<rparr>)" for k d by (simp add: fp_frame_same)
  obtain s1 out where e: "fpu_emu ir s = fpu_end ir out s1" "csr_safe ?s (s1, out)" "fits_dest ir out" by (rule fpu_emu_end)
  have s1: "\<exists>w. s1 = ?s\<lparr>fcr31 := w\<rparr> \<and> csr_grows (fcr31 s) w"
  proof (cases "s1 = ?s")
    case False
    then have "csr_only ?s s1" using e(2) by (simp add: csr_safe_def)
    then show ?thesis by (rule csr_only_word) auto
  qed (auto intro: exI [of _ "fcr31 s"] grows_refl)
  show thesis
  proof (cases out)
    case (Return k)
    then have "s1 = ?s" "k = 0 \<or> k = SIGILL" using e(2) by (auto simp: csr_safe_def rcsr_ok_def)
    moreover have "s' = s1" "sig = k" using assms e(1) Return by (simp_all add: fpu_end_def)
    ultimately show thesis using that [of "fcr31 s" "fpr s"] grows_refl [of "fcr31 s"] same by auto
  next
    case (Result rcsr rv)
    obtain w where w: "s1 = ?s\<lparr>fcr31 := w\<rparr>" "csr_grows (fcr31 s) w" using s1 by blast
    define w1 where "w1 = (w AND NOT FPU_CSR_ALL_X) OR rcsr"
    have "csr_grows w w1" unfolding w1_def using e(2) Result by (intro grows_flags) (simp add: csr_safe_def rcsr_ok_def)
    with w(2) have g: "csr_grows (fcr31 s) w1" by (rule grows_trans)
    have p: "put_rcsr rcsr s1 = ?s\<lparr>fcr31 := w1\<rparr>" by (simp add: put_rcsr_def w(1) w1_def)
    show thesis
    proof (cases "csr_traps (?s\<lparr>fcr31 := w1\<rparr>)")
      case True
      then show thesis using that [of w1 "fpr s"] assms e(1) g p Result same by (simp add: fpu_end_def)
    next
      case False
      let ?t = "?s\<lparr>fcr31 := w1\<rparr>"
      obtain w2 f where f: "fpu_writeback ir rv ?t = ?t\<lparr>fpr := f, fcr31 := w2\<rparr>" "csr_grows w1 w2"
        "fp_frame (value_dest rv) (MIPSInst_FD ir) ?t (?t\<lparr>fpr := f\<rparr>)"
        using writeback_frame [of ir rv ?t] by auto
      have "fp_frame (fp_dest_of ir) (MIPSInst_FD ir) s (s\<lparr>fpr := f\<rparr>)"
        using fp_frame_cong [OF f(3), of s "fcr31 s"] e(3) Result by (simp add: fits_dest_def)
      then show thesis using that [of w2 f] assms e(1) False f p Result grows_trans [OF g f(2)] by (simp add: fpu_end_def)
    qed
  qed
qed

section \<open>Properties\<close>

text \<open>
  C12. An arithmetic instruction changes nothing beside its destination register, the control
  register and the operation count: general registers, program counter, cause and status and user memory are as before, and so
  is every other floating point register. A single or word result leaves every other single register, the second half
  of its own pair in the 32 bit mode included; a double result leaves all but the pair (or the register, in the 64 bit mode) it
  names; a comparison leaves all of them. When the instruction ends in a signal (SIGFPE or SIGILL) no floating
  point register is written, and an instruction that is illegal leaves the control register alone too. What is single and what
  double is decided by the instruction set (\<open>fp_dest_of\<close>), not by the code.
\<close>

theorem fpu_emu_frame:
  assumes "fpu_emu ir s = (s', sig)"
  shows "s' = s\<lparr>cp1ops := cp1ops s + 1, fpr := fpr s', fcr31 := fcr31 s'\<rparr> \<and> sig \<in> {0, SIGFPE, SIGILL} \<and>
    (sig \<noteq> 0 \<longrightarrow> fpr s' = fpr s) \<and> (sig = SIGILL \<longrightarrow> fcr31 s' = fcr31 s) \<and>
    (\<forall>r. r \<notin> dest_singles (FR s) (fp_dest_of ir) (MIPSInst_FD ir) \<longrightarrow> SIFROMREG s' r = SIFROMREG s r) \<and>
    (\<forall>r. r \<notin> dest_doubles (FR s) (fp_dest_of ir) (MIPSInst_FD ir) \<longrightarrow> DIFROMREG s' r = DIFROMREG s r)"
proof (rule fpu_emu_effect [OF assms])
  fix w f
  assume s': "s' = s\<lparr>cp1ops := cp1ops s + 1, fpr := f, fcr31 := w\<rparr>" and "sig \<in> {0, SIGFPE, SIGILL}" "sig \<noteq> 0 \<Longrightarrow> f = fpr s" "sig = SIGILL \<Longrightarrow> w = fcr31 s"
    and "fp_frame (fp_dest_of ir) (MIPSInst_FD ir) s (s\<lparr>fpr := f\<rparr>)"
  moreover have "SIFROMREG s' r = SIFROMREG (s\<lparr>fpr := f\<rparr>) r" "DIFROMREG s' r = DIFROMREG (s\<lparr>fpr := f\<rparr>) r" for r
    by (simp_all add: s' SIFROMREG_def DIFROMREG_def FR_def)
  ultimately show ?thesis unfolding fp_frame_def by simp
qed

theorem fpu_emu_frame_witness:
  "snd (fpu_emu 0x46041080 ((start 0 Map.empty)\<lparr>fpr := (\<lambda>r. 0)(2 := 0x400000003f800000, 4 := 0x3f800000)\<rparr>)) = 0 \<and>
   SIFROMREG (fst (fpu_emu 0x46041080 ((start 0 Map.empty)\<lparr>fpr := (\<lambda>r. 0)(2 := 0x400000003f800000, 4 := 0x3f800000)\<rparr>))) 3 = 0x40000000"
proof -
  let ?s = "(start 0 Map.empty)\<lparr>fpr := (\<lambda>r. 0)(2 := 0x400000003f800000, 4 := 0x3f800000)\<rparr>"
  have "snd (fpu_emu 0x46041080 ?s) = 0" "3 \<notin> dest_singles (FR ?s) (fp_dest_of 0x46041080) (MIPSInst_FD 0x46041080)"
    "SIFROMREG ?s 3 = 0x40000000" by code_simp+
  then show ?thesis using fpu_emu_frame [OF prod.collapse [symmetric], of "0x46041080" ?s] by simp
qed

text \<open>
  C13. Every arithmetic instruction keeps the rounding mode, the exception enables and the flush bit of the
  control register, and never clears a sticky flag.
\<close>

theorem fpu_emu_csr:
  assumes "fpu_emu ir s = (s', sig)"
  shows "fcr31 s' AND (FPU_CSR_FLUSH OR FPU_CSR_ALL_E OR 0x3) = fcr31 s AND (FPU_CSR_FLUSH OR FPU_CSR_ALL_E OR 0x3) \<and>
    fcr31 s AND FPU_CSR_ALL_S AND NOT (fcr31 s') = 0"
proof (rule fpu_emu_effect [OF assms])
  fix w f assume "s' = s\<lparr>cp1ops := cp1ops s + 1, fpr := f, fcr31 := w\<rparr>" "csr_grows (fcr31 s) w"
  then show ?thesis by (simp add: csr_grows_def)
qed

theorem fpu_emu_csr_witness:
  "fcr31 (fst (fpu_emu 0x46041003 ((start 0 Map.empty)\<lparr>fcr31 := 0x406\<rparr>))) AND 0x1000f83 = 0x402"
  using fpu_emu_csr [OF prod.collapse [symmetric], of "0x46041003" "(start 0 Map.empty)\<lparr>fcr31 := 0x406\<rparr>"] by simp

end
