(* ===== verification/Kernel_Linkage.thy ===== *)
theory Kernel_Linkage
  imports Cp1emu
begin

text \<open>
  The emulator's context routines (\<^verbatim>\<open>arch/mips/math-emu/kernel_linkage.c\<close>): a fresh context, and the
  copies to and from the \<^verbatim>\<open>struct sigcontext\<close> of a signal handler, which lies in user memory at \<open>sc\<close>.
\<close>

section \<open>The code\<close>

abbreviation (input) SIGNALLING_NAN :: u64 where "SIGNALLING_NAN \<equiv> 0x7ff800007ff80000"

text \<open>The register loop of \<^verbatim>\<open>fpu_emulator_init_fpu\<close>; the message it prints once is left out.\<close>

definition fpu_emulator_init_fpu :: "'m emu \<Rightarrow> 'm emu" where
  "fpu_emulator_init_fpu s = s\<lparr>fcr31 := 0, fpr := fold (\<lambda>i f. f(of_nat i := SIGNALLING_NAN)) [0..<32] (fpr s)\<rparr>"

definition sc_fpregs :: "u32 \<Rightarrow> nat \<Rightarrow> u32" where
  "sc_fpregs sc i = sc + 272 + 8 * of_nat i"

definition sc_fpc_csr :: "u32 \<Rightarrow> u32" where
  "sc_fpc_csr sc = sc + 532"

text \<open>\<^verbatim>\<open>err |= __put_user(v, a)\<close> for a member of 64 bits.\<close>

definition or_put64 :: "'m user_ops \<Rightarrow> u32 \<Rightarrow> u64 \<Rightarrow> 'm \<times> bool \<Rightarrow> 'm \<times> bool" where
  "or_put64 U a v = (\<lambda>(m, err). case ustore64 U m a v of (m', ok) \<Rightarrow> (m', err \<or> \<not> ok))"

definition save_fpr :: "'m user_ops \<Rightarrow> u32 \<Rightarrow> (5 word \<Rightarrow> u64) \<Rightarrow> nat \<Rightarrow> 'm \<times> bool \<Rightarrow> 'm \<times> bool" where
  "save_fpr U sc f i = or_put64 U (sc_fpregs sc i) (f (of_nat i))"

definition save_fprs :: "'m user_ops \<Rightarrow> u32 \<Rightarrow> (5 word \<Rightarrow> u64) \<Rightarrow> 'm \<Rightarrow> 'm \<times> bool" where
  "save_fprs U sc f m = fold (save_fpr U sc f) [0..<32] (m, False)"

definition fpu_emulator_save_context :: "'m user_ops \<Rightarrow> u32 \<Rightarrow> 'm emu \<Rightarrow> 'm emu \<times> int" where
  "fpu_emulator_save_context U sc s =
     (let (m, err) = or_put U (sc_fpc_csr sc) (fcr31 s) (save_fprs U sc (fpr s) (umem s))
      in (s\<lparr>umem := m\<rparr>, if err then - EFAULT else 0))"

text \<open>
  A 64 bit access that faults delivers zero. One of 32 bits leaves its variable to the content of a register,
  the parameter \<open>junk\<close>.
\<close>

definition restore_fpr :: "'m user_ops \<Rightarrow> u32 \<Rightarrow> 'm \<Rightarrow> nat \<Rightarrow> (5 word \<Rightarrow> u64) \<times> bool \<Rightarrow> (5 word \<Rightarrow> u64) \<times> bool" where
  "restore_fpr U sc m i = (\<lambda>(f, err). case uload64 U m (sc_fpregs sc i) of
     None \<Rightarrow> (f(of_nat i := 0), True) | Some v \<Rightarrow> (f(of_nat i := v), err))"

definition restore_fprs :: "'m user_ops \<Rightarrow> u32 \<Rightarrow> 'm \<Rightarrow> (5 word \<Rightarrow> u64) \<Rightarrow> (5 word \<Rightarrow> u64) \<times> bool" where
  "restore_fprs U sc m f = fold (restore_fpr U sc m) [0..<32] (f, False)"

definition fpu_emulator_restore_context :: "'m user_ops \<Rightarrow> u32 \<Rightarrow> u32 \<Rightarrow> 'm emu \<Rightarrow> 'm emu \<times> int" where
  "fpu_emulator_restore_context U junk sc s =
     (let (f, err) = restore_fprs U sc (umem s) (fpr s);
          s = s\<lparr>fpr := f\<rparr>
      in case uload U (umem s) (sc_fpc_csr sc) of
           None \<Rightarrow> (s\<lparr>fcr31 := junk\<rparr>, - EFAULT)
         | Some v \<Rightarrow> (s\<lparr>fcr31 := v\<rparr>, if err then - EFAULT else 0))"

section \<open>Saving and restoring\<close>

lemma reg_index: "\<exists>i<32. r = (of_nat i :: 5 word)"
proof (intro exI conjI)
  show "unat r < 32" using unsigned_less [of r] by simp
  show "r = of_nat (unat r)" by (simp add: of_nat_unat)
qed

lemma apart_offset: "4 \<le> d \<Longrightarrow> 4 \<le> - d \<Longrightarrow> apart (x + d) x \<and> apart x (x + d)"
  by (simp add: apart_def)

lemma offset_apart: "apart (sc + of_nat a) (sc + of_nat b)" if "a + 4 \<le> b \<or> b + 4 \<le> a" and "a < 1000" and "b < 1000"
proof -
  have less: "4 \<le> (of_nat (j + 4) :: u32) \<and> 4 \<le> - (of_nat (j + 4) :: u32)" if "j < 1000" for j
  proof -
    have u: "uint (of_nat (j + 4) :: u32) = int j + 4" using that by (simp only: uint_nat unat_of_nat) (simp add: take_bit_nat_eq_self)
    then have "uint (- (of_nat (j + 4) :: u32)) = 2 ^ 32 - (int j + 4)"
      using that mod_add_self1 [of "2 ^ 32" "- int j - 4"] by (simp only: uint_word_ariths u) simp
    then show ?thesis using u that by (simp add: word_le_def del: of_nat_add)
  qed
  from that consider "b = a + ((b - a - 4) + 4)" "b - a - 4 < 1000" | "a = b + ((a - b - 4) + 4)" "a - b - 4 < 1000" by linarith
  then show ?thesis
  proof cases
    case 1
    have "sc + of_nat b = (sc + of_nat a) + of_nat ((b - a - 4) + 4)" using 1(1) by (metis of_nat_add add.assoc)
    then show ?thesis using apart_offset [of "of_nat ((b - a - 4) + 4)"] less [OF 1(2)] by metis
  next
    case 2
    have "sc + of_nat a = (sc + of_nat b) + of_nat ((a - b - 4) + 4)" using 2(1) by (metis of_nat_add add.assoc)
    then show ?thesis using apart_offset [of "of_nat ((a - b - 4) + 4)"] less [OF 2(2)] by metis
  qed
qed

lemma slot_addr: "sc_fpregs sc i = sc + of_nat (272 + 8 * i)" "sc_fpregs sc i + 4 = sc + of_nat (276 + 8 * i)" "sc_fpc_csr sc = sc + of_nat 532"
  by (simp_all add: sc_fpregs_def sc_fpc_csr_def algebra_simps)

lemma slot_apart:
  assumes "i < 32" and "j < 32"
  shows "i \<noteq> j \<Longrightarrow> apart (sc_fpregs sc i) (sc_fpregs sc j)" "i \<noteq> j \<Longrightarrow> apart (sc_fpregs sc i + 4) (sc_fpregs sc j + 4)"
    "apart (sc_fpregs sc i) (sc_fpregs sc j + 4)" "apart (sc_fpregs sc i) (sc_fpc_csr sc)" "apart (sc_fpregs sc i + 4) (sc_fpc_csr sc)"
  unfolding slot_addr(2,3) unfolding slot_addr(1) using assms by - (rule offset_apart; presburger)+

context user_memory
begin

lemma load64_same:
  assumes "ustore64 U m a v = (m', True)"
  shows "uload64 U m' a = Some v"
proof -
  obtain m1 where m1: "ustore U m a (ucast (drop_bit 32 v)) = Some m1" "ustore U m1 (a + 4) (ucast v) = Some m'"
    using assms by (auto simp: ustore64_def split: option.splits)
  then have "uload U m' a = Some (ucast (drop_bit 32 v))" using load_other [OF m1(2), of a] load_same [OF m1(1)] by simp
  then show ?thesis using load_same [OF m1(2)] by (simp add: uload64_def join_split64)
qed

lemma store64_keeps:
  assumes "ustore64 U m a v = (m', True)" and "uload U m b \<noteq> None" and "apart a b" and "apart (a + 4) b"
  shows "uload U m' b = uload U m b"
proof -
  obtain m1 where m1: "ustore U m a (ucast (drop_bit 32 v)) = Some m1" "ustore U m1 (a + 4) (ucast v) = Some m'"
    using assms(1) by (auto simp: ustore64_def split: option.splits)
  have "uload U m1 b = uload U m b" using load_other [OF m1(1) assms(2)] assms(3) by simp
  then show ?thesis using load_other [OF m1(2), of b] assms(2,4) by simp
qed

lemma save_loop:
  assumes "n \<le> 32" and "fold (save_fpr U sc f) [0..<n] (m, False) = (m', False)" and "i < n"
  shows "uload64 U m' (sc_fpregs sc i) = Some (f (of_nat i))"
  using assms
proof (induction n arbitrary: m')
  case (Suc n)
  obtain m1 where m1: "fold (save_fpr U sc f) [0..<n] (m, False) = (m1, False)" "ustore64 U m1 (sc_fpregs sc n) (f (of_nat n)) = (m', True)"
    using Suc.prems(2) by (cases "fold (save_fpr U sc f) [0..<n] (m, False)") (auto simp: save_fpr_def [of U sc f n] or_put64_def split: prod.splits)
  show ?case
  proof (cases "i = n")
    case True
    then show ?thesis using load64_same [OF m1(2)] by simp
  next
    case False
    then have ih: "uload64 U m1 (sc_fpregs sc i) = Some (f (of_nat i))" using Suc.IH [OF _ m1(1)] Suc.prems by simp
    have i: "i < 32" "n < 32" using Suc.prems by simp_all
    have "uload U m1 (sc_fpregs sc i) \<noteq> None" "uload U m1 (sc_fpregs sc i + 4) \<noteq> None"
      using ih by (auto simp: uload64_def split: option.splits)
    then have "uload U m' (sc_fpregs sc i) = uload U m1 (sc_fpregs sc i)" "uload U m' (sc_fpregs sc i + 4) = uload U m1 (sc_fpregs sc i + 4)"
      using slot_apart [OF i(2,1), of sc] slot_apart(3) [OF i, of sc, THEN apart_sym] False by (simp_all add: store64_keeps [OF m1(2)])
    then show ?thesis using ih by (simp add: uload64_def)
  qed
qed simp

lemma restore_loop:
  assumes "n \<le> 32" and "\<And>i. i < n \<Longrightarrow> uload64 U m (sc_fpregs sc i) = Some (g (of_nat i))"
  shows "fold (restore_fpr U sc m) [0..<n] (f, False) = (\<lambda>r. if unat r < n then g r else f r, False)"
  using assms
proof (induction n)
  case (Suc n)
  have n: "unat (of_nat n :: 5 word) = n" using Suc.prems(1) by (simp add: unat_of_nat take_bit_nat_eq_self)
  have "((\<lambda>r. if unat r < n then g r else f r)(of_nat n := g (of_nat n))) x = (if unat x < Suc n then g x else f x)" for x
  proof (cases "x = of_nat n")
    case False
    then have "unat x \<noteq> n" using n by (metis word_unat_eq_iff)
    then show ?thesis using False by auto
  qed (simp add: n)
  then have "(\<lambda>r. if unat r < n then g r else f r)(of_nat n := g (of_nat n)) = (\<lambda>r. if unat r < Suc n then g r else f r)" by (rule ext)
  then show ?case using Suc by (simp add: restore_fpr_def [of U sc m n])
qed simp

lemma save_restore:
  assumes "fpu_emulator_save_context U sc s = (s', 0)"
  shows "fpu_emulator_restore_context U junk sc (t\<lparr>umem := umem s'\<rparr>) = (t\<lparr>umem := umem s', fpr := fpr s, fcr31 := fcr31 s\<rparr>, 0)"
proof -
  obtain m1 where m1: "save_fprs U sc (fpr s) (umem s) = (m1, False)" "ustore U m1 (sc_fpc_csr sc) (fcr31 s) = Some (umem s')"
    using assms by (auto simp: fpu_emulator_save_context_def Let_def elim!: or_put_ok split: prod.splits if_splits)
  have "uload64 U (umem s') (sc_fpregs sc i) = Some (fpr s (of_nat i))" if "i < 32" for i
    using save_loop [OF order_refl m1(1) [unfolded save_fprs_def] that] slot_apart(4,5) [OF that that, of sc, THEN apart_sym] load_other [OF m1(2)]
    by (auto simp: uload64_def split: option.splits)
  then have "restore_fprs U sc (umem s') (fpr t) = (\<lambda>r. if unat r < 32 then fpr s r else fpr t r, False)"
    unfolding restore_fprs_def by (intro restore_loop) auto
  moreover have "unat (r :: 5 word) < 32" for r using unsigned_less [of r] by simp
  ultimately show ?thesis using load_same [OF m1(2)] by (simp add: fpu_emulator_restore_context_def)
qed

end

text \<open>
  C24. A signal handler gets the floating point context and gives it back: when \<^verbatim>\<open>fpu_emulator_save_context\<close> has written
  all registers and the control register to user memory without a fault, \<^verbatim>\<open>fpu_emulator_restore_context\<close> on that memory
  succeeds and restores every one of them, whatever the context was in between.
\<close>

theorem context_saved:
  assumes "user_memory U" and "fpu_emulator_save_context U sc s = (s', 0)"
  shows "fpu_emulator_restore_context U junk sc (t\<lparr>umem := umem s'\<rparr>) = (t\<lparr>umem := umem s', fpr := fpr s, fcr31 := fcr31 s\<rparr>, 0)"
  using assms by (rule user_memory.save_restore)

theorem context_saved_witness:
  "let sc = 0x7fff0000; m = (\<lambda>a. if a < 0x80000000 then Some 0 else None); s = (start 0 m)\<lparr>fpr := (\<lambda>r. ucast r), fcr31 := 0x1f\<rparr>;
      s' = fst (fpu_emulator_save_context word_ops sc s)
   in fpr (fst (fpu_emulator_restore_context word_ops 0 sc ((start 0 m)\<lparr>umem := umem s'\<rparr>))) 7 = 7"
proof -
  define m :: "u32 \<rightharpoonup> u32" where "m = (\<lambda>a. if a < 0x80000000 then Some 0 else None)"
  define s where "s = (start 0 m)\<lparr>fpr := (\<lambda>r. ucast r), fcr31 := 0x1f\<rparr>"
  have e: "fpu_emulator_save_context word_ops 0x7fff0000 s = (fst (fpu_emulator_save_context word_ops 0x7fff0000 s), 0)"
    by (rule pair_snd, unfold s_def m_def) code_simp
  show ?thesis using context_saved [OF wm.user_memory_axioms e, of 0 "start 0 m"] unfolding Let_def m_def [symmetric] s_def [symmetric] by (simp add: s_def)
qed

section \<open>A fresh context\<close>

lemma init_loop: "n \<le> 32 \<Longrightarrow> unat r < n \<Longrightarrow> fold (\<lambda>i f. f(of_nat i := v)) [0..<n] f (r :: 5 word) = v"
proof (induction n)
  case (Suc n)
  show ?case
  proof (cases "r = of_nat n")
    case False
    then have "unat r \<noteq> n" using of_nat_unat [of r, where ?'a = "5 word"] by (metis ucast_id)
    then show ?thesis using Suc False by simp
  qed simp
qed simp

lemma init_fpr: "fpr (fpu_emulator_init_fpu s) = (\<lambda>r. SIGNALLING_NAN)"
proof (rule ext)
  fix r :: "5 word"
  have "unat r < 32" using unsigned_less [of r, where ?'a = nat] by simp
  then have "fold (\<lambda>i f. f(of_nat i := SIGNALLING_NAN)) [0..<32] (fpr s) r = SIGNALLING_NAN" by (intro init_loop) simp_all
  then show "fpr (fpu_emulator_init_fpu s) r = SIGNALLING_NAN" unfolding fpu_emulator_init_fpu_def by (simp del: fold_simps upt_rec_numeral)
qed

text \<open>
  C40. In a fresh context every floating point register holds a signalling NaN, read as a double and read as a
  single, in both register modes, and the control register is zero.
\<close>

theorem init_signalling:
  "ieee754dp_class (DPFROMREG (fpu_emulator_init_fpu s) r) = CLASS_SNAN \<and>
   ieee754sp_class (SPFROMREG (fpu_emulator_init_fpu s) r) = CLASS_SNAN \<and> fcr31 (fpu_emulator_init_fpu s) = 0"
proof -
  have "ieee754dp_class SIGNALLING_NAN = CLASS_SNAN" by code_simp
  moreover have "ieee754sp_class 0x7ff80000 = CLASS_SNAN" by code_simp
  moreover have "SPFROMREG (fpu_emulator_init_fpu s) r = 0x7ff80000"
    by (simp add: SIFROMREG_def init_fpr)
  moreover have "fcr31 (fpu_emulator_init_fpu s) = 0" by (simp add: fpu_emulator_init_fpu_def)
  ultimately show ?thesis by (simp add: DIFROMREG_def init_fpr)
qed

end
