(* ===== verification/Unaligned.thy ===== *)
theory Unaligned
  imports Dsemul
begin

text \<open>
  Address errors fixed in software (\<^verbatim>\<open>arch/mips/kernel/unaligned.c\<close>): the handler \<^verbatim>\<open>do_ade\<close> executes an unaligned load or
  store with the byte and part word instructions of the processor and goes on behind it; an address
  error of a delay slot frame ends the frame.
\<close>

section \<open>Instructions on parts of a word\<close>

text \<open>
  The inline assembly uses \<^verbatim>\<open>lbu\<close>, \<^verbatim>\<open>sb\<close> and the left and right part word instructions. Each accesses the aligned word
  around its address; on this big endian machine byte 0 of a word is the most significant one.
\<close>

definition byte_pos :: "u32 \<Rightarrow> nat" where
  "byte_pos a = 8 * unat (a AND 3)"

definition load_byte :: "'m user_ops \<Rightarrow> 'm \<Rightarrow> u32 \<Rightarrow> u8 option" where
  "load_byte U m a = map_option (\<lambda>w. ucast (drop_bit (24 - byte_pos a) w)) (uload U m (a AND NOT 3))"

definition update_word :: "'m user_ops \<Rightarrow> 'm \<Rightarrow> u32 \<Rightarrow> (u32 \<Rightarrow> u32) \<Rightarrow> 'm option" where
  "update_word U m a f = (case uload U m (a AND NOT 3) of None \<Rightarrow> None | Some w \<Rightarrow> ustore U m (a AND NOT 3) (f w))"

definition store_byte :: "'m user_ops \<Rightarrow> 'm \<Rightarrow> u32 \<Rightarrow> u8 \<Rightarrow> 'm option" where
  "store_byte U m a b = update_word U m a
     (\<lambda>w. (w AND NOT (push_bit (24 - byte_pos a) 0xff)) OR push_bit (24 - byte_pos a) (ucast b))"

definition insn_lwl :: "'m user_ops \<Rightarrow> 'm \<Rightarrow> u32 \<Rightarrow> u32 \<Rightarrow> u32 option" where
  "insn_lwl U m a r = map_option (\<lambda>w. push_bit (byte_pos a) w OR take_bit (byte_pos a) r) (uload U m (a AND NOT 3))"

definition insn_lwr :: "'m user_ops \<Rightarrow> 'm \<Rightarrow> u32 \<Rightarrow> u32 \<Rightarrow> u32 option" where
  "insn_lwr U m a r = map_option (\<lambda>w. drop_bit (24 - byte_pos a) w OR (r AND NOT (mask (byte_pos a + 8)))) (uload U m (a AND NOT 3))"

definition insn_swl :: "'m user_ops \<Rightarrow> 'm \<Rightarrow> u32 \<Rightarrow> u32 \<Rightarrow> 'm option" where
  "insn_swl U m a r = update_word U m a (\<lambda>w. drop_bit (byte_pos a) r OR (w AND NOT (mask (32 - byte_pos a))))"

definition insn_swr :: "'m user_ops \<Rightarrow> 'm \<Rightarrow> u32 \<Rightarrow> u32 \<Rightarrow> 'm option" where
  "insn_swr U m a r = update_word U m a (\<lambda>w. push_bit (24 - byte_pos a) r OR take_bit (24 - byte_pos a) w)"

section \<open>The code\<close>

abbreviation (input) ldl_op :: "6 word" where "ldl_op \<equiv> 0x1a"
abbreviation (input) ldr_op :: "6 word" where "ldr_op \<equiv> 0x1b"
abbreviation (input) lb_op :: "6 word" where "lb_op \<equiv> 0x20"
abbreviation (input) lh_op :: "6 word" where "lh_op \<equiv> 0x21"
abbreviation (input) lwl_op :: "6 word" where "lwl_op \<equiv> 0x22"
abbreviation (input) lw_op :: "6 word" where "lw_op \<equiv> 0x23"
abbreviation (input) lbu_op :: "6 word" where "lbu_op \<equiv> 0x24"
abbreviation (input) lhu_op :: "6 word" where "lhu_op \<equiv> 0x25"
abbreviation (input) lwr_op :: "6 word" where "lwr_op \<equiv> 0x26"
abbreviation (input) sb_op :: "6 word" where "sb_op \<equiv> 0x28"
abbreviation (input) sh_op :: "6 word" where "sh_op \<equiv> 0x29"
abbreviation (input) swl_op :: "6 word" where "swl_op \<equiv> 0x2a"
abbreviation (input) sw_op :: "6 word" where "sw_op \<equiv> 0x2b"
abbreviation (input) sdl_op :: "6 word" where "sdl_op \<equiv> 0x2c"
abbreviation (input) sdr_op :: "6 word" where "sdr_op \<equiv> 0x2d"
abbreviation (input) swr_op :: "6 word" where "swr_op \<equiv> 0x2e"
abbreviation (input) ll_op :: "6 word" where "ll_op \<equiv> 0x30"
abbreviation (input) lld_op :: "6 word" where "lld_op \<equiv> 0x34"
abbreviation (input) sc_op :: "6 word" where "sc_op \<equiv> 0x38"
abbreviation (input) scd_op :: "6 word" where "scd_op \<equiv> 0x3c"

abbreviation (input) MF_FIXADE :: u32 where "MF_FIXADE \<equiv> 1"
abbreviation (input) KERNEL_DS :: u32 where "KERNEL_DS \<equiv> 0"
abbreviation (input) USER_DS :: u32 where "USER_DS \<equiv> 0x80000000"

text \<open>
  The state of a trap: the process with its saved registers, the faulting address, the thread's flags, the signals sent with
  \<^verbatim>\<open>send_sig\<close> and the count of emulated instructions.
\<close>

record 'm trap =
  proc :: "'m emu"
  cp0_badvaddr :: u32
  mflags :: u32
  sent :: "int list"
  unaligned_instructions :: u32

text \<open>The trap of a process at address \<open>a\<close>, with the flags threads start with.\<close>

definition trap_start :: "u32 \<Rightarrow> 'm emu \<Rightarrow> 'm trap" where
  "trap_start a p = \<lparr>proc = p, cp0_badvaddr = a, mflags = MF_FIXADE, sent = [], unaligned_instructions = 0\<rparr>"

definition user_mode :: "'m emu \<Rightarrow> bool" where
  "user_mode s \<longleftrightarrow> cp0_status s AND 0x18 = 0x10"

text \<open>\<^verbatim>\<open>die\<close> does not return: the handlers deliver \<open>None\<close> then.\<close>

definition die_if_kernel :: "('m, 'z) trap_scheme \<Rightarrow> ('m, 'z) trap_scheme option" where
  "die_if_kernel s = (if user_mode (proc s) then Some s else None)"

definition send_sig :: "int \<Rightarrow> ('m, 'z) trap_scheme \<Rightarrow> ('m, 'z) trap_scheme" where
  "send_sig sig s = s\<lparr>sent := sig # sent s\<rparr>"

definition access_ok_seg :: "u32 \<Rightarrow> u32 \<Rightarrow> u32 \<Rightarrow> bool" where
  "access_ok_seg seg addr sz \<longleftrightarrow> seg AND (addr OR (addr + sz)) = 0"

text \<open>
  How the switch over the opcode is left: with a value for a register or without one, or at one of the three labels.
  A half word store that faults on its second byte has written the first.
\<close>

datatype ls_exit = Done "(5 word \<times> u32) option" | Label_fault | Label_sigbus | Label_sigill

definition load_half :: "'m user_ops \<Rightarrow> (u8 \<Rightarrow> u32) \<Rightarrow> 'm \<Rightarrow> u32 \<Rightarrow> u32 option" where
  "load_half U ext m a = (case load_byte U m a of
     None \<Rightarrow> None
   | Some h \<Rightarrow> (case load_byte U m (a + 1) of None \<Rightarrow> None | Some l \<Rightarrow> Some (push_bit 8 (ext h) OR ucast l)))"

definition load_word :: "'m user_ops \<Rightarrow> u32 \<Rightarrow> 'm \<Rightarrow> u32 \<Rightarrow> u32 option" where
  "load_word U junk m a = (case insn_lwl U m a junk of None \<Rightarrow> None | Some r \<Rightarrow> insn_lwr U m (a + 3) r)"

definition ls_load :: "5 word \<Rightarrow> u32 option \<Rightarrow> ls_exit" where
  "ls_load rt v = (case v of None \<Rightarrow> Label_fault | Some v \<Rightarrow> Done (Some (rt, v)))"

definition ls_store :: "('m \<Rightarrow> 'm option) \<Rightarrow> ('m \<Rightarrow> 'm option) \<Rightarrow> 'm emu \<Rightarrow> 'm emu \<times> ls_exit" where
  "ls_store f g p = (case f (umem p) of
     None \<Rightarrow> (p, Label_fault)
   | Some m \<Rightarrow> (case g m of None \<Rightarrow> (p\<lparr>umem := m\<rparr>, Label_fault) | Some m \<Rightarrow> (p\<lparr>umem := m\<rparr>, Done None)))"

definition ls_insn :: "'m user_ops \<Rightarrow> u32 \<Rightarrow> u32 \<Rightarrow> u32 \<Rightarrow> u32 \<Rightarrow> 'm emu \<Rightarrow> 'm emu \<times> ls_exit" where
  "ls_insn U junk seg addr insn p =
     (let opcode = MIPSInst_OPCODE insn; rt = MIPSInst_RT insn
      in if opcode \<in> {ll_op, lld_op, sc_op, scd_op, ldl_op, ldr_op, lwl_op, lwr_op, sdl_op, sdr_op, swl_op, swr_op, lb_op, lbu_op, sb_op}
         then (p, Label_sigbus)
         else if opcode = lh_op then
           (p, if \<not> access_ok_seg seg addr 2 then Label_sigbus else ls_load rt (load_half U scast (umem p) addr))
         else if opcode = lw_op then
           (p, if \<not> access_ok_seg seg addr 4 then Label_sigbus else ls_load rt (load_word U junk (umem p) addr))
         else if opcode = lhu_op then
           (p, if \<not> access_ok_seg seg addr 2 then Label_sigbus else ls_load rt (load_half U ucast (umem p) addr))
         else if opcode = sh_op then
           if \<not> access_ok_seg seg addr 2 then (p, Label_sigbus)
           else let value = regs p rt
                in ls_store (\<lambda>m. store_byte U m (addr + 1) (ucast value)) (\<lambda>m. store_byte U m addr (ucast (drop_bit 8 value))) p
         else if opcode = sw_op then
           if \<not> access_ok_seg seg addr 4 then (p, Label_sigbus)
           else let value = regs p rt
                in ls_store (\<lambda>m. insn_swl U m addr value) (\<lambda>m. insn_swr U m (addr + 3) value) p
         else if opcode \<in> {lwc1_op, ldc1_op, swc1_op, sdc1_op} then (p, Label_sigbus)
         else (p, Label_sigill))"

text \<open>
  \<open>extable\<close> is the exception table of the kernel image. The fetch of the instruction, which the code takes not to fault, leaves
  the register content \<open>junk\<close> when it does; \<open>junk\<close> is also what the register of \<^verbatim>\<open>lwl\<close> holds before. The
  result is 1 when a fixup was found. The address limit of the thread is the one of user space when the trap comes.
\<close>

definition fixup_exception :: "(u32 \<rightharpoonup> u32) \<Rightarrow> 'm emu \<Rightarrow> 'm emu \<times> int" where
  "fixup_exception extable p = (case extable (exception_epc p) of None \<Rightarrow> (p, 0) | Some nextinsn \<Rightarrow> (p\<lparr>cp0_epc := nextinsn\<rparr>, 1))"

definition emulate_load_store_insn ::
  "'m user_ops \<Rightarrow> (u32 \<rightharpoonup> u32) \<Rightarrow> u32 \<Rightarrow> u32 \<Rightarrow> u32 \<Rightarrow> u32 \<Rightarrow> ('m, 'z) trap_scheme \<Rightarrow>
   (('m, 'z) trap_scheme \<times> (5 word \<times> u32) option \<times> int) option" where
  "emulate_load_store_insn U extable junk seg addr pc s =
     (let p = set_reg 0 0 (proc s);
          insn = (case uload U (umem p) pc of Some w \<Rightarrow> w | None \<Rightarrow> junk);
          (p, exit) = ls_insn U junk seg addr insn p;
          s = s\<lparr>proc := p\<rparr>
      in case exit of
           Done r \<Rightarrow> Some (s\<lparr>unaligned_instructions := unaligned_instructions s + 1\<rparr>, r, 0)
         | Label_fault \<Rightarrow>
             let (p, found) = fixup_exception extable p; s = s\<lparr>proc := p\<rparr>
             in if found \<noteq> 0 then Some (s, None, 1)
                else map_option (\<lambda>s. (send_sig SIGSEGV s, None, 0)) (die_if_kernel s)
         | Label_sigbus \<Rightarrow> map_option (\<lambda>s. (send_sig SIGBUS s, None, 0)) (die_if_kernel s)
         | Label_sigill \<Rightarrow> map_option (\<lambda>s. (send_sig SIGILL s, None, 0)) (die_if_kernel s))"

definition ade_sigbus :: "('m, 'z) trap_scheme \<Rightarrow> ('m, 'z) trap_scheme option" where
  "ade_sigbus s = map_option (\<lambda>s. s\<lparr>proc := force_sig SIGBUS (proc s)\<rparr>) (die_if_kernel s)"

definition do_ade :: "'m user_ops \<Rightarrow> (u32 \<rightharpoonup> u32) \<Rightarrow> u32 \<Rightarrow> ('m, 'z) trap_scheme \<Rightarrow> ('m, 'z) trap_scheme option" where
  "do_ade U extable junk s =
     (let (p, returned) = do_dsemulret U (proc s); s = s\<lparr>proc := p\<rparr>
      in if returned \<noteq> 0 then Some s
         else if cp0_badvaddr s = cp0_epc p \<or> cp0_epc p AND 1 \<noteq> 0 then ade_sigbus s
         else
           let pc = exception_epc p
           in if mflags s AND MF_FIXADE = 0 then ade_sigbus s
              else
                let seg = (if user_mode p then USER_DS else KERNEL_DS)
                in case emulate_load_store_insn U extable junk seg (cp0_badvaddr s) pc s of
                     None \<Rightarrow> None
                   | Some (s, regptr, ret) \<Rightarrow>
                       if ret \<noteq> 0 then Some s
                       else
                         let p = fst (skip_epc U (proc s))
                         in Some (s\<lparr>proc := case regptr of None \<Rightarrow> p | Some (rt, newval) \<Rightarrow> set_reg rt newval p\<rparr>))"

section \<open>Addresses\<close>

lemma address_parts:
  assumes "w AND 3 = (0 :: u32)" and "j \<in> {0, 1, 2, 3}"
  shows "(w + j) AND 3 = j" and "(w + j) AND NOT 3 = w"
proof -
  have j: "j AND 3 = j" "j AND NOT 3 = 0" using assms(2) by auto
  have "w AND j = (w AND 3) AND j" by (simp only: and.assoc and.commute [of 3] j(1))
  then have o: "w + j = w OR j" using assms(1) by (simp add: disjunctive_add_eq_or)
  have "w AND NOT 3 = w" using assms(1) and_not_disjoint [of w 3] by simp
  then show "(w + j) AND 3 = j" "(w + j) AND NOT 3 = w" unfolding o bit.conj_disj_distrib2 using assms(1) j by simp_all
qed

lemma ucast2_add: "(ucast (x + y :: u32) :: 2 word) = ucast x + ucast y"
  by (simp add: word_uint_eq_iff uint_word_ariths unsigned_ucast_eq take_bit_eq_mod mod_mod_cancel mod_simps)

lemma address_split:
  fixes a :: u32
  obtains w j where "a = w + j" "w AND 3 = 0" "(w + 4) AND 3 = 0" "j \<in> {0, 1, 2, 3}"
proof
  have o: "(a AND NOT 3) OR (a AND 3) = a" by (rule bit_word_eqI) (auto simp: bit_simps)
  have d: "(a AND NOT 3) AND (a AND 3) = 0" by (rule bit_word_eqI) (auto simp: bit_simps)
  show "a = (a AND NOT 3) + (a AND 3)" using o disjunctive_add_eq_or [OF d] by simp
  show w: "(a AND NOT 3) AND 3 = 0" by (simp add: and.assoc)
  have "(ucast ((a AND NOT 3) + 4) :: 2 word) = ucast (a AND NOT 3) + ucast (4 :: u32)" by (rule ucast2_add)
  moreover have "(4 :: 2 word) = 0" by simp
  ultimately show "((a AND NOT 3) + 4) AND 3 = 0" using w unfolding low2 by simp
  show "a AND 3 \<in> {0, 1, 2, 3}"
    using two_bits [of a] by simp
qed

lemma address_nat:
  fixes a :: u32
  obtains w k where "a = w + of_nat k" "w AND 3 = 0" "(w + 4) AND 3 = 0" "k \<le> 3"
proof (rule address_split [of a])
  fix w j assume "a = w + j" "w AND 3 = 0" "(w + 4) AND 3 = 0" "j \<in> {0, 1, 2, 3}"
  then show thesis using that [of w 0] that [of w 1] that [of w 2] that [of w 3] by auto
qed

text \<open>The word of four bytes, the first one most significant, and byte \<open>i\<close> of a word.\<close>

definition join_bytes :: "u8 \<Rightarrow> u8 \<Rightarrow> u8 \<Rightarrow> u8 \<Rightarrow> u32" where
  "join_bytes b0 b1 b2 b3 = push_bit 24 (ucast b0) OR push_bit 16 (ucast b1) OR push_bit 8 (ucast b2) OR ucast b3"

definition word_byte :: "u32 \<Rightarrow> nat \<Rightarrow> u8" where
  "word_byte v i = ucast (drop_bit (24 - 8 * i) v)"

definition load_bytes :: "'m user_ops \<Rightarrow> 'm \<Rightarrow> u32 \<Rightarrow> u32 option" where
  "load_bytes U m a = (case (load_byte U m a, load_byte U m (a + 1), load_byte U m (a + 2), load_byte U m (a + 3)) of
     (Some b0, Some b1, Some b2, Some b3) \<Rightarrow> Some (join_bytes b0 b1 b2 b3) | _ \<Rightarrow> None)"

lemma aligned_off:
  assumes "w AND 3 = 0" and "i \<le> 3"
  shows "byte_pos (w + of_nat i) = 8 * i" and "(w + of_nat i) AND NOT 3 = w"
proof -
  consider "i = 0" | "i = 1" | "i = 2" | "i = 3" using assms(2) by linarith
  then have i: "(of_nat i :: u32) \<in> {0, 1, 2, 3}" "unat (of_nat i :: u32) = i" by (cases; simp)+
  then show "byte_pos (w + of_nat i) = 8 * i" "(w + of_nat i) AND NOT 3 = w"
    using address_parts [OF assms(1) i(1)] by (simp_all add: byte_pos_def)
qed

lemma load_byte_off:
  assumes "w AND 3 = 0" and "i \<le> 3"
  shows "load_byte U m (w + of_nat i) = map_option (\<lambda>v. word_byte v i) (uload U m w)"
  unfolding load_byte_def aligned_off [OF assms] word_byte_def ..

lemma load_byte_aligned:
  assumes "w AND 3 = 0"
  shows "load_byte U m w = map_option (\<lambda>v. word_byte v 0) (uload U m w)"
    and "load_byte U m (w + 1) = map_option (\<lambda>v. word_byte v 1) (uload U m w)"
    and "load_byte U m (w + 2) = map_option (\<lambda>v. word_byte v 2) (uload U m w)"
    and "load_byte U m (w + 3) = map_option (\<lambda>v. word_byte v 3) (uload U m w)"
  using load_byte_off [OF assms, of 0] load_byte_off [OF assms, of 1] load_byte_off [OF assms, of 2] load_byte_off [OF assms, of 3]
  by simp_all

lemma bit_word_byte: "bit (word_byte v i) n \<longleftrightarrow> n < 8 \<and> bit v (24 - 8 * i + n)"
  by (auto simp: word_byte_def bit_simps)

lemma bit_join_bytes:
  "bit (join_bytes b0 b1 b2 b3) n \<longleftrightarrow>
    (if n < 8 then bit b3 n else if n < 16 then bit b2 (n - 8) else if n < 24 then bit b1 (n - 16) else n < 32 \<and> bit b0 (n - 24))"
  using bit_imp_le_length [of b0 "n - 24"] bit_imp_le_length [of b1 "n - 16"] bit_imp_le_length [of b2 "n - 8"] bit_imp_le_length [of b3 n]
  by (auto simp: join_bytes_def bit_simps)

lemma join_parts:
  "join_bytes (word_byte v 0) (word_byte v 1) (word_byte v 2) (word_byte v 3) = v"
  "join_bytes (word_byte v 1) (word_byte v 2) (word_byte v 3) (word_byte u 0) = drop_bit 24 u OR push_bit 8 v"
  "join_bytes (word_byte v 2) (word_byte v 3) (word_byte u 0) (word_byte u 1) = drop_bit 16 u OR push_bit 16 v"
  "join_bytes (word_byte v 3) (word_byte u 0) (word_byte u 1) (word_byte u 2) = drop_bit 8 u OR push_bit 24 v"
  by (rule bit_word_eqI; auto simp: bit_join_bytes bit_word_byte bit_simps dest: bit_imp_le_length)+

lemma part_load:
  assumes "w AND 3 = 0"
  shows "insn_lwl U m w r = uload U m w"
    and "insn_lwl U m (w + 1) r = map_option (\<lambda>v. push_bit 8 v OR take_bit 8 r) (uload U m w)"
    and "insn_lwl U m (w + 2) r = map_option (\<lambda>v. push_bit 16 v OR take_bit 16 r) (uload U m w)"
    and "insn_lwl U m (w + 3) r = map_option (\<lambda>v. push_bit 24 v OR take_bit 24 r) (uload U m w)"
    and "insn_lwr U m w r = map_option (\<lambda>v. drop_bit 24 v OR (r AND NOT (mask 8))) (uload U m w)"
    and "insn_lwr U m (w + 1) r = map_option (\<lambda>v. drop_bit 16 v OR (r AND NOT (mask 16))) (uload U m w)"
    and "insn_lwr U m (w + 2) r = map_option (\<lambda>v. drop_bit 8 v OR (r AND NOT (mask 24))) (uload U m w)"
    and "insn_lwr U m (w + 3) r = uload U m w"
proof -
  have m: "r AND NOT (mask 32) = 0" by (rule bit_word_eqI) (auto simp: bit_simps)
  have "map_option (\<lambda>v. v) x = x" for x :: "u32 option" by (cases x) simp_all
  then show "insn_lwl U m w r = uload U m w" "insn_lwr U m (w + 3) r = uload U m w"
    using address_parts [OF assms, of 0] address_parts [OF assms, of 3] m by (simp_all add: insn_lwl_def insn_lwr_def byte_pos_def)
qed (use address_parts [OF assms, of 0] address_parts [OF assms, of 1] address_parts [OF assms, of 2] address_parts [OF assms, of 3] in
    \<open>simp_all add: insn_lwl_def insn_lwr_def byte_pos_def\<close>)

text \<open>The pair of part word loads delivers the four bytes, whatever was in the register.\<close>

lemma load_word_bytes: "load_word U junk m a = load_bytes U m a"
proof -
  obtain w j where a: "a = w + j" "w AND 3 = 0" "(w + 4) AND 3 = 0" "j \<in> {0, 1, 2, 3}" by (rule address_split)
  have mix: "(push_bit k v OR take_bit k r) AND NOT (mask k) = push_bit k v" for k and v r :: u32
    by (rule bit_word_eqI) (auto simp: bit_simps)
  note l = part_load [OF a(2), of U m] part_load [OF a(3), of U m, simplified add.assoc numeral_plus_one numeral_plus_numeral semiring_norm] load_byte_aligned [OF a(2), of U m]
    load_byte_aligned [OF a(3), of U m, simplified add.assoc numeral_plus_one numeral_plus_numeral semiring_norm]
  consider "j = 0" | "j = 1" | "j = 2" | "j = 3" using a(4) by auto
  then show ?thesis
    by cases (auto simp: a(1) load_word_def load_bytes_def l add.assoc join_parts [simplified] mix split: option.splits)
qed

lemma word_byte_swl:
  assumes "k \<le> 3" and "i \<le> 3"
  shows "word_byte (drop_bit (8 * k) r OR (v AND NOT (mask (32 - 8 * k)))) i = (if i < k then word_byte v i else word_byte r (i - k))"
  by (rule bit_word_eqI) (use assms in \<open>auto simp: bit_word_byte bit_simps algebra_simps dest: bit_imp_le_length\<close>)

lemma word_byte_swr:
  assumes "k \<le> 3" and "i \<le> 3"
  shows "word_byte (push_bit (24 - 8 * k) r OR take_bit (24 - 8 * k) v) i = (if i \<le> k then word_byte r (3 - k + i) else word_byte v i)"
  by (rule bit_word_eqI) (use assms in \<open>auto simp: bit_word_byte bit_simps algebra_simps dest: bit_imp_le_length\<close>)

lemma aligned_apart:
  assumes "v AND 3 = 0" and "w AND 3 = 0" and "v \<noteq> w"
  shows "apart v w"
proof -
  have "4 \<le> x - y" if "x AND 3 = 0" "y AND 3 = 0" "x \<noteq> y" for x y :: u32
  proof -
    have "(ucast (x - y + y) :: 2 word) = ucast (x - y) + ucast y" by (rule ucast2_add)
    moreover have z: "(ucast v :: 2 word) = 0" if "v AND 3 = (0 :: u32)" for v using that word2_cases [of "ucast v"] unfolding low2 by auto
    ultimately have "ucast (ucast (x - y) :: 2 word) = (0 :: u32)" using that by simp
    then have "(x - y) AND 3 = 0" unfolding low2 .
    then have "\<not> x - y \<in> {1, 2, 3}" by auto
    moreover have "x - y \<noteq> 0" using that by simp
    ultimately have "unat (x - y) \<noteq> 0 \<and> unat (x - y) \<noteq> 1 \<and> unat (x - y) \<noteq> 2 \<and> unat (x - y) \<noteq> 3"
      by (simp only: word_unat_eq_iff insert_iff empty_iff) simp
    then have "4 \<le> unat (x - y)" by linarith
    then show ?thesis unfolding word_le_nat_alt by simp
  qed
  then show ?thesis using assms by (simp add: apart_def)
qed

context user_memory
begin

lemma update_aligned:
  assumes "update_word U m a f = Some m'" and "a AND NOT 3 = w" and "w AND 3 = 0"
  obtains v where "uload U m w = Some v" "uload U m' w = Some (f v)"
    "\<And>x. x AND 3 = 0 \<Longrightarrow> x \<noteq> w \<Longrightarrow> uload U m x \<noteq> None \<Longrightarrow> uload U m' x = uload U m x"
proof -
  obtain v where v: "uload U m w = Some v" "ustore U m w (f v) = Some m'"
    using assms(1,2) by (auto simp: update_word_def split: option.splits)
  show thesis
    using that [OF v(1) load_same [OF v(2)] load_other [OF v(2)]] aligned_apart [OF assms(3)] by blast
qed

lemma swl_effect:
  assumes "insn_swl U m (w + of_nat k) r = Some m'" and w: "w AND 3 = 0" and k: "k \<le> 3"
  shows "i \<le> 3 \<Longrightarrow> load_byte U m' (w + of_nat i) = (if i < k then load_byte U m (w + of_nat i) else Some (word_byte r (i - k)))"
    and "x AND 3 = 0 \<Longrightarrow> x \<noteq> w \<Longrightarrow> i \<le> 3 \<Longrightarrow> load_byte U m (x + of_nat i) \<noteq> None \<Longrightarrow> load_byte U m' (x + of_nat i) = load_byte U m (x + of_nat i)"
proof -
  have p: "byte_pos (w + of_nat k) = 8 * k" "(w + of_nat k) AND NOT 3 = w" using aligned_off [OF w k] by simp_all
  obtain v where v: "uload U m w = Some v" "uload U m' w = Some (drop_bit (8 * k) r OR (v AND NOT (mask (32 - 8 * k))))"
    and o: "\<And>x. x AND 3 = 0 \<Longrightarrow> x \<noteq> w \<Longrightarrow> uload U m x \<noteq> None \<Longrightarrow> uload U m' x = uload U m x"
    using update_aligned [OF assms(1) [unfolded insn_swl_def p(1)] p(2) w] by blast
  show "i \<le> 3 \<Longrightarrow> load_byte U m' (w + of_nat i) = (if i < k then load_byte U m (w + of_nat i) else Some (word_byte r (i - k)))"
    using k by (simp add: load_byte_off [OF w] v word_byte_swl)
  show "x AND 3 = 0 \<Longrightarrow> x \<noteq> w \<Longrightarrow> i \<le> 3 \<Longrightarrow> load_byte U m (x + of_nat i) \<noteq> None \<Longrightarrow> load_byte U m' (x + of_nat i) = load_byte U m (x + of_nat i)"
    using o [of x] by (simp add: load_byte_off)
qed

lemma swr_effect:
  assumes "insn_swr U m (w + of_nat k) r = Some m'" and w: "w AND 3 = 0" and k: "k \<le> 3"
  shows "i \<le> 3 \<Longrightarrow> load_byte U m' (w + of_nat i) = (if i \<le> k then Some (word_byte r (3 - k + i)) else load_byte U m (w + of_nat i))"
    and "x AND 3 = 0 \<Longrightarrow> x \<noteq> w \<Longrightarrow> i \<le> 3 \<Longrightarrow> load_byte U m (x + of_nat i) \<noteq> None \<Longrightarrow> load_byte U m' (x + of_nat i) = load_byte U m (x + of_nat i)"
proof -
  have p: "byte_pos (w + of_nat k) = 8 * k" "(w + of_nat k) AND NOT 3 = w" using aligned_off [OF w k] by simp_all
  obtain v where v: "uload U m w = Some v" "uload U m' w = Some (push_bit (24 - 8 * k) r OR take_bit (24 - 8 * k) v)"
    and o: "\<And>x. x AND 3 = 0 \<Longrightarrow> x \<noteq> w \<Longrightarrow> uload U m x \<noteq> None \<Longrightarrow> uload U m' x = uload U m x"
    using update_aligned [OF assms(1) [unfolded insn_swr_def p(1)] p(2) w] by blast
  show "i \<le> 3 \<Longrightarrow> load_byte U m' (w + of_nat i) = (if i \<le> k then Some (word_byte r (3 - k + i)) else load_byte U m (w + of_nat i))"
    using k by (simp add: load_byte_off [OF w] v word_byte_swr)
  show "x AND 3 = 0 \<Longrightarrow> x \<noteq> w \<Longrightarrow> i \<le> 3 \<Longrightarrow> load_byte U m (x + of_nat i) \<noteq> None \<Longrightarrow> load_byte U m' (x + of_nat i) = load_byte U m (x + of_nat i)"
    using o [of x] by (simp add: load_byte_off)
qed

text \<open>
  The pair of part word stores writes the four bytes and no other. \<open>k\<close> is the place of the address in its word: a store that
  is not aligned goes to two words.
\<close>

lemma store_crossing:
  assumes "insn_swl U m a r = Some m1" and "insn_swr U m1 (a + 3) r = Some m'"
    and "a = w + of_nat k" and "w AND 3 = 0" and "(w + 4) AND 3 = 0" and "k \<le> 3" and "k \<noteq> 0" and "n \<le> 3"
  shows "load_byte U m' (a + of_nat n) = Some (word_byte r n)"
proof -
  have e: "a + 3 = (w + 4) + of_nat (k - 1)" "k - 1 \<le> 3" using assms(3,6,7) by (simp_all add: of_nat_diff)
  note l = swl_effect [OF assms(1) [unfolded assms(3)] assms(4,6)] and r = swr_effect [OF assms(2) [unfolded e(1)] assms(5) e(2)]
  show ?thesis
  proof (cases "k + n \<le> 3")
    case True
    have "load_byte U m1 (w + of_nat (k + n)) = Some (word_byte r n)" using l(1) [OF True] by simp
    moreover have "w \<noteq> w + 4" by simp
    ultimately show ?thesis using r(2) [OF assms(4) _ True] assms(3) by (simp add: add.assoc)
  next
    case False
    then have "a + of_nat n = (w + 4) + of_nat (k + n - 4)" using assms(3) by (simp add: of_nat_diff)
    moreover have "k + n - 4 \<le> 3" "k + n - 4 \<le> k - 1" "3 - (k - 1) + (k + n - 4) = n" using False assms(6-8) by linarith+
    ultimately show ?thesis using r(1) [of "k + n - 4"] by simp
  qed
qed

lemma store_crossing_keeps:
  assumes "insn_swl U m a r = Some m1" and "insn_swr U m1 (a + 3) r = Some m'"
    and "a = w + of_nat k" and "w AND 3 = 0" and "(w + 4) AND 3 = 0" and "k \<le> 3" and "k \<noteq> 0"
    and "\<And>n. n \<le> 3 \<Longrightarrow> b \<noteq> a + of_nat n" and "load_byte U m b \<noteq> None"
  shows "load_byte U m' b = load_byte U m b"
proof -
  obtain x i where b: "b = x + of_nat i" "x AND 3 = 0" "(x + 4) AND 3 = 0" "i \<le> 3" by (rule address_nat)
  have e: "a + 3 = (w + 4) + of_nat (k - 1)" "k - 1 \<le> 3" using assms(3,6,7) by (simp_all add: of_nat_diff)
  note l = swl_effect [OF assms(1) [unfolded assms(3)] assms(4,6)] and r = swr_effect [OF assms(2) [unfolded e(1)] assms(5) e(2)]
  consider (same) "x = w" | (succ) "x = w + 4" | (other) "x \<noteq> w" "x \<noteq> w + 4" by blast
  then show ?thesis
  proof cases
    case same
    have "b = a + of_nat (i - k)" if "k \<le> i" using that b(1) assms(3) same by (simp add: of_nat_diff)
    then have "i < k" using assms(8) b(4) by (metis diff_le_self le_trans not_le)
    then show ?thesis using l(1) [OF b(4)] r(2) [OF b(2) _ b(4)] assms(9) b(1) same by simp
  next
    case succ
    have "b = a + of_nat (4 + i - k)" if "i \<le> k - 1" using that b(1) assms(3,6) succ by (simp add: of_nat_diff)
    moreover have "4 + i - k \<le> 3" if "i \<le> k - 1" using that assms(7) by linarith
    ultimately have "\<not> i \<le> k - 1" using assms(8) by blast
    then show ?thesis using r(1) [OF b(4)] l(2) [OF b(2) _ b(4)] assms(9) b(1) succ by simp
  next
    case other
    then show ?thesis using r(2) [OF b(2) _ b(4)] l(2) [OF b(2) _ b(4)] assms(9) b(1) by simp
  qed
qed

lemma store_word_bytes:
  assumes "insn_swl U m a r = Some m1" and "insn_swr U m1 (a + 3) r = Some m'"
  shows "n \<le> 3 \<Longrightarrow> load_byte U m' (a + of_nat n) = Some (word_byte r n)"
    and "(\<And>n. n \<le> 3 \<Longrightarrow> b \<noteq> a + of_nat n) \<Longrightarrow> load_byte U m b \<noteq> None \<Longrightarrow> load_byte U m' b = load_byte U m b"
proof -
  obtain w k where a: "a = w + of_nat k" "w AND 3 = 0" "(w + 4) AND 3 = 0" "k \<le> 3" by (rule address_nat)
  obtain x i where b: "b = x + of_nat i" "x AND 3 = 0" "(x + 4) AND 3 = 0" "i \<le> 3" by (rule address_nat)
  note cross = store_crossing [OF assms a] store_crossing_keeps [OF assms a]
  have "(n \<le> 3 \<longrightarrow> load_byte U m' (a + of_nat n) = Some (word_byte r n)) \<and>
    ((\<forall>n\<le>3. b \<noteq> a + of_nat n) \<longrightarrow> load_byte U m b \<noteq> None \<longrightarrow> load_byte U m' b = load_byte U m b)" if "k = 0"
  proof -
    have "insn_swr U m1 (w + of_nat 3) r = Some m'" using assms(2) that a(1) by simp
    note swr_effect [OF this a(2) order_refl] and swl_effect [OF assms(1) [unfolded a(1)] a(2,4)]
    then show ?thesis using b a(1) that by (cases "x = w") auto
  qed
  then show "n \<le> 3 \<Longrightarrow> load_byte U m' (a + of_nat n) = Some (word_byte r n)"
    "(\<And>n. n \<le> 3 \<Longrightarrow> b \<noteq> a + of_nat n) \<Longrightarrow> load_byte U m b \<noteq> None \<Longrightarrow> load_byte U m' b = load_byte U m b"
    using cross by (cases "k = 0"; simp)+
qed

end

section \<open>The handler\<close>

text \<open>An address error of a user process that is not the end of a frame and is to be fixed.\<close>

definition ade_fixable :: "'m user_ops \<Rightarrow> ('m, 'z) trap_scheme \<Rightarrow> 'm emu \<Rightarrow> bool" where
  "ade_fixable U s p \<longleftrightarrow> do_dsemulret U (proc s) = (p, 0) \<and> user_mode p \<and> cp0_badvaddr s \<noteq> cp0_epc p \<and> cp0_epc p AND 1 = 0 \<and>
     mflags s AND MF_FIXADE \<noteq> 0"

lemma mode_reg0:
  "user_mode (set_reg r v p) = user_mode p" "exception_epc (set_reg r v p) = exception_epc p" "umem (set_reg r v p) = umem p"
  "user_mode (p\<lparr>umem := m\<rparr>) = user_mode p" "exception_epc (p\<lparr>umem := m\<rparr>) = exception_epc p"
  by (simp_all add: user_mode_def exception_epc_def set_reg_def delay_slot_def)

lemma ade_load:
  assumes "ade_fixable U s p" and "uload U (umem p) (exception_epc p) = Some insn" and "MIPSInst_OPCODE insn = lw_op"
    and "access_ok (cp0_badvaddr s) 4" and "load_bytes U (umem p) (cp0_badvaddr s) = Some v"
  shows "do_ade U extable junk s = Some (s\<lparr>proc := set_reg (MIPSInst_RT insn) v (fst (skip_epc U (set_reg 0 0 p))),
    unaligned_instructions := unaligned_instructions s + 1\<rparr>)"
  using assms
  by (simp add: do_ade_def ade_fixable_def emulate_load_store_insn_def mode_reg0 ls_insn_def ls_load_def load_word_bytes access_ok_def access_ok_seg_def)

text \<open>
  An unaligned load of a word outside a delay slot: the register gets the four bytes at the faulting address, first byte
  most significant, and the process goes on behind the load. Nothing else changes but register 0, which is cleared,
  and the count of emulated instructions.
\<close>

lemma unaligned_load:
  assumes "ade_fixable U s p" and "\<not> delay_slot p" and "uload U (umem p) (cp0_epc p) = Some insn" and "MIPSInst_OPCODE insn = lw_op"
    and "access_ok (cp0_badvaddr s) 4" and "load_bytes U (umem p) (cp0_badvaddr s) = Some v"
  shows "do_ade U extable junk s = Some (s\<lparr>proc := p\<lparr>regs := (regs p)(0 := 0, MIPSInst_RT insn := v), cp0_epc := cp0_epc p + 4\<rparr>,
    unaligned_instructions := unaligned_instructions s + 1\<rparr>)"
proof -
  have "exception_epc p = cp0_epc p" "\<not> delay_slot (set_reg 0 0 p)" using assms(2) by (simp_all add: exception_epc_def delay_slot_def set_reg_def)
  then show ?thesis using ade_load [OF assms(1) _ assms(4-6)] assms(3) by (simp add: skip_epc_def) (simp add: set_reg_def)
qed

text \<open>
  C21. An unaligned load of a word in the delay slot of a jump or branch of MIPS32 on general registers or floating point conditions (or
  of \<^verbatim>\<open>bposge32\<close>), seen against the instruction set: the branch is decided, and its return address
  written, on the registers before the load, as the processor would; then the loaded word goes to its register, also when
  the branch tested that register or the jump wrote it. Branches of coprocessor 2 and \<^verbatim>\<open>jalx\<close> are outside the claim, as are jumps that read
  their own link register. The saved word of register 0 is no register of the processor: it gets what is
  loaded or linked to register 0 and is 0 otherwise.
\<close>

theorem unaligned_load_in_slot:
  assumes "ade_fixable U s p" and "delay_slot p" and "cp0_epc p AND 3 = 0" and "uload U (umem p) (cp0_epc p) = Some br"
    and "mips_decode br = Some (t, l)" and "predictable t l" and "t = Cond PosGe32 \<Longrightarrow> cpu_has_dsp p" and "R = (regs p)(0 := 0)"
    and "uload U (umem p) (cp0_epc p + 4) = Some insn" and "MIPSInst_OPCODE insn = lw_op"
    and "access_ok (cp0_badvaddr s) 4" and "load_bytes U (umem p) (cp0_badvaddr s) = Some v"
  shows "do_ade U extable junk s = Some (s\<lparr>proc := p\<lparr>
      regs := (link_regs R (cp0_epc p) l)(0 := if l = Some 0 then cp0_epc p + 8 else 0, MIPSInst_RT insn := v),
      cp0_epc := next_pc R (case hw_fcr31 p of Some w \<Rightarrow> w | None \<Rightarrow> fcr31 p) (dspcontrol p) (cp0_epc p) br t\<rparr>,
    unaligned_instructions := unaligned_instructions s + 1\<rparr>)"
proof -
  let ?p = "set_reg 0 0 p"
  have same: "cp0_epc ?p = cp0_epc p" "umem ?p = umem p" "(regs ?p)(0 := 0) = R" "cpu_has_dsp ?p = cpu_has_dsp p" "delay_slot ?p"
    using assms(2,8) by (simp_all add: set_reg_def delay_slot_def)
  have "exception_epc p = cp0_epc p + 4" using assms(2) by (simp add: exception_epc_def)
  moreover have "fst (skip_epc U ?p) = p\<lparr>regs := (link_regs R (cp0_epc p) l)(0 := if l = Some 0 then cp0_epc p + 8 else 0),
      cp0_epc := next_pc R (case hw_fcr31 p of Some w \<Rightarrow> w | None \<Rightarrow> fcr31 p) (dspcontrol p) (cp0_epc p) br t\<rparr>"
    using branch_architecture [OF _ _ assms(5,6), of ?p U R] assms(3,4,7) same
    by (simp add: skip_epc_def) (simp add: set_reg_def split: option.split)
  ultimately show ?thesis using ade_load [OF assms(1) _ assms(10-12)] assms(9) by (simp add: set_reg_def)
qed

theorem unaligned_load_in_slot_witness:
  "do_ade word_ops Map.empty 0 (trap_start 0x10001 ((start 0x400000 [0x400000 \<mapsto> 0x11000003, 0x400004 \<mapsto> 0x8c480001, 0x10000 \<mapsto> 0x01020304, 0x10004 \<mapsto> 0x05060708])
     \<lparr>cp0_status := 0x10, cp0_cause := CAUSEF_BD\<rparr>)) =
   Some ((trap_start 0x10001 ((start 0x400000 [0x400000 \<mapsto> 0x11000003, 0x400004 \<mapsto> 0x8c480001, 0x10000 \<mapsto> 0x01020304, 0x10004 \<mapsto> 0x05060708])
     \<lparr>cp0_status := 0x10, cp0_cause := CAUSEF_BD, errors := 1, regs := (\<lambda>r. 0)(0 := 0, 8 := 0x02030405), cp0_epc := 0x400010\<rparr>))\<lparr>unaligned_instructions := 1\<rparr>)"
proof -
  let ?m = "[0x400000 \<mapsto> 0x11000003, 0x400004 \<mapsto> 0x8c480001, 0x10000 \<mapsto> 0x01020304, 0x10004 \<mapsto> 0x05060708] :: u32 \<rightharpoonup> u32"
  let ?p = "(start 0x400000 ?m)\<lparr>cp0_status := 0x10, cp0_cause := CAUSEF_BD, errors := 1\<rparr>"
    and ?s = "trap_start 0x10001 ((start 0x400000 ?m)\<lparr>cp0_status := 0x10, cp0_cause := CAUSEF_BD\<rparr>)"
  have i: "MIPSInst_OPCODE 0x8c480001 = lw_op" "MIPSInst_RT 0x8c480001 = 8" "access_ok 0x10001 4" "delay_slot ?p" "cp0_epc ?p AND 3 = 0"
    "mips_decode 0x11000003 = Some (Cond (Eq 8 0), None)" "predictable (Cond (Eq 8 0)) None" by code_simp+
  have u: "uload word_ops (umem ?p) (cp0_epc ?p) = Some 0x11000003" "uload word_ops (umem ?p) (cp0_epc ?p + 4) = Some 0x8c480001"
    by (simp_all add: start_def word_ops_def word_load_def)
  have b: "load_bytes word_ops (umem ?p) (cp0_badvaddr ?s) = Some 0x02030405" by code_simp
  have d: "do_dsemulret word_ops (proc ?s) = (?p, 0)"
    by (simp add: do_dsemulret_def trap_start_def start_def access_ok_def word_ops_def word_load_def)
  have f: "ade_fixable word_ops ?s ?p" unfolding ade_fixable_def d by (simp add: trap_start_def start_def user_mode_def)
  from unaligned_load_in_slot [OF f i(4,5) u(1) i(6,7) _ refl u(2) i(1) _ b, of Map.empty 0]
  show ?thesis by (simp add: trap_start_def i start_def link_regs_def)
qed

text \<open>
  C22. An unaligned store of a word that ends without a signal writes the four bytes of the register to the faulting address and
  no other byte of memory, and the process goes on behind it. The exception table has no entry for user code.
\<close>

theorem unaligned_store:
  assumes "user_memory U" and "ade_fixable U s p" and "uload U (umem p) (exception_epc p) = Some insn" and "MIPSInst_OPCODE insn = sw_op"
    and "extable (exception_epc p) = None" and "do_ade U extable junk s = Some s'" and "sent s' = sent s" and "v = regs (set_reg 0 0 p) (MIPSInst_RT insn)"
  shows "\<exists>m. s' = s\<lparr>proc := fst (skip_epc U ((set_reg 0 0 p)\<lparr>umem := m\<rparr>)), unaligned_instructions := unaligned_instructions s + 1\<rparr> \<and>
    (\<forall>n\<le>3. load_byte U m (cp0_badvaddr s + of_nat n) = Some (word_byte v n)) \<and>
    (\<forall>b. (\<forall>n\<le>3. b \<noteq> cp0_badvaddr s + of_nat n) \<longrightarrow> load_byte U (umem p) b \<noteq> None \<longrightarrow> load_byte U m b = load_byte U (umem p) b)"
proof -
  have "\<exists>m1 m. insn_swl U (umem p) (cp0_badvaddr s) v = Some m1 \<and> insn_swr U m1 (cp0_badvaddr s + 3) v = Some m \<and>
    s' = s\<lparr>proc := fst (skip_epc U ((set_reg 0 0 p)\<lparr>umem := m\<rparr>)), unaligned_instructions := unaligned_instructions s + 1\<rparr>"
    using assms(2-8)
    by (auto simp: do_ade_def ade_fixable_def emulate_load_store_insn_def mode_reg0 ls_insn_def ls_store_def die_if_kernel_def
      fixup_exception_def send_sig_def Let_def split: if_splits option.splits)
  then obtain m1 m where "insn_swl U (umem p) (cp0_badvaddr s) v = Some m1" "insn_swr U m1 (cp0_badvaddr s + 3) v = Some m"
    "s' = s\<lparr>proc := fst (skip_epc U ((set_reg 0 0 p)\<lparr>umem := m\<rparr>)), unaligned_instructions := unaligned_instructions s + 1\<rparr>" by blast
  then show ?thesis using user_memory.store_word_bytes [OF assms(1)] by blast
qed

theorem unaligned_store_witness:
  "\<exists>m. load_byte word_ops m 0x10003 = Some 0xcc \<and> load_byte word_ops m 0x10004 = Some 0xdd \<and> load_byte word_ops m 0x10000 = Some 1"
proof -
  let ?m = "[0x400000 \<mapsto> 0xac480001, 0x10000 \<mapsto> 0x01020304, 0x10004 \<mapsto> 0x05060708] :: u32 \<rightharpoonup> u32"
  let ?p = "(start 0x400000 ?m)\<lparr>cp0_status := 0x10, errors := 1, regs := (\<lambda>r. 0)(8 := 0xaabbccdd)\<rparr>"
    and ?s = "trap_start 0x10001 ((start 0x400000 ?m)\<lparr>cp0_status := 0x10, regs := (\<lambda>r. 0)(8 := 0xaabbccdd)\<rparr>)"
  have i: "MIPSInst_OPCODE 0xac480001 = sw_op" "MIPSInst_RT 0xac480001 = 8" "exception_epc ?p = 0x400000" by code_simp+
  have u: "uload word_ops (umem ?p) (exception_epc ?p) = Some 0xac480001" by (simp add: i(3)) (simp add: start_def word_ops_def word_load_def)
  have d: "do_dsemulret word_ops (proc ?s) = (?p, 0)"
    by (simp add: do_dsemulret_def trap_start_def start_def access_ok_def word_ops_def word_load_def)
  have f: "ade_fixable word_ops ?s ?p" unfolding ade_fixable_def d by (simp add: trap_start_def start_def user_mode_def)
  have e: "do_ade word_ops Map.empty 0 ?s = Some (the (do_ade word_ops Map.empty 0 ?s))" "sent (the (do_ade word_ops Map.empty 0 ?s)) = []" by code_simp+
  obtain m where m: "\<forall>n\<le>3. load_byte word_ops m (0x10001 + of_nat n) = Some (word_byte 0xaabbccdd n)"
    "\<forall>b. (\<forall>n\<le>3. b \<noteq> 0x10001 + of_nat n) \<longrightarrow> load_byte word_ops ?m b \<noteq> None \<longrightarrow> load_byte word_ops m b = load_byte word_ops ?m b"
    using unaligned_store [OF wm.user_memory_axioms f u i(1) _ e(1) _ refl] e(2) by (auto simp: trap_start_def i set_reg_def start_def)
  have "word_byte 0xaabbccdd 2 = 0xcc" "word_byte 0xaabbccdd 3 = 0xdd" "load_byte word_ops ?m 0x10000 = Some 1" by code_simp+
  moreover have "\<forall>n\<le>3. (0x10000 :: u32) \<noteq> 0x10001 + of_nat n"
  proof (intro allI impI)
    fix n :: nat assume "n \<le> 3"
    then consider "n = 0" | "n = 1" | "n = 2" | "n = 3" by linarith
    then show "(0x10000 :: u32) \<noteq> 0x10001 + of_nat n" by cases simp_all
  qed
  ultimately show ?thesis using m(1) [rule_format, of 2] m(1) [rule_format, of 3] m(2) by (intro exI [of _ m]) auto
qed

text \<open>
  An access that is refused ends with a signal and the program counter behind the instruction that was not executed; here a
  load linked.
\<close>

lemma ade_signal_skips:
  assumes "ade_fixable U s p" and "\<not> delay_slot p" and "uload U (umem p) (cp0_epc p) = Some insn" and "MIPSInst_OPCODE insn = ll_op"
  shows "do_ade U extable junk s = Some (send_sig SIGBUS (s\<lparr>proc := (set_reg 0 0 p)\<lparr>cp0_epc := cp0_epc p + 4\<rparr>\<rparr>))"
proof -
  have "exception_epc p = cp0_epc p" "\<not> delay_slot (set_reg 0 0 p)" "cp0_epc (set_reg 0 0 p) = cp0_epc p"
    using assms(2) by (simp_all add: exception_epc_def delay_slot_def set_reg_def)
  then show ?thesis using assms
    by (simp add: do_ade_def ade_fixable_def emulate_load_store_insn_def mode_reg0 ls_insn_def die_if_kernel_def skip_epc_def send_sig_def)
qed

end
