(* ===== verification/Traps.thy ===== *)
theory Traps
  imports Kernel_Linkage Unaligned
begin

text \<open>
  The exception handlers of \<^verbatim>\<open>arch/mips/kernel/traps.c\<close> that emulate instructions or enter the floating point emulator: reserved
  instruction and coprocessor unusable with the emulation of \<^verbatim>\<open>ll\<close>, \<^verbatim>\<open>sc\<close> and \<^verbatim>\<open>rdhwr\<close>, floating point exception,
  overflow, breakpoint and trap, with the FPU ownership of \<^verbatim>\<open>asm-mips/fpu.h\<close>.
\<close>

section \<open>The state of the processor\<close>

text \<open>
  Beside the trap state: the running task and its thread pointer, whether it has used floating point, the two variables
  of the \<^verbatim>\<open>ll\<close>/\<^verbatim>\<open>sc\<close> emulation (\<open>None\<close> is \<^verbatim>\<open>NULL\<close>), whether the kernel is built with \<^verbatim>\<open>CONFIG_CPU_HAS_LLSC\<close>, what the processor has, the registers of a hardware FPU, and the
  signals sent with a \<^verbatim>\<open>siginfo\<close> (number, code, address). While the process owns the FPU, \<open>hw_fcr31\<close> of its state is the hardware
  control register.
\<close>

record 'm cpu = "'m trap" +
  current :: nat
  tp_value :: u32
  used_math :: bool
  ll_bit :: u32
  ll_task :: "nat option"
  config_llsc :: bool
  cpu_has_llsc :: bool
  cpu_has_fpu :: bool
  hw_fpr :: "5 word \<Rightarrow> u64"
  hw_csr :: u32
  siginfo :: "(int \<times> int \<times> u32) list"

text \<open>Task 1, with the process \<open>p\<close>, on a processor with an FPU it has not used.\<close>

definition cpu_start :: "'m emu \<Rightarrow> 'm cpu" where
  "cpu_start p = \<lparr>proc = p, cp0_badvaddr = 0, mflags = MF_FIXADE, sent = [], unaligned_instructions = 0, current = 1, tp_value = 0,
     used_math = False, ll_bit = 0, ll_task = None, config_llsc = False, cpu_has_llsc = False, cpu_has_fpu = True, hw_fpr = (\<lambda>r. 0), hw_csr = 0, siginfo = []\<rparr>"

definition force_signal :: "int \<Rightarrow> ('m, 'z) cpu_scheme \<Rightarrow> ('m, 'z) cpu_scheme" where
  "force_signal sig s = s\<lparr>proc := force_sig sig (proc s)\<rparr>"

definition force_sig_info :: "int \<Rightarrow> int \<Rightarrow> u32 \<Rightarrow> 'm cpu \<Rightarrow> 'm cpu" where
  "force_sig_info sig code addr s = (force_signal sig s)\<lparr>siginfo := (sig, code, addr) # siginfo s\<rparr>"

abbreviation (input) SIGTRAP :: int where "SIGTRAP \<equiv> 5"
abbreviation (input) FPE_INTDIV :: int where "FPE_INTDIV \<equiv> 0x30001"
abbreviation (input) FPE_INTOVF :: int where "FPE_INTOVF \<equiv> 0x30002"
abbreviation (input) BRK_OVERFLOW :: u32 where "BRK_OVERFLOW \<equiv> 6"
abbreviation (input) BRK_DIVZERO :: u32 where "BRK_DIVZERO \<equiv> 7"
abbreviation (input) ST0_CU1 :: u32 where "ST0_CU1 \<equiv> 0x20000000"
abbreviation (input) FPU_CSR_UNI_X :: u32 where "FPU_CSR_UNI_X \<equiv> 0x00020000"

section \<open>FPU ownership\<close>

definition own_fpu :: "('m, 'z) cpu_scheme \<Rightarrow> ('m, 'z) cpu_scheme" where
  "own_fpu s = (if cpu_has_fpu s then s\<lparr>proc := (proc s)\<lparr>cp0_status := cp0_status (proc s) OR ST0_CU1, hw_fcr31 := Some (hw_csr s)\<rparr>\<rparr> else s)"

definition lose_fpu :: "('m, 'z) cpu_scheme \<Rightarrow> ('m, 'z) cpu_scheme" where
  "lose_fpu s = (if cpu_has_fpu s then s\<lparr>proc := (proc s)\<lparr>cp0_status := cp0_status (proc s) AND NOT ST0_CU1, hw_fcr31 := None\<rparr>\<rparr> else s)"

text \<open>A write of the hardware control register, seen by its owner.\<close>

definition set_hw_csr :: "u32 \<Rightarrow> ('m, 'z) cpu_scheme \<Rightarrow> ('m, 'z) cpu_scheme" where
  "set_hw_csr w s = s\<lparr>hw_csr := w, proc := (proc s)\<lparr>hw_fcr31 := map_option (\<lambda>_. w) (hw_fcr31 (proc s))\<rparr>\<rparr>"

text \<open>The 32 bit kernel saves and restores the sixteen double registers with even numbers.\<close>

definition save_fp :: "('m, 'z) cpu_scheme \<Rightarrow> ('m, 'z) cpu_scheme" where
  "save_fp s = (if cpu_has_fpu s
     then s\<lparr>proc := (proc s)\<lparr>fpr := \<lambda>r. if bit r 0 then fpr (proc s) r else hw_fpr s r, fcr31 := hw_csr s\<rparr>\<rparr> else s)"

definition restore_fp :: "('m, 'z) cpu_scheme \<Rightarrow> ('m, 'z) cpu_scheme" where
  "restore_fp s = (if cpu_has_fpu s
     then set_hw_csr (fcr31 (proc s)) (s\<lparr>hw_fpr := \<lambda>r. if bit r 0 then hw_fpr s r else fpr (proc s) r\<rparr>) else s)"

definition init_fpu :: "('m, 'z) cpu_scheme \<Rightarrow> ('m, 'z) cpu_scheme" where
  "init_fpu s = (if cpu_has_fpu s then set_hw_csr 0 (s\<lparr>hw_fpr := \<lambda>r. - 1\<rparr>) else s\<lparr>proc := fpu_emulator_init_fpu (proc s)\<rparr>)"

section \<open>Emulated instructions\<close>

definition get_insn_opcode :: "'m user_ops \<Rightarrow> 'm cpu \<Rightarrow> 'm cpu \<times> u32 option" where
  "get_insn_opcode U s = (case get_user U (umem (proc s)) (exception_epc (proc s)) of
     Some opcode \<Rightarrow> (s, Some opcode) | None \<Rightarrow> (force_signal SIGSEGV s, None))"

text \<open>
  The masks of the file pick the fields of \<^verbatim>\<open>inst.h\<close>. The register is written after \<^verbatim>\<open>compute_return_epc\<close>, whose result
  is not looked at.
\<close>

definition return_with :: "'m user_ops \<Rightarrow> 5 word \<Rightarrow> u32 \<Rightarrow> 'm cpu \<Rightarrow> 'm cpu" where
  "return_with U rt v s = s\<lparr>proc := set_reg rt v (fst (skip_epc U (proc s)))\<rparr>"

text \<open>
  The emulated \<^verbatim>\<open>ll\<close> loads the word, then sets the two variables with preemption disabled, then goes on behind the instruction. The emulated \<^verbatim>\<open>sc\<close>
  tests the variables with preemption disabled, and stores with preemption enabled again: the access to user memory may also fault and sleep. The
  steps are definitions of their own, so that other tasks can run between them.
\<close>

definition llsc_addr :: "u32 \<Rightarrow> 'm cpu \<Rightarrow> u32" where
  "llsc_addr opcode s = regs (proc s) (MIPSInst_RS opcode) + MIPSInst_SIMM opcode"

definition ll_mark :: "'m cpu \<Rightarrow> 'm cpu" where
  "ll_mark s = s\<lparr>ll_bit := if ll_task s = None \<or> ll_task s = Some (current s) then 1 else 0, ll_task := Some (current s)\<rparr>"

definition simulate_ll :: "'m user_ops \<Rightarrow> u32 \<Rightarrow> 'm cpu \<Rightarrow> 'm cpu" where
  "simulate_ll U opcode s =
     (let vaddr = llsc_addr opcode s
      in if vaddr AND 3 \<noteq> 0 then force_signal SIGBUS s
         else case get_user U (umem (proc s)) vaddr of
           None \<Rightarrow> force_signal SIGSEGV s
         | Some v \<Rightarrow> return_with U (MIPSInst_RT opcode) v (ll_mark s))"

definition sc_test :: "'m cpu \<Rightarrow> bool" where
  "sc_test s \<longleftrightarrow> \<not> (ll_bit s = 0 \<or> ll_task s \<noteq> Some (current s))"

definition sc_store :: "'m user_ops \<Rightarrow> u32 \<Rightarrow> u32 \<Rightarrow> 'm cpu \<Rightarrow> 'm cpu" where
  "sc_store U opcode vaddr s =
     (let reg = MIPSInst_RT opcode
      in case put_user U (umem (proc s)) vaddr (regs (proc s) reg) of
           None \<Rightarrow> force_signal SIGSEGV s
         | Some m \<Rightarrow> return_with U reg 1 (s\<lparr>proc := (proc s)\<lparr>umem := m\<rparr>\<rparr>))"

definition simulate_sc :: "'m user_ops \<Rightarrow> u32 \<Rightarrow> 'm cpu \<Rightarrow> 'm cpu" where
  "simulate_sc U opcode s =
     (let vaddr = llsc_addr opcode s
      in if vaddr AND 3 \<noteq> 0 then force_signal SIGBUS s
         else if \<not> sc_test s then return_with U (MIPSInst_RT opcode) 0 s
         else sc_store U opcode vaddr s)"

definition simulate_llsc :: "'m user_ops \<Rightarrow> 'm cpu \<Rightarrow> 'm cpu \<times> int" where
  "simulate_llsc U s = (case get_insn_opcode U s of
     (s, None) \<Rightarrow> (s, - EFAULT)
   | (s, Some opcode) \<Rightarrow>
       if MIPSInst_OPCODE opcode = ll_op then (simulate_ll U opcode s, 0)
       else if MIPSInst_OPCODE opcode = sc_op then (simulate_sc U opcode s, 0)
       else (s, - EFAULT))"

definition simulate_rdhwr :: "'m user_ops \<Rightarrow> 'm cpu \<Rightarrow> 'm cpu \<times> int" where
  "simulate_rdhwr U s = (case get_insn_opcode U s of
     (s, None) \<Rightarrow> (s, - EFAULT)
   | (s, Some opcode) \<Rightarrow>
       let (p, err) = skip_epc U (proc s); s = s\<lparr>proc := p\<rparr>
       in if err \<noteq> 0 then (s, - EFAULT)
          else if MIPSInst_OPCODE opcode = 0x1f \<and> MIPSInst_FUNC opcode = 0x3b then
            if MIPSInst_RD opcode = 29 then (s\<lparr>proc := set_reg (MIPSInst_RT opcode) (tp_value s) p\<rparr>, 0)
            else (s, - EFAULT)
          else (s, - EFAULT))"

section \<open>The handlers\<close>

definition do_ov :: "'m cpu \<Rightarrow> 'm cpu option" where
  "do_ov s = map_option (\<lambda>s. force_sig_info SIGFPE FPE_INTOVF (cp0_epc (proc s)) s) (die_if_kernel s)"

definition do_fpe :: "'m user_ops \<Rightarrow> u32 \<Rightarrow> 'm cpu \<Rightarrow> 'm cpu option" where
  "do_fpe U csr s = map_option (\<lambda>s.
     if csr AND FPU_CSR_UNI_X \<noteq> 0 then
       let s = lose_fpu (save_fp s);
           (p, sig) = fpu_emulator_cop1Handler U True (proc s);
           s = own_fpu (s\<lparr>proc := p\<rparr>);
           s = s\<lparr>proc := (proc s)\<lparr>fcr31 := fcr31 (proc s) AND NOT FPU_CSR_ALL_X\<rparr>\<rparr>;
           s = restore_fp s
       in if sig \<noteq> 0 then force_signal sig s else s
     else force_signal SIGFPE s) (die_if_kernel s)"

text \<open>The code of a \<^verbatim>\<open>break\<close>, which some assemblers put ten bits higher.\<close>

definition break_code :: "u32 \<Rightarrow> u32" where
  "break_code opcode = (let bcode = drop_bit 6 opcode AND mask 20 in if bcode < 2 ^ 10 then push_bit 10 bcode else bcode)"

definition trap_code :: "u32 \<Rightarrow> u32" where
  "trap_code opcode = (if MIPSInst_OPCODE opcode = 0 then drop_bit 6 opcode AND mask 10 else 0)"

definition do_bp :: "'m user_ops \<Rightarrow> 'm cpu \<Rightarrow> 'm cpu option" where
  "do_bp U s = map_option (\<lambda>s. case get_insn_opcode U s of
     (s, None) \<Rightarrow> s
   | (s, Some opcode) \<Rightarrow>
       let bcode = break_code opcode
       in if bcode = push_bit 10 BRK_OVERFLOW \<or> bcode = push_bit 10 BRK_DIVZERO then
            force_sig_info SIGFPE (if bcode = push_bit 10 BRK_DIVZERO then FPE_INTDIV else FPE_INTOVF) (cp0_epc (proc s)) s
          else force_signal SIGTRAP s) (die_if_kernel s)"

definition do_tr :: "'m user_ops \<Rightarrow> 'm cpu \<Rightarrow> 'm cpu option" where
  "do_tr U s = map_option (\<lambda>s. case get_insn_opcode U s of
     (s, None) \<Rightarrow> s
   | (s, Some opcode) \<Rightarrow>
       let tcode = trap_code opcode
       in if tcode = BRK_OVERFLOW \<or> tcode = BRK_DIVZERO then
            force_sig_info SIGFPE (if tcode = BRK_DIVZERO then FPE_INTDIV else FPE_INTOVF) (cp0_epc (proc s)) s
          else force_signal SIGTRAP s) (die_if_kernel s)"

text \<open>The part \<^verbatim>\<open>do_ri\<close> and \<^verbatim>\<open>do_cpu\<close> share; the result is whether the handler returns.\<close>

definition simulate_insn :: "'m user_ops \<Rightarrow> 'm cpu \<Rightarrow> 'm cpu \<times> bool" where
  "simulate_insn U s =
     (let (s, r) = (if \<not> cpu_has_llsc s then simulate_llsc U s else (s, - EFAULT))
      in if r = 0 then (s, True) else let (s, r) = simulate_rdhwr U s in (s, r = 0))"

definition do_ri :: "'m user_ops \<Rightarrow> 'm cpu \<Rightarrow> 'm cpu option" where
  "do_ri U s = map_option (\<lambda>s. let (s, returns) = simulate_insn U s in if returns then s else force_signal SIGILL s) (die_if_kernel s)"

definition do_cpu :: "'m user_ops \<Rightarrow> 'm cpu \<Rightarrow> 'm cpu option" where
  "do_cpu U s = map_option (\<lambda>s.
     let cpid = drop_bit 28 (cp0_cause (proc s)) AND 3
     in if cpid = 0 then let (s, returns) = simulate_insn U s in if returns then s else force_signal SIGILL s
        else if cpid = 1 then
          let s = own_fpu s;
              s = (if used_math s then restore_fp s else (init_fpu s)\<lparr>used_math := True\<rparr>)
          in if cpu_has_fpu s then s
             else let (p, sig) = fpu_emulator_cop1Handler U False (proc s); s = s\<lparr>proc := p\<rparr>
                  in if sig \<noteq> 0 then force_signal sig s else s
        else force_signal SIGILL s) (die_if_kernel s)"

section \<open>Load linked and store conditional between tasks\<close>

text \<open>
  A context switch (\<^verbatim>\<open>resume\<close> in \<^verbatim>\<open>r4k_switch.S\<close>) goes on with the registers and the memory of another task. It clears \<^verbatim>\<open>ll_bit\<close> in a
  kernel without \<^verbatim>\<open>CONFIG_CPU_HAS_LLSC\<close>. With the option set, as for the processor of this distribution, the bit is left alone: every
  processor the kernel is built for then has the instructions, and the emulation is not reached.
\<close>

definition resume_task :: "nat \<Rightarrow> 'm emu \<Rightarrow> 'm cpu \<Rightarrow> 'm cpu" where
  "resume_task t p s = s\<lparr>ll_bit := if config_llsc s then ll_bit s else 0, current := t, proc := p\<rparr>"

text \<open>
  What happens on the processor, with the task that does it. \<open>Ll\<close> and \<open>Sc\<close> are the emulations taken as a whole; the next five are their steps: the word \<open>v\<close> is
  loaded from address \<open>a\<close>, the variables are set, the test lets the store to \<open>a\<close> through, it refuses the store, and the store is done. \<open>Run\<close> is anything else
  the task does, also an access that faults, and may change registers and memory at will.
\<close>

datatype event = Ll nat u32 u32 | Sc nat | Ll_load nat u32 u32 | Ll_mark nat | Sc_pass nat u32 | Sc_refuse nat | Sc_store nat u32 | Run nat | Switch nat

fun by_task :: "event \<Rightarrow> nat option" where
  "by_task (Ll t a v) = Some t"
| "by_task (Sc t) = Some t"
| "by_task (Ll_load t a v) = Some t"
| "by_task (Ll_mark t) = Some t"
| "by_task (Sc_pass t a) = Some t"
| "by_task (Sc_refuse t) = Some t"
| "by_task (Sc_store t a) = Some t"
| "by_task (Run t) = Some t"
| "by_task (Switch t) = None"

fun is_ll :: "event \<Rightarrow> bool" where
  "is_ll (Ll t a v) = True"
| "is_ll _ = False"

text \<open>The runs in which no task is switched in the middle of an emulation.\<close>

inductive cpu_run :: "'m user_ops \<Rightarrow> 'm cpu \<Rightarrow> event list \<Rightarrow> 'm cpu \<Rightarrow> bool" for U s0 where
  run_start: "cpu_run U s0 [] s0"
| run_ll: "cpu_run U s0 es s \<Longrightarrow> a = regs (proc s) (MIPSInst_RS opcode) + MIPSInst_SIMM opcode \<Longrightarrow> a AND 3 = 0 \<Longrightarrow>
    get_user U (umem (proc s)) a = Some v \<Longrightarrow> cpu_run U s0 (es @ [Ll (current s) a v]) (simulate_ll U opcode s)"
| run_sc: "cpu_run U s0 es s \<Longrightarrow> cpu_run U s0 (es @ [Sc (current s)]) (simulate_sc U opcode s)"
| run_other: "cpu_run U s0 es s \<Longrightarrow> cpu_run U s0 (es @ [Run (current s)]) (s\<lparr>proc := p\<rparr>)"
| run_switch: "cpu_run U s0 es s \<Longrightarrow> cpu_run U s0 (es @ [Switch t]) (resume_task t p s)"

text \<open>
  All runs: a switch may come between any two steps, wherever preemption is enabled or an access sleeps. \<open>h t\<close> is where task \<open>t\<close> stands
  in an emulation, with the local variables it has kept.
\<close>

datatype in_llsc = Loaded u32 u32 | Marked u32 u32 | Granted u32 u32

inductive llsc_run :: "'m user_ops \<Rightarrow> 'm cpu \<Rightarrow> event list \<Rightarrow> (nat \<Rightarrow> in_llsc option) \<Rightarrow> 'm cpu \<Rightarrow> bool" for U s0 where
  at_start: "llsc_run U s0 [] Map.empty s0"
| at_load: "llsc_run U s0 es h s \<Longrightarrow> h (current s) = None \<Longrightarrow> llsc_addr opcode s AND 3 = 0 \<Longrightarrow>
    get_user U (umem (proc s)) (llsc_addr opcode s) = Some v \<Longrightarrow>
    llsc_run U s0 (es @ [Ll_load (current s) (llsc_addr opcode s) v]) (h(current s \<mapsto> Loaded opcode v)) s"
| at_mark: "llsc_run U s0 es h s \<Longrightarrow> h (current s) = Some (Loaded opcode v) \<Longrightarrow>
    llsc_run U s0 (es @ [Ll_mark (current s)]) (h(current s \<mapsto> Marked opcode v)) (ll_mark s)"
| at_done: "llsc_run U s0 es h s \<Longrightarrow> h (current s) = Some (Marked opcode v) \<Longrightarrow>
    llsc_run U s0 (es @ [Run (current s)]) (h(current s := None)) (return_with U (MIPSInst_RT opcode) v s)"
| at_pass: "llsc_run U s0 es h s \<Longrightarrow> h (current s) = None \<Longrightarrow> llsc_addr opcode s AND 3 = 0 \<Longrightarrow> sc_test s \<Longrightarrow>
    llsc_run U s0 (es @ [Sc_pass (current s) (llsc_addr opcode s)]) (h(current s \<mapsto> Granted opcode (llsc_addr opcode s))) s"
| at_refuse: "llsc_run U s0 es h s \<Longrightarrow> h (current s) = None \<Longrightarrow> llsc_addr opcode s AND 3 = 0 \<Longrightarrow> \<not> sc_test s \<Longrightarrow>
    llsc_run U s0 (es @ [Sc_refuse (current s)]) h (return_with U (MIPSInst_RT opcode) 0 s)"
| at_store: "llsc_run U s0 es h s \<Longrightarrow> h (current s) = Some (Granted opcode a) \<Longrightarrow>
    put_user U (umem (proc s)) a (regs (proc s) (MIPSInst_RT opcode)) \<noteq> None \<Longrightarrow>
    llsc_run U s0 (es @ [Sc_store (current s) a]) (h(current s := None)) (sc_store U opcode a s)"
| at_fault: "llsc_run U s0 es h s \<Longrightarrow> h (current s) = Some (Granted opcode a) \<Longrightarrow>
    put_user U (umem (proc s)) a (regs (proc s) (MIPSInst_RT opcode)) = None \<Longrightarrow>
    llsc_run U s0 (es @ [Run (current s)]) (h(current s := None)) (sc_store U opcode a s)"
| at_other: "llsc_run U s0 es h s \<Longrightarrow> h (current s) = None \<Longrightarrow> llsc_run U s0 (es @ [Run (current s)]) h (s\<lparr>proc := p\<rparr>)"
| at_switch: "llsc_run U s0 es h s \<Longrightarrow> llsc_run U s0 (es @ [Switch t]) h (resume_task t p s)"

lemma ll_vars:
  assumes "a = regs (proc s) (MIPSInst_RS opcode) + MIPSInst_SIMM opcode" and "a AND 3 = 0" and "get_user U (umem (proc s)) a = Some v"
  shows "ll_bit (simulate_ll U opcode s) = (if ll_task s = None \<or> ll_task s = Some (current s) then 1 else 0)"
    and "ll_task (simulate_ll U opcode s) = Some (current s)" and "current (simulate_ll U opcode s) = current s"
  using assms by (simp_all add: simulate_ll_def ll_mark_def llsc_addr_def return_with_def Let_def)

lemma step_vars [simp]:
  "ll_bit (return_with U r v s) = ll_bit s" "ll_task (return_with U r v s) = ll_task s" "current (return_with U r v s) = current s"
  "config_llsc (return_with U r v s) = config_llsc s"
  "ll_bit (sc_store U opcode a s) = ll_bit s" "ll_task (sc_store U opcode a s) = ll_task s" "current (sc_store U opcode a s) = current s"
  "config_llsc (sc_store U opcode a s) = config_llsc s"
  by (simp_all add: sc_store_def return_with_def force_signal_def Let_def split: option.split)

lemma sc_vars:
  "ll_bit (simulate_sc U opcode s) = ll_bit s" "ll_task (simulate_sc U opcode s) = ll_task s" "current (simulate_sc U opcode s) = current s"
  by (simp_all add: simulate_sc_def force_signal_def Let_def)

text \<open>
  The events between two steps of one emulation by task \<open>t\<close>: none, or a context switch and then events of other tasks.
\<close>

definition window :: "nat \<Rightarrow> event list \<Rightarrow> bool" where
  "window t q \<longleftrightarrow> (q = [] \<or> (\<exists>u r. q = Switch u # r)) \<and> (\<forall>e\<in>set q. by_task e \<noteq> Some t)"

text \<open>Task \<open>t\<close> has loaded linked and set the variables, and since then there was no context switch and no other task did anything.\<close>

definition linked :: "nat \<Rightarrow> event list \<Rightarrow> bool" where
  "linked t es \<longleftrightarrow> (\<exists>p a v w q. es = p @ Ll_load t a v # w @ Ll_mark t # q \<and> window t w \<and> (\<forall>e\<in>set q. by_task e = Some t))"

lemma linked_snoc: "linked t es \<Longrightarrow> by_task e = Some t \<Longrightarrow> linked t (es @ [e])"
proof -
  assume "linked t es" and e: "by_task e = Some t"
  then obtain p a v w q where "es = p @ Ll_load t a v # w @ Ll_mark t # q" "window t w" "\<forall>e\<in>set q. by_task e = Some t" unfolding linked_def by blast
  then have "es @ [e] = p @ Ll_load t a v # w @ Ll_mark t # (q @ [e]) \<and> window t w \<and> (\<forall>e\<in>set (q @ [e]). by_task e = Some t)" using e by auto
  then show ?thesis unfolding linked_def by blast
qed

text \<open>Since event \<open>e\<close>, task \<open>t\<close> has done nothing.\<close>

definition waits :: "nat \<Rightarrow> nat \<Rightarrow> event \<Rightarrow> (event list \<Rightarrow> bool) \<Rightarrow> event list \<Rightarrow> bool" where
  "waits t c e P es \<longleftrightarrow> (\<exists>p q. es = p @ e # q \<and> P p \<and> window t q \<and> (q = [] \<longrightarrow> c = t))"

lemma waits_start: "P es \<Longrightarrow> waits t t e P (es @ [e])"
  unfolding waits_def window_def by (intro exI [of _ es] exI [of _ "[]"]) simp

lemma waits_snoc:
  assumes "waits t c e P es" and "by_task e' = Some c" and "c \<noteq> t"
  shows "waits t c e P (es @ [e'])"
proof -
  obtain p q where q: "es = p @ e # q" "P p" "window t q" "q \<noteq> []" using assms(1,3) unfolding waits_def by blast
  then have "es @ [e'] = p @ e # (q @ [e']) \<and> P p \<and> window t (q @ [e'])" using assms(2,3) by (auto simp: window_def)
  then show ?thesis unfolding waits_def by blast
qed

lemma waits_switch: "waits t c e P es \<Longrightarrow> waits t d e P (es @ [Switch u])"
proof -
  assume "waits t c e P es"
  then obtain p q where q: "es = p @ e # q" "P p" "window t q" unfolding waits_def by blast
  then have "es @ [Switch u] = p @ e # (q @ [Switch u]) \<and> P p \<and> window t (q @ [Switch u])" by (cases q) (auto simp: window_def)
  then show ?thesis unfolding waits_def by blast
qed

text \<open>What the variables and the places of the tasks say about the past.\<close>

definition llsc_inv :: "event list \<Rightarrow> (nat \<Rightarrow> in_llsc option) \<Rightarrow> 'm cpu \<Rightarrow> bool" where
  "llsc_inv es h s \<longleftrightarrow> \<not> config_llsc s \<and> (ll_bit s \<noteq> 0 \<longrightarrow> linked (current s) es) \<and>
     (\<forall>t opcode v. h t = Some (Loaded opcode v) \<longrightarrow> (\<exists>a. waits t (current s) (Ll_load t a v) (\<lambda>_. True) es)) \<and>
     (\<forall>t opcode a. h t = Some (Granted opcode a) \<longrightarrow> waits t (current s) (Sc_pass t a) (linked t) es)"

lemma inv_local:
  assumes "llsc_inv es h s" and "by_task e = Some (current s)" and "current s' = current s" and "config_llsc s' = config_llsc s"
    and "ll_bit s' = ll_bit s" and "\<And>t. t \<noteq> current s \<Longrightarrow> h' t = h t"
    and "\<And>opcode v. h' (current s) = Some (Loaded opcode v) \<Longrightarrow> \<exists>a. e = Ll_load (current s) a v"
    and "\<And>opcode a. h' (current s) = Some (Granted opcode a) \<Longrightarrow> e = Sc_pass (current s) a \<and> linked (current s) es"
  shows "llsc_inv (es @ [e]) h' s'"
  unfolding llsc_inv_def
proof (intro conjI allI impI)
  fix t opcode v assume l: "h' t = Some (Loaded opcode v)"
  show "\<exists>a. waits t (current s') (Ll_load t a v) (\<lambda>_. True) (es @ [e])"
  proof (cases "t = current s")
    case True
    then show ?thesis using l assms(3,7) waits_start by metis
  next
    case False
    then show ?thesis using l assms(1-3,6) waits_snoc unfolding llsc_inv_def by metis
  qed
next
  fix t opcode a assume l: "h' t = Some (Granted opcode a)"
  show "waits t (current s') (Sc_pass t a) (linked t) (es @ [e])"
  proof (cases "t = current s")
    case True
    then show ?thesis using l assms(3,8) waits_start by metis
  next
    case False
    then show ?thesis using l assms(1-3,6) waits_snoc unfolding llsc_inv_def by metis
  qed
qed (use assms(1-5) linked_snoc in \<open>auto simp: llsc_inv_def\<close>)

lemma inv_mark:
  assumes "llsc_inv es h s" and "h (current s) = Some (Loaded opcode v)"
  shows "llsc_inv (es @ [Ll_mark (current s)]) (h(current s \<mapsto> Marked opcode v)) (ll_mark s)"
proof -
  let ?t = "current s"
  obtain a p q where "es = p @ Ll_load ?t a v # q" "window ?t q" using assms unfolding llsc_inv_def waits_def by blast
  then have "es @ [Ll_mark ?t] = p @ Ll_load ?t a v # q @ Ll_mark ?t # [] \<and> window ?t q \<and> (\<forall>e\<in>set []. by_task e = Some ?t)" by simp
  then have "linked ?t (es @ [Ll_mark ?t])" unfolding linked_def by blast
  moreover have "llsc_inv (es @ [Ll_mark ?t]) (h(?t \<mapsto> Marked opcode v)) s" by (rule inv_local [OF assms(1)]) auto
  ultimately show ?thesis by (simp add: llsc_inv_def ll_mark_def)
qed

lemma inv_switch: "llsc_inv es h s \<Longrightarrow> llsc_inv (es @ [Switch t]) h (resume_task t p s)"
  unfolding llsc_inv_def resume_task_def using waits_switch by simp metis

lemma llsc_run_inv: "llsc_run U s0 es h s \<Longrightarrow> ll_bit s0 = 0 \<Longrightarrow> \<not> config_llsc s0 \<Longrightarrow> llsc_inv es h s"
proof (induction rule: llsc_run.induct)
  case at_start
  then show ?case by (simp add: llsc_inv_def)
next
  case (at_pass es h s opcode)
  then have "linked (current s) es" by (simp add: llsc_inv_def sc_test_def)
  then show ?case using at_pass by (intro inv_local [of es h s]) auto
next
  case (at_mark es h s opcode v)
  then show ?case using inv_mark by blast
next
  case (at_switch es h s t p)
  then show ?case using inv_switch by blast
next
  case (at_load es h s opcode v)
  then show ?case by (intro inv_local [of es h s]) auto
next
  case (at_done es h s opcode v)
  then show ?case by (intro inv_local [of es h s]) auto
next
  case (at_refuse es h s opcode)
  then show ?case by (intro inv_local [of es h s]) auto
next
  case (at_store es h s opcode a)
  then show ?case by (intro inv_local [of es h s]) auto
next
  case (at_fault es h s opcode a)
  then show ?case by (intro inv_local [of es h s]) auto
next
  case (at_other es h s p)
  then show ?case by (intro inv_local [of es h s]) auto
qed

text \<open>The runs without a switch in the middle of an emulation are among them.\<close>

lemma cpu_run_steps: "cpu_run U s0 es s \<Longrightarrow> \<exists>es'. llsc_run U s0 es' Map.empty s"
proof (induction rule: cpu_run.induct)
  case (run_ll es s a opcode v)
  then obtain es' where r: "llsc_run U s0 es' Map.empty s" by blast
  have a: "llsc_addr opcode s = a" using run_ll.hyps(2) by (simp add: llsc_addr_def)
  have "simulate_ll U opcode s = return_with U (MIPSInst_RT opcode) v (ll_mark s)" using run_ll.hyps by (simp add: simulate_ll_def a)
  moreover have "current (ll_mark s) = current s" by (simp add: ll_mark_def)
  ultimately show ?case
    using at_done [OF at_mark [OF at_load [OF r, of opcode v]], of opcode v opcode v] run_ll.hyps by (auto simp: a)
next
  case (run_sc es s opcode)
  then obtain es' where r: "llsc_run U s0 es' Map.empty s" by blast
  consider "llsc_addr opcode s AND 3 \<noteq> 0" | "llsc_addr opcode s AND 3 = 0" "\<not> sc_test s" | "llsc_addr opcode s AND 3 = 0" "sc_test s" by blast
  then show ?case
  proof cases
    case 1
    then show ?thesis using at_other [OF r, of "force_sig SIGBUS (proc s)"] by (auto simp: simulate_sc_def force_signal_def)
  next
    case 2
    then show ?thesis using at_refuse [OF r, of opcode] by (auto simp: simulate_sc_def)
  next
    case 3
    then have "simulate_sc U opcode s = sc_store U opcode (llsc_addr opcode s) s" by (simp add: simulate_sc_def)
    then show ?thesis using at_store [OF at_pass [OF r, of opcode], of opcode "llsc_addr opcode s"]
      at_fault [OF at_pass [OF r, of opcode], of opcode "llsc_addr opcode s"] 3 by fastforce
  qed
qed (use at_start at_other at_switch in \<open>fastforce+\<close>)

text \<open>
  The window between the test and the store is real: task 1 loads 7 and passes the test, task 2 writes 9 to the word, and then task 1 stores its 5
  over it and is told that the store conditional has succeeded.
\<close>

definition llsc_start :: "(u32 \<rightharpoonup> u32) cpu" where
  "llsc_start = cpu_start ((start 0x400000 [0x10000 \<mapsto> 7])\<lparr>regs := (\<lambda>r. 0)(2 := 0x10000, 8 := 5)\<rparr>)"

lemma sc_window:
  "\<exists>h s. llsc_run word_ops llsc_start [Ll_load 1 0x10000 7, Ll_mark 1, Run 1, Sc_pass 1 0x10000, Switch 2, Run 2, Switch 1, Sc_store 1 0x10000] h s \<and>
     umem (proc s) 0x10000 = Some 5 \<and> regs (proc s) 8 = 1"
proof -
  define s1 where "s1 = ll_mark llsc_start"
  define s2 where "s2 = return_with word_ops 9 7 s1"
  define s3 where "s3 = resume_task 2 (start 0x500000 [0x10000 \<mapsto> 7]) s2"
  define s4 where "s4 = s3\<lparr>proc := start 0x500004 [0x10000 \<mapsto> 9]\<rparr>"
  define s5 where "s5 = resume_task 1 ((proc s2)\<lparr>umem := [0x10000 \<mapsto> 9]\<rparr>) s4"
  define s6 where "s6 = sc_store word_ops 0xe0480000 0x10000 s5"
  note d = s6_def s5_def s4_def s3_def s2_def s1_def
  have c: "current llsc_start = 1" "current s1 = 1" "current s2 = 1" "current s3 = 2" "current s5 = 1"
    "llsc_addr 0xc0490000 llsc_start = 0x10000" "llsc_addr 0xe0480000 s2 = 0x10000" "sc_test s2"
    "MIPSInst_RT 0xc0490000 = 9" "get_user word_ops (umem (proc llsc_start)) 0x10000 = Some 7"
    "put_user word_ops (umem (proc s5)) 0x10000 (regs (proc s5) (MIPSInst_RT 0xe0480000)) \<noteq> None"
    unfolding d by code_simp+
  have "llsc_run word_ops llsc_start [Ll_load 1 0x10000 7] [1 \<mapsto> Loaded 0xc0490000 7] llsc_start"
    using at_load [OF at_start [of word_ops llsc_start], of "0xc0490000" 7] c by simp
  from at_mark [OF this, of "0xc0490000" 7]
  have "llsc_run word_ops llsc_start [Ll_load 1 0x10000 7, Ll_mark 1] [1 \<mapsto> Marked 0xc0490000 7] s1" using c by (simp add: s1_def)
  from at_done [OF this, of "0xc0490000" 7]
  have "llsc_run word_ops llsc_start [Ll_load 1 0x10000 7, Ll_mark 1, Run 1] Map.empty s2" using c by (simp add: s2_def)
  from at_pass [OF this, of "0xe0480000"]
  have "llsc_run word_ops llsc_start [Ll_load 1 0x10000 7, Ll_mark 1, Run 1, Sc_pass 1 0x10000] [1 \<mapsto> Granted 0xe0480000 0x10000] s2" using c by simp
  from at_switch [OF at_other [OF at_switch [OF this, of 2 "start 0x500000 [0x10000 \<mapsto> 7]"], of "start 0x500004 [0x10000 \<mapsto> 9]"], of 1 "(proc s2)\<lparr>umem := [0x10000 \<mapsto> 9]\<rparr>"]
  have "llsc_run word_ops llsc_start [Ll_load 1 0x10000 7, Ll_mark 1, Run 1, Sc_pass 1 0x10000, Switch 2, Run 2, Switch 1] [1 \<mapsto> Granted 0xe0480000 0x10000] s5"
    using c(4) by (simp del: One_nat_def flip: s3_def s4_def s5_def)
  from at_store [OF this, of "0xe0480000" "0x10000"]
  have "llsc_run word_ops llsc_start [Ll_load 1 0x10000 7, Ll_mark 1, Run 1, Sc_pass 1 0x10000, Switch 2, Run 2, Switch 1, Sc_store 1 0x10000] Map.empty s6"
    using c by (simp add: s6_def)
  moreover have "umem (proc s6) 0x10000 = Some 5" "regs (proc s6) 8 = 1" unfolding d by code_simp+
  ultimately show ?thesis by blast
qed

text \<open>
  C20. What the emulated pair promises between tasks, in a kernel whose context switch clears \<^verbatim>\<open>ll_bit\<close> (built without \<^verbatim>\<open>CONFIG_CPU_HAS_LLSC\<close>), for every
  interleaving of the steps of the emulations, with context switches anywhere between them: a store
  conditional stores only after its task has loaded a word, set the variables and passed the test, and between setting the variables and the test there was no
  context switch and no other task did anything. Other tasks can have run only in two windows inside the emulations, between the
  load and the setting of the variables and between the test and the store, and each window is empty or begins with a context switch. So
  load and store are atomic when no task is switched in the middle of an emulation.
\<close>

theorem sc_needs_ll:
  assumes "llsc_run U s0 (es @ [Sc_store t a]) h s" and "ll_bit s0 = 0" and "\<not> config_llsc s0"
  shows "\<exists>p b v w1 q w2. es = p @ [Ll_load t b v] @ w1 @ [Ll_mark t] @ q @ [Sc_pass t a] @ w2 \<and>
    window t w1 \<and> (\<forall>e\<in>set q. by_task e = Some t) \<and> window t w2"
  using assms(1)
proof (cases rule: llsc_run.cases)
  case (at_store es' h' s' opcode a')
  then have run: "llsc_run U s0 es h' s'" "current s' = t" "h' t = Some (Granted opcode a)" by auto
  then have "waits t (current s') (Sc_pass t a) (linked t) es" using llsc_run_inv [OF run(1) assms(2,3)] by (simp add: llsc_inv_def)
  then obtain p w2 where p: "es = p @ Sc_pass t a # w2" "linked t p" "window t w2" unfolding waits_def by blast
  then show ?thesis unfolding linked_def by (metis append.assoc append_Cons append_Nil)
qed simp_all

theorem sc_needs_ll_witness:
  "\<exists>p b v w1 q w2. [Ll_load 1 0x10000 7, Ll_mark 1, Run 1, Sc_pass 1 0x10000, Switch 2, Run 2, Switch 1] =
     p @ [Ll_load 1 b v] @ w1 @ [Ll_mark 1] @ q @ [Sc_pass 1 0x10000] @ w2 \<and> window 1 w1 \<and> (\<forall>e\<in>set q. by_task e = Some 1) \<and> window 1 w2"
proof -
  obtain h s where "llsc_run word_ops llsc_start ([Ll_load 1 0x10000 7, Ll_mark 1, Run 1, Sc_pass 1 0x10000, Switch 2, Run 2, Switch 1] @ [Sc_store 1 0x10000]) h s"
    using sc_window by auto
  then show ?thesis by (rule sc_needs_ll) (simp_all add: llsc_start_def cpu_start_def)
qed

text \<open>Progress.\<close>

lemma ll_counts:
  assumes "cpu_run U s0 es s" and "\<forall>e\<in>set es. by_task e = Some t" and "current s0 = t"
  shows "current s = t \<and> (1 \<le> length (filter is_ll es) \<longrightarrow> ll_task s = Some t) \<and> (2 \<le> length (filter is_ll es) \<longrightarrow> ll_bit s \<noteq> 0)"
  using assms
proof (induction rule: cpu_run.induct)
  case (run_ll es s a opcode v)
  then show ?case using ll_vars [OF run_ll.hyps(2-4)] by auto
qed (auto simp: sc_vars)

text \<open>
  C37. Progress of the emulated pair: once a task has loaded linked twice without a context switch, its next store conditional, if
  none comes in its middle either, succeeds, whatever was left from other tasks: it stores and returns 1 (when the address is aligned and writable).
\<close>

theorem sc_succeeds:
  assumes "cpu_run U s0 es s" and "\<forall>e\<in>set es. by_task e = Some (current s0)" and "2 \<le> length (filter is_ll es)"
    and "a = regs (proc s) (MIPSInst_RS opcode) + MIPSInst_SIMM opcode" and "a AND 3 = 0"
    and "put_user U (umem (proc s)) a (regs (proc s) (MIPSInst_RT opcode)) = Some m"
  shows "simulate_sc U opcode s = return_with U (MIPSInst_RT opcode) 1 (s\<lparr>proc := (proc s)\<lparr>umem := m\<rparr>\<rparr>)"
  using ll_counts [OF assms(1,2) refl] assms(3-6) by (simp add: simulate_sc_def llsc_addr_def sc_test_def sc_store_def)

theorem sc_succeeds_witness:
  "let s = simulate_ll word_ops 0xc0490000 (simulate_ll word_ops 0xc0490000
       ((cpu_start ((start 0x400000 [0x10000 \<mapsto> 7])\<lparr>regs := (\<lambda>r. 0)(2 := 0x10000, 8 := 5)\<rparr>))\<lparr>ll_task := Some 2\<rparr>))
   in regs (proc (simulate_sc word_ops 0xe0480000 s)) 8 = 1"
proof -
  let ?t = "(cpu_start ((start 0x400000 [0x10000 \<mapsto> 7])\<lparr>regs := (\<lambda>r. 0)(2 := 0x10000, 8 := 5)\<rparr>))\<lparr>ll_task := Some 2\<rparr>"
  let ?s1 = "simulate_ll word_ops 0xc0490000 ?t" and ?s = "simulate_ll word_ops 0xc0490000 (simulate_ll word_ops 0xc0490000 ?t)"
  have i: "MIPSInst_RS 0xc0490000 = 2" "MIPSInst_SIMM 0xc0490000 = 0" "MIPSInst_RT 0xe0480000 = 8" by code_simp+
  have "cpu_run word_ops ?t ([] @ [Ll (current ?t) 0x10000 7]) ?s1"
    by (rule run_ll [OF run_start]) (simp_all add: i cpu_start_def start_def get_user_def access_ok_def word_ops_def word_load_def)
  then have "cpu_run word_ops ?t (([] @ [Ll (current ?t) 0x10000 7]) @ [Ll (current ?s1) 0x10000 7]) ?s"
    by (rule run_ll) code_simp+
  moreover have c: "current ?t = 1" "current ?s1 = 1" by code_simp+
  ultimately have r: "cpu_run word_ops ?t [Ll 1 0x10000 7, Ll 1 0x10000 7] ?s" by simp
  have p: "0x10000 = regs (proc ?s) (MIPSInst_RS 0xe0480000) + MIPSInst_SIMM 0xe0480000" "(0x10000 :: u32) AND 3 = 0" by code_simp+
  have v: "regs (proc ?s) 8 = 5" "umem (proc ?s) 0x10000 = Some 7" by code_simp+
  have g: "put_user word_ops M 0x10000 5 = Some (M(0x10000 \<mapsto> 5))" if "M 0x10000 = Some 7" for M
    using that by (simp add: put_user_def access_ok_def word_ops_def word_store_def)
  have u: "put_user word_ops (umem (proc ?s)) 0x10000 (regs (proc ?s) (MIPSInst_RT 0xe0480000)) = Some ((umem (proc ?s))(0x10000 \<mapsto> 5))"
    unfolding i(3) v(1) by (rule g, rule v(2))
  show ?thesis using sc_succeeds [OF r _ _ p u] c by (simp add: Let_def return_with_def i set_reg_def)
qed

section \<open>Floating point exceptions\<close>

text \<open>
  C25. After the emulation of an operation the hardware FPU does not implement, thread context and hardware agree again on all
  sixteen double registers and on the control register, the process owns the FPU, and the control register it
  is loaded with has no cause bit set, which would trap at once in the kernel.
\<close>

theorem do_fpe_synced:
  assumes "user_mode (proc s)" and "cpu_has_fpu s" and "csr AND FPU_CSR_UNI_X \<noteq> 0"
  shows "\<exists>s'. do_fpe U csr s = Some s' \<and> hw_csr s' = fcr31 (proc s') \<and> hw_csr s' AND FPU_CSR_ALL_X = 0 \<and>
    hw_fcr31 (proc s') = Some (hw_csr s') \<and> cp0_status (proc s') AND ST0_CU1 \<noteq> 0 \<and> (\<forall>r. \<not> bit r 0 \<longrightarrow> hw_fpr s' r = fpr (proc s') r)"
proof -
  obtain p sig where h: "fpu_emulator_cop1Handler U True (proc (lose_fpu (save_fp s))) = (p, sig)" by (rule prod.exhaust)
  define s1 where "s1 = own_fpu ((lose_fpu (save_fp s))\<lparr>proc := p\<rparr>)"
  define s2 where "s2 = restore_fp (s1\<lparr>proc := (proc s1)\<lparr>fcr31 := fcr31 (proc s1) AND NOT FPU_CSR_ALL_X\<rparr>\<rparr>)"
  have f: "cpu_has_fpu s1" using assms(2) by (simp add: s1_def own_fpu_def lose_fpu_def save_fp_def)
  have "hw_fcr31 (proc s1) \<noteq> None" "cp0_status (proc s1) AND ST0_CU1 \<noteq> 0"
    using assms(2) by (simp_all add: s1_def own_fpu_def lose_fpu_def save_fp_def bit.conj_disj_distrib2)
  then have "hw_csr s2 = fcr31 (proc s2) \<and> hw_csr s2 AND FPU_CSR_ALL_X = 0 \<and> hw_fcr31 (proc s2) = Some (hw_csr s2) \<and>
      cp0_status (proc s2) AND ST0_CU1 \<noteq> 0 \<and> (\<forall>r. \<not> bit r 0 \<longrightarrow> hw_fpr s2 r = fpr (proc s2) r)"
    using f by (auto simp: s2_def restore_fp_def set_hw_csr_def and.assoc)
  moreover have "do_fpe U csr s = Some (if sig \<noteq> 0 then force_signal sig s2 else s2)"
    using assms(1,3) h by (simp add: do_fpe_def die_if_kernel_def Let_def s1_def s2_def)
  ultimately show ?thesis by (auto simp: force_signal_def force_sig_def)
qed

theorem do_fpe_synced_witness:
  "\<exists>s'. do_fpe word_ops 0x20000 (cpu_start ((start 0x400000 [0x400000 \<mapsto> 0x46041000])\<lparr>cp0_status := 0x10\<rparr>)) = Some s' \<and>
     hw_csr s' AND FPU_CSR_ALL_X = 0 \<and> hw_fcr31 (proc s') = Some (hw_csr s')"
proof -
  let ?s = "cpu_start ((start 0x400000 [0x400000 \<mapsto> 0x46041000])\<lparr>cp0_status := 0x10\<rparr>)"
  have "user_mode (proc ?s)" "cpu_has_fpu ?s" by (simp_all add: cpu_start_def start_def user_mode_def)
  from do_fpe_synced [OF this, of "0x20000" word_ops] show ?thesis by auto
qed

section \<open>Reading the thread pointer\<close>

text \<open>
  The instruction \<^verbatim>\<open>rdhwr\<close> of hardware register 29, which traps as reserved, delivers the thread pointer and the process
  goes on behind it, on processors with and without \<^verbatim>\<open>ll\<close> and \<^verbatim>\<open>sc\<close>.
\<close>

lemma rdhwr_thread_pointer:
  assumes "user_mode (proc s)" and "\<not> delay_slot (proc s)" and "get_user U (umem (proc s)) (cp0_epc (proc s)) = Some opcode"
    and "MIPSInst_OPCODE opcode = 0x1f" and "MIPSInst_FUNC opcode = 0x3b" and "MIPSInst_RD opcode = 29"
  shows "do_ri U s = Some (s\<lparr>proc := (proc s)\<lparr>regs := (regs (proc s))(MIPSInst_RT opcode := tp_value s), cp0_epc := cp0_epc (proc s) + 4\<rparr>\<rparr>)"
proof -
  have "get_insn_opcode U s = (s, Some opcode)" using assms(2,3) by (simp add: get_insn_opcode_def exception_epc_def)
  then show ?thesis using assms
    by (simp add: do_ri_def die_if_kernel_def simulate_insn_def simulate_llsc_def simulate_rdhwr_def skip_epc_def set_reg_def)
qed

text \<open>
  Any other reserved instruction ends in SIGILL, but with the program counter behind it already: \<^verbatim>\<open>simulate_rdhwr\<close> moves it before it
  looks at the instruction.
\<close>

lemma reserved_skipped:
  assumes "user_mode (proc s)" and "\<not> delay_slot (proc s)" and "get_user U (umem (proc s)) (cp0_epc (proc s)) = Some opcode"
    and "MIPSInst_OPCODE opcode \<notin> {0x1f, ll_op, sc_op}"
  shows "do_ri U s = Some (force_signal SIGILL (s\<lparr>proc := (proc s)\<lparr>cp0_epc := cp0_epc (proc s) + 4\<rparr>\<rparr>))"
proof -
  have "get_insn_opcode U s = (s, Some opcode)" using assms(2,3) by (simp add: get_insn_opcode_def exception_epc_def)
  then show ?thesis using assms
    by (simp add: do_ri_def die_if_kernel_def simulate_insn_def simulate_llsc_def simulate_rdhwr_def skip_epc_def)
qed

end
