(* ===== verification/Emu_Control.thy ===== *)
theory Emu_Control
  imports Emu_Arith Traps
begin

text \<open>
  The control flow of the emulator: one instruction (\<open>emul\<close>, \<open>cop1Emulate\<close>), the trap handler around it
  with its change between the two encodings of the rounding mode, branches and their delay slots.
\<close>

section \<open>Rounding modes\<close>

text \<open>The mode the two low bits of the MIPS control register stand for.\<close>

definition mips_rmode :: "u32 \<Rightarrow> rmode" where
  "mips_rmode w = (if w AND 3 = 0 then RN else if w AND 3 = 1 then RZ else if w AND 3 = 2 then RU else RD)"

abbreviation (input) to_ieee :: "ieee754_csr \<Rightarrow> ieee754_csr" where
  "to_ieee c \<equiv> c\<lparr>csr_rm := ucast (ieee_rm ! unat (csr_rm c))\<rparr>"

lemma to_ieee_mode: "rmode_of (to_ieee (csr_of_fcr31 w)) = mips_rmode w"
proof -
  have "(ucast w :: 2 word) = 0 \<or> (ucast w :: 2 word) = 1 \<or> (ucast w :: 2 word) = 2 \<or> (ucast w :: 2 word) = 3" by (rule word2_cases)
  then show ?thesis unfolding mips_rmode_def low2 by (elim disjE) (simp_all add: csr_of_fcr31_def rmode_of_def ieee_rm_def)
qed

lemma rm_there_and_back: "ucast (mips_rm ! unat (ucast (ieee_rm ! unat (r :: 2 word)) :: 2 word)) = r"
  using word2_cases [of r] by (auto simp: ieee_rm_def mips_rm_def)

lemma convert_rm_csr: "csr_of_fcr31 (fcr31 (convert_rm ieee_rm s)) = to_ieee (csr_of_fcr31 (fcr31 s))"
  by (simp add: convert_rm_def Let_def csr_of_fcr31_inverse)

text \<open>What the library raises in the emulator's modes, the handler stores in the machine's.\<close>

lemma convert_rm_raised:
  assumes "d = SETCX k (CLEARCX (to_ieee (csr_of_fcr31 w)))"
  shows "fcr31_of_csr (d\<lparr>csr_rm := ucast (mips_rm ! unat (csr_rm d))\<rparr>) = (w AND NOT FPU_CSR_ALL_X) OR flag_bits k"
proof -
  have "d\<lparr>csr_rm := ucast (mips_rm ! unat (csr_rm d))\<rparr> = SETCX k (CLEARCX (csr_of_fcr31 w))"
    unfolding assms by (rule csr_eqI) (simp_all add: SETCX_def CLEARCX_def rm_there_and_back)
  then show ?thesis by (simp add: SETCX_word CLEARCX_word fcr31_of_csr_inverse)
qed

section \<open>One instruction at a time\<close>

lemma emul_no_branch:
  assumes "\<not> (MIPSInst_OPCODE ir = cop1_op \<and> MIPSInst_RS ir = bc_op)"
  shows "emul U ir contpc s = emul_insn U ir contpc (s\<lparr>emulated := emulated s + 1\<rparr>)"
  unfolding emul.simps [of U ir contpc s] Let_def if_not_P [OF assms] by (rule refl)

lemma cop1Emulate_plain:
  assumes "get_user U (umem s) (cp0_epc s) = Some ir" and "\<not> delay_slot s"
  shows "cop1Emulate U s = emul U ir (cp0_epc s + 4) s"
  using assms by (simp add: cop1Emulate_def Let_def)

text \<open>
  With a hardware FPU the handler emulates a single instruction; without one it goes on behind an instruction that ended well
  and moved the program counter up.
\<close>

lemma user_pc_up:
  assumes "get_user U m a = Some i"
  shows "a < a + 4"
proof -
  have "access_ok a 4" using assms by (simp add: get_user_def split: if_splits)
  then have "bit (0x80000000 AND (a OR (a + 4))) 31 = bit (0 :: u32) 31" unfolding access_ok_def by (simp only:)
  then have "\<not> bit a 31" by (simp add: bit_simps)
  then have "take_bit 31 a = a" by (intro bit_word_eqI) (auto simp: bit_simps less_Suc_eq eval_nat_numeral)
  then have "unat a < 2 ^ 31" by (metis unsigned_take_bit_eq take_bit_nat_less_exp)
  then show ?thesis by (simp add: word_less_nat_alt unat_add_lem [THEN iffD1])
qed

lemma handler_cases:
  assumes "get_user U (umem s) (cp0_epc s) = Some ir" and "handler_step U ir s = (t, sig)"
  shows "fpu_emulator_cop1Handler U True s = (t, if sig = SIGILL \<and> cp0_epc t \<noteq> cp0_epc s then 0 else sig)"
    and "sig \<noteq> 0 \<Longrightarrow> fpu_emulator_cop1Handler U False s = (t, if sig = SIGILL \<and> cp0_epc t \<noteq> cp0_epc s then 0 else sig)"
    and "sig = 0 \<Longrightarrow> cp0_epc s < cp0_epc t \<Longrightarrow> fpu_emulator_cop1Handler U False s =
      (case handler_loop U False t of (u, Inl sig) \<Rightarrow> (u, sig) | (u, Inr sig) \<Rightarrow> (u, if sig = SIGILL \<and> cp0_epc u \<noteq> cp0_epc s then 0 else sig))"
proof -
  note loop = handler_loop.simps [of U _ s] assms
  have "handler_loop U True s = (t, Inr sig)" using assms by (simp add: loop Let_def)
  then show "fpu_emulator_cop1Handler U True s = (t, if sig = SIGILL \<and> cp0_epc t \<noteq> cp0_epc s then 0 else sig)"
    by (simp add: fpu_emulator_cop1Handler_def)
  show "fpu_emulator_cop1Handler U False s = (t, if sig = SIGILL \<and> cp0_epc t \<noteq> cp0_epc s then 0 else sig)" if "sig \<noteq> 0"
    using that by (simp add: fpu_emulator_cop1Handler_def loop Let_def)
  show "fpu_emulator_cop1Handler U False s =
      (case handler_loop U False t of (u, Inl sig) \<Rightarrow> (u, sig) | (u, Inr sig) \<Rightarrow> (u, if sig = SIGILL \<and> cp0_epc u \<noteq> cp0_epc s then 0 else sig))"
    if "sig = 0" "cp0_epc s < cp0_epc t"
    using that by (simp add: fpu_emulator_cop1Handler_def loop Let_def)
qed

text \<open>An arithmetic instruction through \<open>emul_cop1\<close>.\<close>

lemma emul_arith:
  assumes "MIPSInst_OPCODE ir = cop1_op" and "MIPSInst_RS ir AND 0x10 \<noteq> 0"
  shows "emul U ir contpc s = emul_done contpc (fpu_emu ir (s\<lparr>emulated := emulated s + 1\<rparr>))"
proof -
  have "MIPSInst_RS ir \<notin> {bc_op, mfc_op, mtc_op, cfc_op, ctc_op}" using assms(2) by auto
  then show ?thesis using assms by (simp add: emul_no_branch emul_insn_def emul_cop1_def Let_def)
qed

lemma not_delay_cause: "\<not> delay_slot s \<Longrightarrow> cp0_cause s AND NOT CAUSEF_BD = cp0_cause s"
  by (simp add: delay_slot_def bit_eq_iff bit_simps) blast

lemma fpu_emu_sp_binop:
  assumes "MIPSInst_FFMT ir = s_fmt" and "sp_binop (MIPSInst_FUNC ir) = Some h"
    and "h (csr_of_fcr31 (fcr31 s)) (SPFROMREG s (MIPSInst_FS ir)) (SPFROMREG s (MIPSInst_FT ir)) = (d, r)"
    and "s' = s\<lparr>cp1ops := cp1ops s + 1, fcr31 := fcr31_of_csr d\<rparr>"
  shows "fpu_emu ir s = (if TSTX d then (s', SIGFPE) else (SPTOREG r (MIPSInst_FD ir) s', 0))"
proof -
  let ?s = "s\<lparr>cp1ops := cp1ops s + 1\<rparr>"
  let ?f = "\<lambda>c. h c (SPFROMREG ?s (MIPSInst_FS ir)) (SPFROMREG ?s (MIPSInst_FT ir))"
  have reg: "SPFROMREG ?s x = SPFROMREG s x" for x by (simp add: SIFROMREG_def FR_def)
  have "fpu_emu ir s = (case fpu_call ?f S_val ?s of (s, out) \<Rightarrow> fpu_end ir out s)"
    using assms(1,2) by (simp add: fpu_emu_def fpu_emu_s_def Let_def)
  also have "\<dots> = (if TSTX d then (s', SIGFPE) else (fpu_writeback ir (S_val r) s', 0))"
  proof (rule fpu_call_end)
    show "lib_step (csr_of_fcr31 (fcr31 ?s)) d" using sp_binop_step [OF assms(2)] assms(3) by (simp flip: reg) (metis fst_conv)
  qed (use assms(3,4) reg in simp_all)
  finally show ?thesis by (simp add: fpu_writeback_def)
qed

lemma ffmt_low: "MIPSInst_FFMT ir = ucast (MIPSInst_RS ir)"
proof -
  have m: "(0x01e00000 :: u32) = push_bit 21 (mask 4)" "(0x03e00000 :: u32) = push_bit 21 (mask 5)" by (simp_all add: mask_numeral)
  show ?thesis unfolding MIPSInst_FFMT_def MIPSInst_RS_def m by (rule bit_word_eqI) (auto simp: bit_simps)
qed

lemma TSTX_raised: "TSTX (SETCX k (CLEARCX c)) \<longleftrightarrow> k AND csr_mx c \<noteq> 0"
  unfolding TSTX_def word_nonzero_iff by (intro iff_exI) (auto simp: bit_simps dest: bit_imp_le_length)

lemma convert_rm_done:
  "convert_rm tab ((SITOREG r x t)\<lparr>cp0_epc := e, cp0_cause := q\<rparr>) = (SITOREG r x (convert_rm tab t))\<lparr>cp0_epc := e, cp0_cause := q\<rparr>"
  by (simp add: convert_rm_def SITOREG_def FR_def Let_def)

lemma step_sp_binop:
  assumes fetch: "get_user U (umem s) (cp0_epc s) = Some ir" and bd: "\<not> delay_slot s"
    and ir: "MIPSInst_OPCODE ir = cop1_op" "MIPSInst_RS ir = 0x10" and h: "sp_binop (MIPSInst_FUNC ir) = Some h"
    and c: "c = to_ieee (csr_of_fcr31 (fcr31 s))"
    and r: "h c (SPFROMREG s (MIPSInst_FS ir)) (SPFROMREG s (MIPSInst_FT ir)) = (SETCX k (CLEARCX c), r)"
    and s1: "s1 = s\<lparr>emulated := emulated s + 1, cp1ops := cp1ops s + 1, fcr31 := (fcr31 s AND NOT FPU_CSR_ALL_X) OR flag_bits k\<rparr>"
  shows "handler_step U ir s = (if k AND csr_mx c \<noteq> 0 then (s1, SIGFPE) else ((SPTOREG r (MIPSInst_FD ir) s1)\<lparr>cp0_epc := cp0_epc s + 4\<rparr>, 0))"
proof -
  define t where "t = (convert_rm ieee_rm s)\<lparr>emulated := emulated s + 1\<rparr>"
  define d where "d = SETCX k (CLEARCX c)"
  have t: "umem t = umem s" "cp0_epc t = cp0_epc s" "cp0_cause t = cp0_cause s" "cp1ops t = cp1ops s" "csr_of_fcr31 (fcr31 t) = c"
    "SPFROMREG t x = SPFROMREG s x" for x
    by (simp_all add: t_def c convert_rm_def Let_def csr_of_fcr31_inverse SIFROMREG_def FR_def)
  define t' where "t' = t\<lparr>cp1ops := cp1ops t + 1, fcr31 := fcr31_of_csr d\<rparr>"
  have f: "fpu_emu ir t = (if k AND csr_mx c \<noteq> 0 then (t', SIGFPE) else (SPTOREG r (MIPSInst_FD ir) t', 0))"
    unfolding TSTX_raised [symmetric] d_def [symmetric]
    by (rule fpu_emu_sp_binop [OF _ h _ t'_def]) (simp_all add: ffmt_low ir t r d_def)
  have "cop1Emulate U (convert_rm ieee_rm s) = emul_done (cp0_epc s + 4) (fpu_emu ir t)"
  proof (subst cop1Emulate_plain)
    show "emul U ir (cp0_epc (convert_rm ieee_rm s) + 4) (convert_rm ieee_rm s) = emul_done (cp0_epc s + 4) (fpu_emu ir t)"
      unfolding t_def by (subst emul_arith) (simp_all add: ir convert_rm_def Let_def)
  qed (use fetch bd in \<open>simp_all add: delay_slot_def convert_rm_def Let_def\<close>)
  then have "handler_step U ir s = (let (u, sig) = emul_done (cp0_epc s + 4) (fpu_emu ir t) in (convert_rm mips_rm u, sig))"
    using ir by (cases "ir = 0") (auto simp: handler_step_def MIPSInst_OPCODE_def Let_def)
  moreover have "convert_rm mips_rm t' = s1"
    using convert_rm_raised [OF d_def [unfolded c]] by (simp add: convert_rm_def t'_def t_def s1 csr_of_fcr31_inverse Let_def)
  moreover have "cp0_cause (SPTOREG r (MIPSInst_FD ir) t') AND NOT CAUSEF_BD = cp0_cause s"
    using not_delay_cause [OF bd] by (simp add: t'_def t SITOREG_def)
  ultimately show ?thesis
    by (cases "k AND csr_mx c = 0") (simp_all add: f emul_done_def convert_rm_done, simp add: SITOREG_def s1)
qed

text \<open>
  C9. The whole path of an \<^verbatim>\<open>add.s\<close> that traps outside a delay slot, from the fetch of the instruction to the
  program counter: for finite operands and denormals enabled the destination gets the sum correctly rounded
  in the rounding mode of the MIPS control register; the cause bits are exactly the exceptions of the
  sum, each with its sticky bit, and nothing else of the control register changes. No exception is raised when an operand or the sum
  is zero, also not the underflow of a denormal plus zero with that trap enabled. If an exception is enabled the
  handler returns SIGFPE instead, with the program counter at the instruction and no register written. Otherwise it returns 0 with the
  program counter behind the instruction on a processor with an FPU; on one without it goes on with the next instruction from
  exactly this state and returns what comes of that, a SIGILL dropped when the program counter has moved.
\<close>

theorem add_s_handled:
  assumes "get_user U (umem s) (cp0_epc s) = Some ir" and "\<not> delay_slot s"
    and "MIPSInst_OPCODE ir = cop1_op" and "MIPSInst_RS ir = 0x10" and "MIPSInst_FUNC ir = fadd_op"
    and c: "c = csr_of_fcr31 (fcr31 s)" and nod: "csr_nod c = 0"
    and x: "x = SPFROMREG s (MIPSInst_FS ir)" "sp_fin x" and y: "y = SPFROMREG s (MIPSInst_FT ir)" "sp_fin y"
    and v: "v = sp_val x + sp_val y"
    and k: "k = (if sp_val x = 0 \<or> sp_val y = 0 \<or> v = 0 then 0
      else ieee_flags SP_MBITS SP_EMIN SP_EMAX (uf_enabled c) (mips_rmode (fcr31 s)) v)"
    and s1: "s1 = s\<lparr>emulated := emulated s + 1, cp1ops := cp1ops s + 1, fcr31 := (fcr31 s AND NOT FPU_CSR_ALL_X) OR flag_bits k\<rparr>"
  shows "\<exists>r t. t = (SPTOREG r (MIPSInst_FD ir) s1)\<lparr>cp0_epc := cp0_epc s + 4\<rparr> \<and>
    fpu_emulator_cop1Handler U True s = (if k AND csr_mx c \<noteq> 0 then (s1, SIGFPE) else (t, 0)) \<and>
    fpu_emulator_cop1Handler U False s = (if k AND csr_mx c \<noteq> 0 then (s1, SIGFPE) else
      (case handler_loop U False t of (u, Inl sig) \<Rightarrow> (u, sig) | (u, Inr sig) \<Rightarrow> (u, if sig = SIGILL \<and> cp0_epc u \<noteq> cp0_epc s then 0 else sig))) \<and>
    (if v = 0 then r = ieee754sp_zero (if SPSIGN x = SPSIGN y then SPSIGN x else mips_rmode (fcr31 s) = RD)
     else sp_correct (mips_rmode (fcr31 s)) v r)"
proof -
  define c' where "c' = to_ieee c"
  have c': "csr_nod c' = 0" "rmode_of c' = mips_rmode (fcr31 s)" "csr_mx c' = csr_mx c" "uf_enabled c' = uf_enabled c"
    using nod to_ieee_mode [of "fcr31 s"] by (simp_all add: c'_def c uf_enabled_def)
  have rd: "csr_rm c' = IEEE754_RD \<longleftrightarrow> mips_rmode (fcr31 s) = RD" using c'(2) by (cases c' rule: rm_cases) auto
  obtain r where r: "ieee754sp_add c' x y = (SETCX k (CLEARCX c'), r)" and
    rounds: "if v = 0 then r = ieee754sp_zero (if SPSIGN x = SPSIGN y then SPSIGN x else csr_rm c' = IEEE754_RD) else sp_correct (rmode_of c') v r"
    using sp.add_finite_correct [OF _ x(2) y(2) v, of "CLEARCX c'"] c' k
    unfolding sp_add_finite [OF c'(1) x(2) y(2)] sp_constants sp_fields CLEARCX_simps by (cases "sp_val x = 0 \<or> sp_val y = 0 \<or> v = 0") auto
  have "sp_binop (MIPSInst_FUNC ir) = Some ieee754sp_add" using assms(5) by (simp add: sp_binop_def)
  note step = step_sp_binop [OF assms(1-4) this c'_def [unfolded c] r [unfolded x y] s1]
  let ?t = "(SPTOREG r (MIPSInst_FD ir) s1)\<lparr>cp0_epc := cp0_epc s + 4\<rparr>"
  have up: "cp0_epc s < cp0_epc ?t" using user_pc_up [OF assms(1)] by simp
  show ?thesis
  proof (intro exI conjI, rule refl)
    show "fpu_emulator_cop1Handler U True s = (if k AND csr_mx c \<noteq> 0 then (s1, SIGFPE) else (?t, 0))"
      using handler_cases(1) [OF assms(1), of s1 SIGFPE] handler_cases(1) [OF assms(1), of ?t 0] step by (simp add: c')
    show "fpu_emulator_cop1Handler U False s = (if k AND csr_mx c \<noteq> 0 then (s1, SIGFPE) else
      (case handler_loop U False ?t of (u, Inl sig) \<Rightarrow> (u, sig) | (u, Inr sig) \<Rightarrow> (u, if sig = SIGILL \<and> cp0_epc u \<noteq> cp0_epc s then 0 else sig)))"
      using handler_cases(2) [OF assms(1), of s1 SIGFPE] handler_cases(3) [OF assms(1), of ?t 0] up step by (simp add: c')
    show "if v = 0 then r = ieee754sp_zero (if SPSIGN x = SPSIGN y then SPSIGN x else mips_rmode (fcr31 s) = RD)
      else sp_correct (mips_rmode (fcr31 s)) v r" using rounds unfolding c' rd .
  qed
qed

theorem add_s_handled_witness:
  "\<exists>r s1 t. t = (SPTOREG r 0 s1)\<lparr>cp0_epc := 0x400004\<rparr> \<and> sp_correct RN (1 + 1 / 2 ^ 24) r \<and>
     fpu_emulator_cop1Handler word_ops True ((start 0x400000 [0x400000 \<mapsto> 0x46041000])\<lparr>fpr := (\<lambda>r. 0)(2 := 0x3f800000, 4 := 0x33800000)\<rparr>) = (t, 0) \<and>
     fpu_emulator_cop1Handler word_ops False ((start 0x400000 [0x400000 \<mapsto> 0x46041000])\<lparr>fpr := (\<lambda>r. 0)(2 := 0x3f800000, 4 := 0x33800000)\<rparr>) = (t\<lparr>errors := 1\<rparr>, SIGBUS)"
proof -
  let ?s = "(start 0x400000 [0x400000 \<mapsto> 0x46041000])\<lparr>fpr := (\<lambda>r. 0)(2 := 0x3f800000, 4 := 0x33800000)\<rparr>"
  have i: "MIPSInst_OPCODE 0x46041000 = cop1_op" "MIPSInst_RS 0x46041000 = 0x10" "MIPSInst_FUNC 0x46041000 = fadd_op"
    "MIPSInst_FS 0x46041000 = 2" "MIPSInst_FT 0x46041000 = 4" "MIPSInst_FD 0x46041000 = 0" by code_simp+
  have f: "get_user word_ops (umem ?s) (cp0_epc ?s) = Some 0x46041000" "\<not> delay_slot ?s"
    by (simp_all add: start_def get_user_def access_ok_def word_ops_def word_load_def delay_slot_def)
  have r: "0x3f800000 = SPFROMREG ?s (MIPSInst_FS 0x46041000)" "0x33800000 = SPFROMREG ?s (MIPSInst_FT 0x46041000)" by (simp_all add: i SIFROMREG_def)
  have c: "csr_mx (csr_of_fcr31 0) = 0" "mips_rmode 0 = RN" by (simp_all add: csr_of_fcr31_def mips_rmode_def)
  define s1 where "s1 = ?s\<lparr>emulated := emulated ?s + 1, cp1ops := cp1ops ?s + 1, fcr31 := (fcr31 ?s AND NOT FPU_CSR_ALL_X) OR
    flag_bits (if sp_val 0x3f800000 = 0 \<or> sp_val 0x33800000 = 0 \<or> sp_val 0x3f800000 + sp_val 0x33800000 = 0 then 0
      else ieee_flags SP_MBITS SP_EMIN SP_EMAX (uf_enabled (csr_of_fcr31 (fcr31 ?s))) (mips_rmode (fcr31 ?s)) (sp_val 0x3f800000 + sp_val 0x33800000))\<rparr>"
  have z: "fcr31 ?s = 0" "cp0_epc ?s = 0x400000" by (simp_all add: start_def)
  obtain r t where t: "t = (SPTOREG r 0 s1)\<lparr>cp0_epc := 0x400004\<rparr>" "fpu_emulator_cop1Handler word_ops True ?s = (t, 0)"
    "fpu_emulator_cop1Handler word_ops False ?s = (case handler_loop word_ops False t of (u, Inl sig) \<Rightarrow> (u, sig)
       | (u, Inr sig) \<Rightarrow> (u, if sig = SIGILL \<and> cp0_epc u \<noteq> 0x400000 then 0 else sig))" "sp_correct RN (1 + 1 / 2 ^ 24) r"
    using add_s_handled [OF f i(1-3) refl _ r(1) sp_ground(1) r(2) sp_ground(2) refl refl s1_def]
    unfolding z i c by (auto simp: csr_reset sp_ground c)
  have "get_user word_ops (umem t) (cp0_epc t) = None" "errors t = 0"
    by (simp_all add: t(1) SITOREG_def s1_def start_def get_user_def access_ok_def word_ops_def word_load_def)
  then have "handler_loop word_ops False t = (t\<lparr>errors := 1\<rparr>, Inl SIGBUS)" by (subst handler_loop.simps) (simp add: fault_def)
  then show ?thesis using t by (intro exI [of _ r] exI [of _ s1] exI [of _ t]) simp
qed

section \<open>Branches\<close>

lemma condbit_bit: "csr AND fpucondbit ! unat (drop_bit 2 (t :: 5 word)) \<noteq> 0 \<longleftrightarrow> fcc csr (unat (drop_bit 2 t))"
proof -
  have "unat t < 32" using unsigned_less [of t, where ?'a = nat] by simp
  then have n: "unat (drop_bit 2 t) < 8" by (simp add: unat_drop_bit)
  have bit: "csr AND push_bit k 1 \<noteq> 0 \<longleftrightarrow> bit csr k" if "k < 32" for k
    using that by (simp only: and_exp_eq_0_iff_not_bit push_bit_of_1) simp
  have "fpucondbit ! m = push_bit (if m = 0 then 23 else 24 + m) 1" if "m \<in> {0, 1, 2, 3, 4, 5, 6, 7}" for m
    using that by (auto simp: fpucondbit_def)
  moreover have "unat (drop_bit 2 t) \<in> {0, 1, 2, 3, 4, 5, 6, 7}" using n by auto
  ultimately show ?thesis using n bit [of "if unat (drop_bit 2 t) = 0 then 23 else 24 + unat (drop_bit 2 t)"] unfolding fcc_def by (simp del: push_bit_of_1)
qed

lemma low_bits_cases: "(t :: 5 word) AND 3 = 0 \<or> t AND 3 = 1 \<or> t AND 3 = 2 \<or> t AND 3 = 3"
proof -
  have u: "unat (t AND 3) = unat t mod 4" using unat_and_mask [of t 2] by (simp add: mask_numeral)
  have "unat (t AND 3) = 0 \<or> unat (t AND 3) = 1 \<or> unat (t AND 3) = 2 \<or> unat (t AND 3) = 3" unfolding u by presburger
  then show ?thesis by (simp only: word_unat_eq_iff) simp
qed

lemma bc_test_fcc: "\<exists>l. bc_test csr t = Some (fcc csr (unat (drop_bit 2 t)) = odd (unat t), l)"
proof -
  have o: "t AND 3 = 0 \<or> t AND 3 = 2 \<longleftrightarrow> even (unat t)" by (rule rt_low_bits)
  show ?thesis using low_bits_cases [of t] o unfolding bc_test_def Let_def condbit_bit by auto
qed

text \<open>
  C17. The emulator and the kernel's branch code decide a floating point branch alike: the condition that
  \<^verbatim>\<open>cop1Emulate\<close> tests through its table of condition bits is the one for which \<^verbatim>\<open>__compute_return_epc\<close>
  goes to the branch target.
\<close>

theorem fp_branch_agrees:
  assumes "MIPSInst_OPCODE ir = cop1_op" and "hw_fcr31 s = None" and "bc_test (fcr31 s) (MIPSInst_RT ir) = Some (taken, likely)"
  shows "compute_return_epc_insn epc ir s =
    (s\<lparr>cp0_epc := if taken then epc + 4 + push_bit 2 (MIPSInst_SIMM ir) else epc + 8\<rparr>, 0)"
proof -
  have "taken \<longleftrightarrow> fcc (fcr31 s) (unat (drop_bit 2 (MIPSInst_RT ir))) = odd (unat (MIPSInst_RT ir))"
    using bc_test_fcc [of "fcr31 s" "MIPSInst_RT ir"] assms(3) by auto
  moreover have "compute_return_epc_insn epc ir s = branch_cop1 epc ir s" using assms(1) by (simp add: compute_return_epc_insn_def)
  ultimately show ?thesis using assms(2) by (simp add: branch_cop1_next [of epc ir s "regs s" 0] simm_low)
qed

theorem fp_branch_agrees_witness:
  "compute_return_epc_insn 0x400000 0x45010003 ((start 0x400000 Map.empty)\<lparr>fcr31 := 0x00800000\<rparr>) =
     ((start 0x400000 Map.empty)\<lparr>fcr31 := 0x00800000, cp0_epc := 0x400010\<rparr>, 0)"
proof -
  let ?s = "(start 0x400000 Map.empty)\<lparr>fcr31 := 0x00800000\<rparr>"
  have "MIPSInst_OPCODE 0x45010003 = cop1_op" "hw_fcr31 ?s = None" "bc_test (fcr31 ?s) (MIPSInst_RT 0x45010003) = Some (True, False)"
    "push_bit 2 (MIPSInst_SIMM 0x45010003) = 12" by code_simp+
  then show ?thesis using fp_branch_agrees [of "0x45010003" ?s True False "0x400000"] by simp
qed


text \<open>
  A floating point branch in a delay slot is illegal: the emulator returns SIGILL with the program counter,
  the registers and the control register untouched.
\<close>

lemma branch_in_slot_illegal:
  assumes "MIPSInst_OPCODE ir = cop1_op" and "MIPSInst_RS ir = bc_op" and "delay_slot s"
  shows "emul U ir contpc s = (s\<lparr>emulated := emulated s + 1\<rparr>, SIGILL)"
  using assms by (subst emul.simps) simp



end
