(* ===== verification/Emu_Compare.thy ===== *)
theory Emu_Compare
  imports Emu_Control
begin

text \<open>
  The comparison instructions: the condition in the low four bits of the function field (unordered, equal, less,
  signalling) against what the emulator computes from them through \<^verbatim>\<open>cmptab\<close>, and the branch that reads it.
\<close>

section \<open>Decoding the condition\<close>

lemma func_cases:
  fixes f :: "6 word"
  assumes "fcmp_op \<le> f"
  obtains "f = 48" | "f = 49" | "f = 50" | "f = 51" | "f = 52" | "f = 53" | "f = 54" | "f = 55"
  | "f = 56" | "f = 57" | "f = 58" | "f = 59" | "f = 60" | "f = 61" | "f = 62" | "f = 63"
proof -
  have "unat f < 64" using unsigned_less [of f, where ?'a = nat] by simp
  moreover have "48 \<le> unat f" using assms by (simp add: word_le_nat_alt)
  ultimately have "unat f \<in> {48, 49, 50, 51, 52, 53, 54, 55, 56, 57, 58, 59, 60, 61, 62, 63}" by (simp only: insert_iff empty_iff) presburger
  then show thesis using that by (simp only: word_unat_eq_iff) auto
qed

lemma cmptab_decode:
  assumes "fcmp_op \<le> f"
  shows "(f - fcmp_op) AND 0x8 \<noteq> 0 \<longleftrightarrow> bit f 3"
    and "cmptab ! unat ((f - fcmp_op) AND 0x7) AND IEEE754_CUN \<noteq> 0 \<longleftrightarrow> bit f 0"
    and "cmptab ! unat ((f - fcmp_op) AND 0x7) AND IEEE754_CEQ \<noteq> 0 \<longleftrightarrow> bit f 1"
    and "cmptab ! unat ((f - fcmp_op) AND 0x7) AND IEEE754_CLT \<noteq> 0 \<longleftrightarrow> bit f 2"
    and "cmptab ! unat ((f - fcmp_op) AND 0x7) AND IEEE754_CGT = 0"
  using assms by (cases f rule: func_cases; simp add: cmptab_def)+

section \<open>The instruction\<close>

text \<open>A comparison that found an invalid operand, or not: the end of the instruction.\<close>

lemma fpu_compare_end:
  assumes f: "fcmp_op \<le> func" and r: "g (csr_of_fcr31 (fcr31 s)) (cmptab ! unat ((func - fcmp_op) AND 0x7)) ((func - fcmp_op) AND 0x8 \<noteq> 0) =
      (if bad then SETCX IEEE754_INVALID_OPERATION (CLEARCX (csr_of_fcr31 (fcr31 s))) else CLEARCX (csr_of_fcr31 (fcr31 s)), b)"
    and w: "w = (fcr31 s AND NOT FPU_CSR_ALL_X) OR (if bad then FPU_CSR_INV_X OR FPU_CSR_INV_S else 0)"
  shows "(case fpu_compare func g s of (s, out) \<Rightarrow> fpu_end ir out s) =
    (if bad \<and> csr_mx (csr_of_fcr31 (fcr31 s)) AND IEEE754_INVALID_OPERATION \<noteq> 0 then (s\<lparr>fcr31 := w\<rparr>, SIGFPE)
     else (fpu_writeback ir (Cmp b) (s\<lparr>fcr31 := w\<rparr>), 0))"
proof -
  define k :: "5 word" where "k = (if bad then IEEE754_INVALID_OPERATION else 0)"
  let ?c = "csr_of_fcr31 (fcr31 s)"
  have k: "(if bad then SETCX IEEE754_INVALID_OPERATION (CLEARCX ?c) else CLEARCX ?c) = SETCX k (CLEARCX ?c)" by (simp add: k_def)
  have wk: "fcr31_of_csr (SETCX k (CLEARCX ?c)) = w"
    by (simp add: SETCX_word CLEARCX_word fcr31_of_csr_inverse w k_def flag_bits_def)
  define s' where "s' = s\<lparr>fcr31 := w\<rparr>"
  have cx: "csr_of_fcr31 (fcr31 s') = SETCX k (CLEARCX ?c)" by (simp add: s'_def wk [symmetric] csr_of_fcr31_inverse)
  have cop: "copcsr s' = flag_bits k" by (rule copcsr_flags) (simp add: cx)
  have put: "put_rcsr (flag_bits k) s' = s'"
    unfolding cop [symmetric] by (rule put_copcsr [of ?c]) (unfold cx, rule lib_step_clear, simp add: raises_SETCX)
  have bad: "ieee754_cxtest (csr_of_fcr31 w) IEEE754_INVALID_OPERATION \<longleftrightarrow> bad"
    using cx by (simp add: s'_def ieee754_cxtest_def k_def)
  have "with_csr (\<lambda>c. g c (cmptab ! unat ((func - fcmp_op) AND 0x7)) ((func - fcmp_op) AND 0x8 \<noteq> 0)) s = (s', b)"
    by (simp only: with_csr_def r k Let_def prod.case wk s'_def)
  then have "fpu_compare func g s = (s', Result (flag_bits k) (Cmp b))"
    using bad cop unfolding fpu_compare_def Let_def by (auto simp: s'_def k_def flag_bits_def)
  moreover have "csr_traps s' \<longleftrightarrow> bad \<and> csr_mx ?c AND IEEE754_INVALID_OPERATION \<noteq> 0"
    by (simp add: csr_traps_iff cx TSTX_raised k_def and.commute)
  ultimately show ?thesis using put by (simp add: fpu_end_def s'_def Let_def)
qed

text \<open>The decoded condition, on numbers and on operands that cannot be ordered.\<close>

definition cond_holds :: "6 word \<Rightarrow> bool \<Rightarrow> real \<Rightarrow> real \<Rightarrow> bool" where
  "cond_holds func unordered x y = (if unordered then bit func 0 else x < y \<and> bit func 2 \<or> x = y \<and> bit func 1)"

lemma cmp_not_arith:
  assumes "fcmp_op \<le> f"
  shows "sp_binop f = None" "sp_unop f = None" "dp_binop f = None" "dp_unop f = None"
    "f \<notin> {fmovc_op, fmovz_op, fmovn_op, fmov_op, fcvts_op, fcvtd_op, fcvtw_op, fround_op, ftrunc_op, fceil_op, ffloor_op}"
  using assms by (cases f rule: func_cases; simp add: sp_binop_def sp_unop_def dp_binop_def dp_unop_def)+

lemma compare_s:
  assumes "MIPSInst_FFMT ir = s_fmt" and f: "fcmp_op \<le> MIPSInst_FUNC ir"
    and c: "c = csr_of_fcr31 (fcr31 s)" and nod: "csr_nod c = 0"
    and x: "x = SPFROMREG s (MIPSInst_FS ir)" and y: "y = SPFROMREG s (MIPSInst_FT ir)"
    and un: "unordered = (ieee754sp_isnan x \<or> ieee754sp_isnan y)"
    and bad: "bad = (unordered \<and> (bit (MIPSInst_FUNC ir) 3 \<or> ieee754sp_class x = CLASS_SNAN \<or> ieee754sp_class y = CLASS_SNAN))"
    and w: "w = (fcr31 s AND NOT FPU_CSR_ALL_X) OR (if bad then FPU_CSR_INV_X OR FPU_CSR_INV_S else 0)"
    and cond: "cond = fpucondbit ! unat (drop_bit 2 (MIPSInst_FD ir))"
  shows "fpu_emu ir s =
    (if bad \<and> csr_mx c AND IEEE754_INVALID_OPERATION \<noteq> 0 then (s\<lparr>cp1ops := cp1ops s + 1, fcr31 := w\<rparr>, SIGFPE)
     else (s\<lparr>cp1ops := cp1ops s + 1,
       fcr31 := if cond_holds (MIPSInst_FUNC ir) unordered (sp_val x) (sp_val y) then w OR cond else w AND NOT cond\<rparr>, 0))"
proof -
  let ?s = "s\<lparr>cp1ops := cp1ops s + 1\<rparr>" and ?cmp = "cmptab ! unat ((MIPSInst_FUNC ir - fcmp_op) AND 0x7)"
  have reg: "SPFROMREG ?s r = SPFROMREG s r" for r by (simp add: SIFROMREG_def FR_def)
  have "fpu_emu ir s = (case fpu_compare (MIPSInst_FUNC ir) (\<lambda>c. ieee754sp_cmp c x y) ?s of (s, out) \<Rightarrow> fpu_end ir out s)"
    using assms(1) f cmp_not_arith [OF f] by (simp add: fpu_emu_def fpu_emu_s_def Let_def x y reg)
  moreover have "ieee754sp_cmp c x y ?cmp ((MIPSInst_FUNC ir - fcmp_op) AND 0x8 \<noteq> 0) =
    (if bad then SETCX IEEE754_INVALID_OPERATION (CLEARCX c) else CLEARCX c, cond_holds (MIPSInst_FUNC ir) unordered (sp_val x) (sp_val y))"
    unfolding sp_cmp_correct [OF nod] cmptab_decode(1) [OF f] using cmptab_decode [OF f] by (auto simp: bad un cond_holds_def)
  ultimately show ?thesis
    using fpu_compare_end [OF f, of "\<lambda>c. ieee754sp_cmp c x y" ?s bad _ w ir] c w cond by (simp add: fpu_writeback_def)
qed

text \<open>
  C11. A double precision comparison \<^verbatim>\<open>c.cond.d\<close>, with denormals enabled, sets the condition bit its destination field
  names exactly when the condition in its function field holds of the real values of the operands (or of
  operands of which one is not a number). It signals an invalid operation exactly for a signalling condition on
  unordered operands or a signalling NaN; when that is enabled it returns SIGFPE and leaves the condition bits.
\<close>

theorem compare_d:
  assumes "MIPSInst_FFMT ir = d_fmt" and f: "fcmp_op \<le> MIPSInst_FUNC ir"
    and c: "c = csr_of_fcr31 (fcr31 s)" and nod: "csr_nod c = 0"
    and x: "x = DPFROMREG s (MIPSInst_FS ir)" and y: "y = DPFROMREG s (MIPSInst_FT ir)"
    and un: "unordered = (ieee754dp_isnan x \<or> ieee754dp_isnan y)"
    and bad: "bad = (unordered \<and> (bit (MIPSInst_FUNC ir) 3 \<or> ieee754dp_class x = CLASS_SNAN \<or> ieee754dp_class y = CLASS_SNAN))"
    and w: "w = (fcr31 s AND NOT FPU_CSR_ALL_X) OR (if bad then FPU_CSR_INV_X OR FPU_CSR_INV_S else 0)"
    and cond: "cond = fpucondbit ! unat (drop_bit 2 (MIPSInst_FD ir))"
  shows "fpu_emu ir s =
    (if bad \<and> csr_mx c AND IEEE754_INVALID_OPERATION \<noteq> 0 then (s\<lparr>cp1ops := cp1ops s + 1, fcr31 := w\<rparr>, SIGFPE)
     else (s\<lparr>cp1ops := cp1ops s + 1,
       fcr31 := if cond_holds (MIPSInst_FUNC ir) unordered (dp_val x) (dp_val y) then w OR cond else w AND NOT cond\<rparr>, 0))"
proof -
  let ?s = "s\<lparr>cp1ops := cp1ops s + 1\<rparr>" and ?cmp = "cmptab ! unat ((MIPSInst_FUNC ir - fcmp_op) AND 0x7)"
  have reg: "DPFROMREG ?s r = DPFROMREG s r" for r by (simp add: DIFROMREG_def FR_def)
  have "fpu_emu ir s = (case fpu_compare (MIPSInst_FUNC ir) (\<lambda>c. ieee754dp_cmp c x y) ?s of (s, out) \<Rightarrow> fpu_end ir out s)"
    using assms(1) f cmp_not_arith [OF f] by (simp add: fpu_emu_def fpu_emu_d_def Let_def x y reg)
  moreover have "ieee754dp_cmp c x y ?cmp ((MIPSInst_FUNC ir - fcmp_op) AND 0x8 \<noteq> 0) =
    (if bad then SETCX IEEE754_INVALID_OPERATION (CLEARCX c) else CLEARCX c, cond_holds (MIPSInst_FUNC ir) unordered (dp_val x) (dp_val y))"
    unfolding dp_cmp_correct [OF nod] cmptab_decode(1) [OF f] using cmptab_decode [OF f] by (auto simp: bad un cond_holds_def)
  ultimately show ?thesis
    using fpu_compare_end [OF f, of "\<lambda>c. ieee754dp_cmp c x y" ?s bad _ w ir] c w cond by (simp add: fpu_writeback_def)
qed

theorem compare_d_witness:
  "snd (fpu_emu 0x4624103c ((start 0 Map.empty)\<lparr>fpr := (\<lambda>r. 0)(4 := 0x7ff8000000000000)\<rparr>)) = 0 \<and>
   fcr31 (fst (fpu_emu 0x4624103c ((start 0 Map.empty)\<lparr>fpr := (\<lambda>r. 0)(4 := 0x7ff8000000000000)\<rparr>))) = FPU_CSR_INV_X OR FPU_CSR_INV_S"
proof -
  let ?s = "(start 0 Map.empty)\<lparr>fpr := (\<lambda>r. 0)(4 := 0x7ff8000000000000)\<rparr>"
  have i: "MIPSInst_FFMT 0x4624103c = d_fmt" "fcmp_op \<le> MIPSInst_FUNC 0x4624103c" "csr_nod (csr_of_fcr31 (fcr31 ?s)) = 0"
    "MIPSInst_FS 0x4624103c = 2" "MIPSInst_FT 0x4624103c = 4" "MIPSInst_FD 0x4624103c = 0" "MIPSInst_FUNC 0x4624103c = 0x3c"
    by code_simp+
  have r: "DPFROMREG ?s 2 = 0" "DPFROMREG ?s 4 = 0x7ff8000000000000" by (simp_all add: DIFROMREG_def)
  have n: "ieee754dp_isnan 0x7ff8000000000000" by code_simp
  have z: "fcr31 ?s = 0" "csr_mx (csr_of_fcr31 0) = 0" by (simp_all add: start_def csr_of_fcr31_def)
  show ?thesis unfolding compare_d [OF i(1,2) refl i(3) refl refl refl refl refl refl]
    by (simp add: i r n z cond_holds_def fpucondbit_def)
qed

lemma fcc_written:
  fixes t :: "5 word"
  assumes "cond = fpucondbit ! unat (drop_bit 2 t)"
  shows "fcc (w OR cond) (unat (drop_bit 2 t))" and "\<not> fcc (w AND NOT cond) (unat (drop_bit 2 t))"
proof -
  have "unat t < 32" using unsigned_less [of t, where ?'a = nat] by simp
  then have "unat (drop_bit 2 t) < 8" by (simp add: unat_drop_bit)
  then have "unat (drop_bit 2 t) \<in> {0, 1, 2, 3, 4, 5, 6, 7}" by auto
  then have "cond \<noteq> 0" by (auto simp: assms fpucondbit_def)
  then show "fcc (w OR cond) (unat (drop_bit 2 t))" unfolding condbit_bit [symmetric] assms [symmetric] or_and_self .
  have "(w AND NOT cond) AND cond = 0" by (rule bit_word_eqI) (auto simp: bit_simps)
  then show "\<not> fcc (w AND NOT cond) (unat (drop_bit 2 t))" unfolding condbit_bit [symmetric] assms [symmetric] by simp
qed

text \<open>
  C10. A single precision comparison followed by a branch on the same condition bit: \<^verbatim>\<open>bc1t\<close> is taken exactly
  when the condition of the comparison holds of the real values of its operands (or of operands of which one is
  not a number), and \<^verbatim>\<open>bc1f\<close> exactly when it does not.
\<close>

theorem compare_branch:
  assumes "MIPSInst_FFMT ir = s_fmt" and "fcmp_op \<le> MIPSInst_FUNC ir" and "csr_nod (csr_of_fcr31 (fcr31 s)) = 0"
    and "x = SPFROMREG s (MIPSInst_FS ir)" and "y = SPFROMREG s (MIPSInst_FT ir)"
    and e: "fpu_emu ir s = (s', 0)" and b: "drop_bit 2 (MIPSInst_RT br) = drop_bit 2 (MIPSInst_FD ir)"
    and t: "bc_test (fcr31 s') (MIPSInst_RT br) = Some (taken, likely)"
  shows "taken \<longleftrightarrow> cond_holds (MIPSInst_FUNC ir) (ieee754sp_isnan x \<or> ieee754sp_isnan y) (sp_val x) (sp_val y) = odd (unat (MIPSInst_RT br))"
proof -
  obtain w where "fcr31 s' = (if cond_holds (MIPSInst_FUNC ir) (ieee754sp_isnan x \<or> ieee754sp_isnan y) (sp_val x) (sp_val y)
      then w OR fpucondbit ! unat (drop_bit 2 (MIPSInst_FD ir)) else w AND NOT (fpucondbit ! unat (drop_bit 2 (MIPSInst_FD ir))))"
    using compare_s [OF assms(1,2) refl assms(3-5) refl refl refl refl] e by (auto split: if_splits)
  then have "fcc (fcr31 s') (unat (drop_bit 2 (MIPSInst_RT br))) =
      cond_holds (MIPSInst_FUNC ir) (ieee754sp_isnan x \<or> ieee754sp_isnan y) (sp_val x) (sp_val y)"
    unfolding b using fcc_written [OF refl, of w "MIPSInst_FD ir"] by simp
  then show ?thesis using bc_test_fcc [of "fcr31 s'" "MIPSInst_RT br"] t by auto
qed

theorem compare_branch_witness: "cond_holds 0x3c False 1 3"
proof -
  let ?s = "(start 0 Map.empty)\<lparr>fpr := (\<lambda>r. 0)(2 := 0x3f800000, 4 := 0x40400000)\<rparr>"
  have i: "MIPSInst_FFMT 0x4604103c = s_fmt" "fcmp_op \<le> MIPSInst_FUNC 0x4604103c" "csr_nod (csr_of_fcr31 (fcr31 ?s)) = 0"
    "MIPSInst_FS 0x4604103c = 2" "MIPSInst_FT 0x4604103c = 4" "drop_bit 2 (MIPSInst_RT 0x45010003) = drop_bit 2 (MIPSInst_FD 0x4604103c)"
    "MIPSInst_RT 0x45010003 = 1" "MIPSInst_FUNC 0x4604103c = 0x3c"
    by code_simp+
  have e: "fpu_emu 0x4604103c ?s = (fst (fpu_emu 0x4604103c ?s), 0)"
    by (rule pair_snd) code_simp
  have t: "bc_test (fcr31 (fst (fpu_emu 0x4604103c ?s))) (MIPSInst_RT 0x45010003) = Some (True, False)" by code_simp
  have r: "SPFROMREG ?s 2 = 0x3f800000" "SPFROMREG ?s 4 = 0x40400000" by (simp_all add: SIFROMREG_def)
  have n: "\<not> ieee754sp_isnan 0x3f800000" "\<not> ieee754sp_isnan 0x40400000" by code_simp+
  from compare_branch [OF i(1-3) refl refl e i(6) t] show ?thesis by (simp add: i r n sp_ground)
qed

end
