(* ===== verification/Emu_Moves.thy ===== *)
theory Emu_Moves
  imports Emu_Compare
begin

text \<open>
  Moves: between registers and memory, and to and from the control register.
\<close>

section \<open>Registers\<close>

lemma SI_written: "SIFROMREG (SITOREG v x s) x = v"
proof -
  have fr: "FR (SITOREG v x s) = FR s" by (simp add: SITOREG_def FR_def)
  have low: "(ucast (push_bit 32 (drop_bit 32 w) OR ucast v :: u64) :: u32) = v" for w :: u64 by (rule bit_word_eqI) (auto simp: bit_simps)
  have high: "(ucast (drop_bit 32 (drop_bit 32 (push_bit 32 w) OR push_bit 32 (ucast v) :: u64)) :: u32) = v" for w :: u64
    by (rule bit_word_eqI) (auto simp: bit_simps)
  show ?thesis
  proof (cases "FR s \<or> x AND 1 = 0")
    case True
    then have "x AND NOT (if FR s then 0 else 1) = x" using and_not_disjoint [of x 1] by auto
    then show ?thesis using True fr low by (simp add: SIFROMREG_def SITOREG_def)
  next
    case False
    then show ?thesis using fr high by (simp add: SIFROMREG_def SITOREG_def)
  qed
qed

lemma DI_written: "DIFROMREG (DITOREG v x s) x = v"
  by (simp add: DIFROMREG_def DITOREG_def FR_def)

section \<open>Through memory\<close>

lemma emul_ldst:
  assumes "va = regs s (MIPSInst_RS ir) + MIPSInst_SIMM ir" and "s1 = s\<lparr>emulated := emulated s + 1\<rparr>"
  shows "MIPSInst_OPCODE ir = ldc1_op \<Longrightarrow> emul U ir contpc s = emul_done contpc (emu_load64 U va (MIPSInst_RT ir) s1)"
    and "MIPSInst_OPCODE ir = sdc1_op \<Longrightarrow> emul U ir contpc s = emul_done contpc (emu_store64 U va (MIPSInst_RT ir) s1)"
    and "MIPSInst_OPCODE ir = lwc1_op \<Longrightarrow> emul U ir contpc s = emul_done contpc (emu_load32 U va (MIPSInst_RT ir) s1)"
    and "MIPSInst_OPCODE ir = swc1_op \<Longrightarrow> emul U ir contpc s = emul_done contpc (emu_store32 U va (MIPSInst_RT ir) s1)"
  using assms by (simp_all add: emul_no_branch emul_insn_def Let_def)

lemma emul_done_ok: "emul_done contpc p = (t, 0) \<longleftrightarrow>
    (\<exists>s. p = (s, 0) \<and> t = s\<lparr>cp0_epc := contpc, cp0_cause := cp0_cause s AND NOT CAUSEF_BD\<rparr>)"
  by (cases p) (auto simp: emul_done_def)

text \<open>
  C26. A double word stored with \<^verbatim>\<open>sdc1\<close> is what \<^verbatim>\<open>ldc1\<close> from the same address delivers: after a store that succeeds
  the load does too, with every bit of the register, whichever registers the two instructions name and
  in both register modes, though each transfer is two words in memory.
\<close>

theorem store_load_double:
  assumes U: "user_memory U" and st: "MIPSInst_OPCODE i = sdc1_op" "emul U i c1 s = (s1, 0)" and ld: "MIPSInst_OPCODE j = ldc1_op"
    and va: "regs s (MIPSInst_RS i) + MIPSInst_SIMM i = regs s (MIPSInst_RS j) + MIPSInst_SIMM j"
  shows "\<exists>s2. emul U j c2 s1 = (s2, 0) \<and> DIFROMREG s2 (MIPSInst_RT j) = DIFROMREG s (MIPSInst_RT i) \<and> regs s2 = regs s \<and> umem s2 = umem s1"
proof -
  let ?a = "regs s (MIPSInst_RS i) + MIPSInst_SIMM i"
  obtain m where m: "put_user64 U (umem s) ?a (DIFROMREG s (MIPSInst_RT i)) = (m, True)" "umem s1 = m" "regs s1 = regs s"
    using st by (auto simp: emul_ldst [OF refl refl] emul_done_ok emu_store64_def fault_def DIFROMREG_def FR_def Let_def split: prod.splits if_splits)
  have "get_user64 U (umem s1) ?a = Some (DIFROMREG s (MIPSInst_RT i))" unfolding m(2) by (rule user_memory.get_put64 [OF U m(1)])
  moreover have "regs s1 (MIPSInst_RS j) + MIPSInst_SIMM j = ?a" by (simp add: m(3) va)
  ultimately have "emul U j c2 s1 = ((DITOREG (DIFROMREG s (MIPSInst_RT i)) (MIPSInst_RT j) t)\<lparr>cp0_epc := c2, cp0_cause := cp0_cause s1 AND NOT CAUSEF_BD\<rparr>, 0)"
    if "t = s1\<lparr>emulated := emulated s1 + 1, loads := loads s1 + 1\<rparr>" for t
    using ld that by (simp add: emul_ldst [OF refl refl] emul_done_ok emu_load64_def Let_def) (simp add: DITOREG_def)
  moreover have "DIFROMREG ((DITOREG v x t)\<lparr>cp0_epc := e, cp0_cause := q\<rparr>) x = v" for v x e q and t :: "'a emu"
    by (simp add: DIFROMREG_def DITOREG_def FR_def)
  moreover have "regs (DITOREG v x t) = regs t" "umem (DITOREG v x t) = umem t" for v x and t :: "'a emu" by (simp_all add: DITOREG_def)
  ultimately show ?thesis using m(3) by simp
qed

theorem store_load_double_witness:
  "let s = (start 0x400000 [0x7fff0000 \<mapsto> 0, 0x7fff0004 \<mapsto> 0])\<lparr>regs := (\<lambda>r. 0)(29 := 0x7fff0000), fpr := (\<lambda>r. 0)(2 := 0x123456789)\<rparr>;
       s1 = fst (emul word_ops 0xf7a20000 0x400004 s)
   in DIFROMREG (fst (emul word_ops 0xd7a40000 0x400008 s1)) 4 = 0x123456789"
proof -
  let ?s = "(start 0x400000 [0x7fff0000 \<mapsto> 0, 0x7fff0004 \<mapsto> 0])\<lparr>regs := (\<lambda>r. 0)(29 := 0x7fff0000), fpr := (\<lambda>r. 0)(2 := 0x123456789)\<rparr>"
  have i: "MIPSInst_OPCODE 0xf7a20000 = sdc1_op" "MIPSInst_OPCODE 0xd7a40000 = ldc1_op" "MIPSInst_RT 0xf7a20000 = 2" "MIPSInst_RT 0xd7a40000 = 4"
    "MIPSInst_RS 0xf7a20000 = 29" "MIPSInst_RS 0xd7a40000 = 29" "MIPSInst_SIMM 0xf7a20000 = 0" "MIPSInst_SIMM 0xd7a40000 = 0" by code_simp+
  have e: "emul word_ops 0xf7a20000 0x400004 ?s = (fst (emul word_ops 0xf7a20000 0x400004 ?s), 0)"
    by (rule pair_snd) code_simp
  have "DIFROMREG ?s 2 = 0x123456789" by code_simp
  then show ?thesis using store_load_double [OF wm.user_memory_axioms i(1) e i(2), of "0x400008"] by (auto simp: i Let_def)
qed

section \<open>The control register\<close>

text \<open>
  Reading the control register back after writing it: \<^verbatim>\<open>cfc1\<close> delivers the written value in the flush, enable, flag
  and rounding mode bits and the old value in all others, although the two instructions translate the rounding
  mode to the library's encoding and back.
\<close>

lemma ctc_cfc:
  assumes "MIPSInst_RD i = FPCREG_CSR" and "MIPSInst_RT i \<noteq> 0" and "MIPSInst_RD j = FPCREG_CSR" and "MIPSInst_RT j \<noteq> 0"
    and "emul_ctc i s = (s1, sig)"
  shows "regs (emul_cfc j s1) (MIPSInst_RT j) = (fcr31 s AND NOT FPU_CSR_WRITABLE) OR (regs s (MIPSInst_RT i) AND FPU_CSR_WRITABLE)"
proof -
  define v where "v = regs s (MIPSInst_RT i) AND FPU_CSR_WRITABLE"
  define w where "w = (fcr31 s AND NOT FPU_CSR_WRITABLE) OR ((v AND NOT 0x3) OR ieee_rm ! unat (v AND 0x3))"
  have s1: "s1 = s\<lparr>fcr31 := w\<rparr>" using assms by (auto simp: emul_ctc_def Let_def w_def v_def)
  have "(w AND NOT 0x3) OR mips_rm ! unat (w AND 0x3) = (fcr31 s AND NOT FPU_CSR_WRITABLE) OR v"
  proof -
    define r where "r = ieee_rm ! unat (v AND 0x3)"
    have r: "r AND 3 = r" "r AND NOT 3 = 0" "mips_rm ! unat r = v AND 3"
      unfolding r_def using two_bits [of v] by (auto simp: ieee_rm_def mips_rm_def)
    have a: "(fcr31 s AND NOT FPU_CSR_WRITABLE) AND 3 = 0" by (simp add: and.assoc)
    have "w AND 3 = r" unfolding w_def r_def [symmetric] using a r(1) by (simp add: bit.conj_disj_distrib2 and.assoc)
    moreover have "w AND NOT 3 = (fcr31 s AND NOT FPU_CSR_WRITABLE) OR (v AND NOT 3)"
      unfolding w_def r_def [symmetric] using and_not_disjoint [OF a] r(2) by (simp add: bit.conj_disj_distrib2 and.assoc)
    moreover have "(v AND NOT 3) OR (v AND 3) = v" by (rule bit_word_eqI) (auto simp: bit_simps)
    ultimately show ?thesis using r(3) by (simp add: or.assoc)
  qed
  then show ?thesis using assms(3,4) s1 by (simp add: emul_cfc_def set_reg_def v_def)
qed

end
