(* ===== verification/Emu_Run.thy ===== *)
theory Emu_Run
  imports Emu_Moves
begin

text \<open>
  Runs of the trap handler: the instructions it emulates one after the other as a step relation, what no run
  changes, how long a run can be and how it ends.
\<close>

section \<open>What every instruction keeps\<close>

text \<open>
  The status register, and in the 32 bit register mode (\<^verbatim>\<open>Status.FR = 0\<close>) the doublewords with an odd number: a
  register pair lives in the even one.
\<close>

definition keeps :: "'m emu \<Rightarrow> 'm emu \<Rightarrow> bool" where
  "keeps s t \<longleftrightarrow> cp0_status t = cp0_status s \<and> (\<not> FR s \<longrightarrow> (\<forall>r. bit r 0 \<longrightarrow> fpr t r = fpr s r))"

named_theorems keep \<open>operations that keep the status register and the odd doublewords\<close>

lemma keeps_refl [simp, intro!]: "keeps s s"
  by (simp add: keeps_def)

lemma keeps_trans: "keeps s t \<Longrightarrow> keeps t u \<Longrightarrow> keeps s u"
  by (auto simp: keeps_def FR_def)

lemma keeps_updates [simp]:
  "keeps s (t\<lparr>regs := a\<rparr>) = keeps s t" "keeps s (t\<lparr>cp0_cause := b\<rparr>) = keeps s t" "keeps s (t\<lparr>cp0_epc := b\<rparr>) = keeps s t"
  "keeps s (t\<lparr>fcr31 := b\<rparr>) = keeps s t" "keeps s (t\<lparr>emulated := b\<rparr>) = keeps s t" "keeps s (t\<lparr>loads := b\<rparr>) = keeps s t"
  "keeps s (t\<lparr>stores := b\<rparr>) = keeps s t" "keeps s (t\<lparr>cp1ops := b\<rparr>) = keeps s t" "keeps s (t\<lparr>cp1xops := b\<rparr>) = keeps s t"
  "keeps s (t\<lparr>errors := b\<rparr>) = keeps s t" "keeps s (t\<lparr>umem := m\<rparr>) = keeps s t" "keeps s (t\<lparr>forced := l\<rparr>) = keeps s t"
  by (simp_all add: keeps_def)

lemma odd_slot: "r \<noteq> x AND NOT 1" if "bit (r :: 5 word) 0"
proof
  assume "r = x AND NOT 1"
  then show False using that by (simp only: bit_and_iff bit_not_iff_eq) simp
qed

lemma keeps_write: "keeps s t \<Longrightarrow> y = x AND NOT (if FR t then 0 else 1) \<Longrightarrow> keeps s (t\<lparr>fpr := (fpr t)(y := v)\<rparr>)"
  by (auto simp: keeps_def FR_def dest: odd_slot [of _ x])

lemma keeps_SI [keep]: "keeps s t \<Longrightarrow> keeps s (SITOREG v x t)"
  unfolding SITOREG_def by (rule keeps_write) simp_all

lemma keeps_DI [keep]: "keeps s t \<Longrightarrow> keeps s (DITOREG v x t)"
  unfolding DITOREG_def by (rule keeps_write) simp_all

section \<open>The operations\<close>

lemma keeps_if: "keeps s (fst p) \<Longrightarrow> keeps s (fst q) \<Longrightarrow> keeps s (fst (if b then p else q))"
  by simp

lemma keeps_memory [keep]:
  assumes "keeps s t"
  shows "keeps s (fst (fault t))" "keeps s (fst (emu_load64 U va r t))" "keeps s (fst (emu_store64 U va r t))"
    "keeps s (fst (emu_load32 U va r t))" "keeps s (fst (emu_store32 U va r t))"
  using assms by (simp_all add: fault_def emu_load64_def emu_store64_def emu_load32_def emu_store32_def Let_def keep split: option.split prod.split)

lemma keeps_writeback: "keeps s t \<Longrightarrow> keeps s (fpu_writeback ir rv t)"
  by (cases rv) (simp_all add: fpu_writeback_def Let_def keep)

lemma keeps_fpu_emu [keep]: "keeps s t \<Longrightarrow> keeps s (fst (fpu_emu ir t))"
proof -
  assume k: "keeps s t"
  obtain t1 out where e: "fpu_emu ir t = fpu_end ir out t1" "csr_safe (t\<lparr>cp1ops := cp1ops t + 1\<rparr>) (t1, out)" by (rule fpu_emu_end)
  have "keeps s t1" using e(2) k by (auto simp: csr_safe_def csr_only_def)
  then show ?thesis by (simp add: e(1) fpu_end_def put_rcsr_def Let_def keeps_writeback split: fpu_outcome.split)
qed

lemma keeps_fpux_emu [keep]: "keeps s t \<Longrightarrow> keeps s (fst (fpux_emu U ir t))"
  by (simp add: fpux_emu_def fpux_emu_s_def fpux_emu_d_def fpux_csr_def put_rcsr_def with_csr_def Let_def keep case_prod_beta split: option.split)

lemma keeps_branch [keep]: "keeps s t \<Longrightarrow> keeps s (fst (compute_return_epc U t))"
  by (simp add: compute_return_epc_def compute_return_epc_insn_def branch_bcond_def branch_cop1_def set_reg_def force_sig_def Let_def split: option.split)

lemma keeps_dsemul [keep]: "keeps s t \<Longrightarrow> keeps s (fst (mips_dsemul U ir pc t))" "keeps s t \<Longrightarrow> keeps s (fst (do_dsemulret U t))"
  by (simp_all add: mips_dsemul_def do_dsemulret_def force_sig_def Let_def case_prod_beta split: option.split)

lemma keeps_done [keep]: "keeps s (fst p) \<Longrightarrow> keeps s (fst (emul_done contpc p))"
  by (simp add: emul_done_def case_prod_beta)

lemma keeps_moves [keep]:
  assumes "keeps s t"
  shows "keeps s (emul_mfc ir t)" "keeps s (emul_mtc ir t)" "keeps s (emul_cfc ir t)" "keeps s (fst (emul_ctc ir t))" "keeps s (emul_movc ir t)"
  using assms by (simp_all add: emul_mfc_def emul_mtc_def emul_cfc_def emul_ctc_def emul_movc_def set_reg_def Let_def keep)

lemma keeps_insn [keep]: "keeps s t \<Longrightarrow> keeps s (fst (emul_insn U ir contpc t))"
  by (simp add: emul_insn_def emul_cop1_def Let_def keep)

lemma keeps_emul [keep]: "keeps s t \<Longrightarrow> keeps s (fst (emul U ir contpc t))"
proof (induction U ir contpc t rule: emul.induct)
  case (1 U ir contpc t)
  show ?case
  proof (cases "MIPSInst_OPCODE ir = cop1_op \<and> MIPSInst_RS ir = bc_op")
    case False
    then show ?thesis using "1.prems" by (simp add: emul_no_branch keep)
  next
    case True
    then show ?thesis using 1 by (subst emul.simps) (auto simp: Let_def keep split: option.split prod.split)
  qed
qed

lemma keeps_cop1Emulate [keep]: "keeps s t \<Longrightarrow> keeps s (fst (cop1Emulate U t))"
proof -
  assume k: "keeps s t"
  have b: "keeps s (fst (compute_return_epc U t))" using k by (rule keeps_branch)
  show ?thesis using k b unfolding cop1Emulate_def by (auto simp: Let_def keep case_prod_beta split: option.split)
qed

lemma keeps_step [keep]: "keeps s t \<Longrightarrow> keeps s (fst (handler_step U insn t))"
  by (simp add: handler_step_def convert_rm_def Let_def case_prod_beta keep)

lemma keeps_loop: "keeps s t \<Longrightarrow> keeps s (fst (handler_loop U b t))"
proof (induction U b t rule: handler_loop.induct)
  case (1 U b t)
  then show ?case by (subst handler_loop.simps) (auto simp: Let_def keep split: option.split)
qed

text \<open>
  C14. No emulated instruction, and so no run of the trap handler, changes the status register; in the 32 bit
  register mode none writes a doubleword register with an odd number.
\<close>

theorem handler_keeps:
  "cp0_status (fst (fpu_emulator_cop1Handler U has_fpu s)) = cp0_status s \<and>
   (cp0_status s AND ST0_FR = 0 \<and> bit r 0 \<longrightarrow> fpr (fst (fpu_emulator_cop1Handler U has_fpu s)) r = fpr s r)"
proof -
  have "fst (fpu_emulator_cop1Handler U has_fpu s) = fst (handler_loop U has_fpu s)"
    by (simp add: fpu_emulator_cop1Handler_def split: prod.split sum.split)
  then show ?thesis using keeps_loop [OF keeps_refl, of s U has_fpu] by (simp add: keeps_def FR_def)
qed

theorem handler_keeps_witness:
  "fpr (fst (fpu_emulator_cop1Handler word_ops False (start 0x400000 [0x400000 \<mapsto> 0x46041000]))) 3 = 0"
  using handler_keeps [of word_ops False "start 0x400000 [0x400000 \<mapsto> 0x46041000]" 3] by (simp add: start_def bit_iff_odd)

section \<open>Runs\<close>

text \<open>\<open>handler_run U n s t\<close>: the handler goes round its loop \<open>n\<close> times, from \<open>s\<close> to \<open>t\<close>.\<close>

inductive handler_run :: "'m user_ops \<Rightarrow> nat \<Rightarrow> 'm emu \<Rightarrow> 'm emu \<Rightarrow> bool" for U where
  run_none: "handler_run U 0 s s"
| run_more: "get_user U (umem s) (cp0_epc s) = Some insn \<Longrightarrow> handler_step U insn s = (s', 0) \<Longrightarrow> cp0_epc s < cp0_epc s' \<Longrightarrow>
    handler_run U n s' t \<Longrightarrow> handler_run U (Suc n) s t"

inductive_cases run_noneE [elim!]: "handler_run U 0 s t"
inductive_cases run_moreE: "handler_run U (Suc n) s t"





section \<open>Instructions that are not for the emulator\<close>

lemma rm_back_and_forth: "convert_rm mips_rm ((convert_rm ieee_rm s)\<lparr>emulated := k\<rparr>) = s\<lparr>emulated := k\<rparr>"
  by (simp add: convert_rm_def Let_def csr_of_fcr31_inverse rm_there_and_back fcr31_of_csr_inverse)

lemma foreign_step:
  assumes "get_user U (umem s) (cp0_epc s) = Some ir" and "ir \<noteq> 0" and "\<not> one_of_ours ir" and "\<not> delay_slot s"
  shows "handler_step U ir s = (s\<lparr>emulated := emulated s + 1\<rparr>, SIGILL)"
proof -
  let ?s = "convert_rm ieee_rm s"
  have same: "umem ?s = umem s" "cp0_epc ?s = cp0_epc s" "delay_slot ?s = delay_slot s" "emulated ?s = emulated s"
    by (simp_all add: convert_rm_def delay_slot_def Let_def)
  have "emul U ir (cp0_epc ?s + 4) ?s = (?s\<lparr>emulated := emulated s + 1\<rparr>, SIGILL)"
    using assms(3) same by (subst emul_no_branch) (auto simp: one_of_ours_def emul_insn_def Let_def)
  then have "cop1Emulate U ?s = (?s\<lparr>emulated := emulated s + 1\<rparr>, SIGILL)"
    using assms same by (subst cop1Emulate_plain) auto
  then show ?thesis using assms(2) rm_back_and_forth [of "emulated s + 1" s] by (simp add: handler_step_def Let_def)
qed

text \<open>
  C38. An instruction that is neither a floating point instruction nor the no-operation, met at the program counter and outside a
  delay slot, makes the handler return SIGILL with the whole machine state as it was, the control register included; only
  the count of emulated instructions is one higher. The no-operation (the word 0) is skipped, and in a
  delay slot the branch before it is executed.
\<close>

theorem foreign_illegal:
  assumes "get_user U (umem s) (cp0_epc s) = Some ir" and "ir \<noteq> 0" and "\<not> one_of_ours ir" and "\<not> delay_slot s"
  shows "fpu_emulator_cop1Handler U has_fpu s = (s\<lparr>emulated := emulated s + 1\<rparr>, SIGILL)"
proof -
  have "handler_loop U has_fpu s = (s\<lparr>emulated := emulated s + 1\<rparr>, Inr SIGILL)"
    using assms foreign_step [OF assms] by (subst handler_loop.simps) (simp add: Let_def)
  then show ?thesis by (simp add: fpu_emulator_cop1Handler_def)
qed

theorem foreign_illegal_witness:
  "fpu_emulator_cop1Handler word_ops False (start 0x400000 [0x400000 \<mapsto> 0x25080001]) = ((start 0x400000 [0x400000 \<mapsto> 0x25080001])\<lparr>emulated := 1\<rparr>, SIGILL)"
proof -
  let ?s = "start 0x400000 [0x400000 \<mapsto> 0x25080001]"
  have "get_user word_ops (umem ?s) (cp0_epc ?s) = Some 0x25080001" "\<not> one_of_ours 0x25080001" "\<not> delay_slot ?s" "emulated ?s + 1 = 1" by code_simp+
  then show ?thesis using foreign_illegal [of word_ops ?s "0x25080001" False] by simp
qed

lemma nop_loop:
  assumes "\<And>i. i < n \<Longrightarrow> get_user U (umem s) (cp0_epc s + 4 * of_nat i) = Some 0" and "unat (cp0_epc s) + 4 * n < 2 ^ 32"
  shows "handler_loop U False s = handler_loop U False (s\<lparr>cp0_epc := cp0_epc s + 4 * of_nat n\<rparr>)"
  using assms
proof (induction n arbitrary: s)
  case (Suc n)
  let ?s = "s\<lparr>cp0_epc := cp0_epc s + 4\<rparr>"
  have u: "unat (cp0_epc s + 4) = unat (cp0_epc s) + 4" using Suc.prems(2) by (subst unat_add_lem [THEN iffD1]) simp_all
  then have "handler_loop U False s = handler_loop U False ?s"
    using Suc.prems(1) [of 0] by (subst handler_loop.simps) (simp add: handler_step_def word_less_nat_alt)
  also have "\<dots> = handler_loop U False (?s\<lparr>cp0_epc := cp0_epc ?s + 4 * of_nat n\<rparr>)"
    using Suc.prems u Suc.prems(1) [of "Suc i" for i] by (intro Suc.IH) (auto simp: algebra_simps)
  finally show ?case by (simp add: algebra_simps)
qed simp

text \<open>
  Without a hardware FPU the handler skips a row of no-operations behind a trap and stops at the first instruction
  that is not a floating point one; it returns 0, so that the processor goes on there.
\<close>

lemma nops_skipped:
  assumes "\<And>i. i < n \<Longrightarrow> get_user U (umem s) (cp0_epc s + 4 * of_nat i) = Some 0" and "unat (cp0_epc s) + 4 * n < 2 ^ 32" and "0 < n"
    and "get_user U (umem s) (cp0_epc s + 4 * of_nat n) = Some ir" and "ir \<noteq> 0" and "\<not> one_of_ours ir" and "\<not> delay_slot s"
  shows "fpu_emulator_cop1Handler U False s = (s\<lparr>cp0_epc := cp0_epc s + 4 * of_nat n, emulated := emulated s + 1\<rparr>, 0)"
proof -
  let ?t = "s\<lparr>cp0_epc := cp0_epc s + 4 * of_nat n\<rparr>"
  have "handler_loop U False ?t = (?t\<lparr>emulated := emulated s + 1\<rparr>, Inr SIGILL)"
    using foreign_step [of U ?t ir] assms(4-7) by (subst handler_loop.simps) (simp add: delay_slot_def)
  moreover have "cp0_epc s + 4 * of_nat n \<noteq> cp0_epc s"
  proof -
    have "unat (4 * of_nat n :: u32) = 4 * n" using assms(2) by (simp add: unat_mult_lem [THEN iffD1] unat_of_nat take_bit_nat_eq_self)
    then show ?thesis using assms(3) by (auto dest: arg_cong [where f = unat])
  qed
  ultimately show ?thesis using nop_loop [OF assms(1,2)] by (simp add: fpu_emulator_cop1Handler_def)
qed

end
