(* ===== verification/Emu_Slots.thy ===== *)
theory Emu_Slots
  imports Emu_Run
begin

text \<open>
  Delay slots: which instructions the emulator takes for branches, and where the program goes on after a floating
  point instruction in the delay slot of one.
\<close>

section \<open>Recognising branches\<close>

text \<open>
  The emulator's own test for a branch agrees with the architecture on every instruction but the ones of
  the opcodes \<^verbatim>\<open>jalx\<close>, \<^verbatim>\<open>cop0\<close>, \<^verbatim>\<open>cop2\<close> and \<^verbatim>\<open>cop1x\<close>, which it partly counts as branches, and the DSP branch \<^verbatim>\<open>bposge32\<close>, which
  it does not know.
\<close>

lemma branch_recognised:
  assumes "MIPSInst_OPCODE i \<notin> {jalx_op, cop0_op, cop2_op, cop1x_op}"
    and "\<not> (MIPSInst_OPCODE i = bcond_op \<and> MIPSInst_RT i = bposge32_op)"
  shows "isBranchInstr i \<longleftrightarrow> mips_decode i \<noteq> None"
proof -
  consider (bcond) "MIPSInst_OPCODE i = bcond_op" | (spec) "MIPSInst_OPCODE i = spec_op" | (cop1) "MIPSInst_OPCODE i = cop1_op"
    | (other) "MIPSInst_OPCODE i \<notin> {bcond_op, spec_op, cop1_op}" by blast
  then show ?thesis
  proof cases
    case other
    then show ?thesis using assms(1) by (auto simp: isBranchInstr_def mips_decode_def Let_def)
  qed (use assms in \<open>simp_all add: isBranchInstr_def mips_decode_def Let_def\<close>)
qed

section \<open>Going on after the delay slot\<close>

lemma done_epc: "emul_done contpc p = (t, 0) \<Longrightarrow> cp0_epc t = contpc \<and> \<not> delay_slot t"
  by (auto simp: emul_done_ok delay_slot_def and.assoc)

lemma insn_epc:
  assumes "emul_insn U ir contpc s = (t, 0)" and "ir \<noteq> CP1UNDEF"
  shows "cp0_epc t = contpc \<and> \<not> delay_slot t"
  using assms unfolding emul_insn_def emul_cop1_def Let_def by (auto dest: done_epc split: if_splits)

text \<open>
  C19. A floating point instruction in the delay slot of a branch: when the emulator has executed it, the program goes on
  where the branch code of the kernel says (the target or the instruction behind the slot), out of the delay slot. The
  frame return instruction \<^verbatim>\<open>CP1UNDEF\<close> is the exception.
\<close>

theorem delay_slot_continues:
  assumes "delay_slot s" and "get_user U (umem s) (cp0_epc s) = Some i" and "isBranchInstr i"
    and b: "compute_return_epc U s = (s1, 0)" and "get_user U (umem s) (cp0_epc s + 4) = Some ir" and "ir \<noteq> CP1UNDEF"
    and e: "cop1Emulate U s = (s', 0)"
  shows "cp0_epc s' = cp0_epc s1 \<and> \<not> delay_slot s'"
proof -
  let ?s = "s1\<lparr>cp0_epc := cp0_epc s\<rparr>"
  have s1: "umem s1 = umem s" "delay_slot s1" using branch_memory [of U s] branch_delay [of U s] b assms(1) by simp_all
  have "emul U ir (cp0_epc s1) ?s = (s', 0)" using e assms(1-5) s1 by (simp add: cop1Emulate_def Let_def)
  moreover have "delay_slot ?s" using s1(2) by (simp add: delay_slot_def)
  ultimately have "emul_insn U ir (cp0_epc s1) (?s\<lparr>emulated := emulated ?s + 1\<rparr>) = (s', 0)"
    by (subst (asm) emul.simps) (auto simp: Let_def split: if_splits)
  then show ?thesis using assms(6) by (rule insn_epc)
qed

theorem delay_slot_continues_witness:
  "let s = (start 0x400000 [0x400000 \<mapsto> 0x10000003, 0x400004 \<mapsto> 0x46041000])\<lparr>cp0_cause := CAUSEF_BD\<rparr>
   in cp0_epc (fst (cop1Emulate word_ops s)) = 0x400010"
proof -
  let ?s = "(start 0x400000 [0x400000 \<mapsto> 0x10000003, 0x400004 \<mapsto> 0x46041000])\<lparr>cp0_cause := CAUSEF_BD\<rparr>"
  have i: "delay_slot ?s" "get_user word_ops (umem ?s) (cp0_epc ?s) = Some 0x10000003" "isBranchInstr 0x10000003"
    "get_user word_ops (umem ?s) (cp0_epc ?s + 4) = Some 0x46041000" "(0x46041000 :: u32) \<noteq> CP1UNDEF"
    "cp0_epc (fst (compute_return_epc word_ops ?s)) = 0x400010" by code_simp+
  have b: "compute_return_epc word_ops ?s = (fst (compute_return_epc word_ops ?s), 0)"
    by (rule pair_snd) code_simp
  have e: "cop1Emulate word_ops ?s = (fst (cop1Emulate word_ops ?s), 0)"
    by (rule pair_snd) code_simp
  show ?thesis using delay_slot_continues [OF i(1-3) b i(4,5) e] i(6) by (simp add: Let_def)
qed

section \<open>Limits of the emulator\<close>

text \<open>
  A prefetch (\<^verbatim>\<open>prefx\<close>) is illegal: the format field that selects it has two bits, and the case for it is never met.
\<close>

lemma prefx_illegal:
  assumes "MIPSInst_FUNC ir = 0x0f \<or> MIPSInst_FUNC ir = pfetch_op"
  shows "fpux_emu U ir s = (s\<lparr>cp1xops := cp1xops s + 1\<rparr>, SIGILL)"
proof -
  have "ir AND 3 = (ir AND 0x3f) AND 3" by (simp add: and.assoc)
  moreover have "(ucast (ucast (ir AND 0x3f) :: 6 word) :: u32) = ir AND 0x3f"
  proof (rule bit_word_eqI)
    have m: "(0x3f :: u32) = mask 6" by (simp add: mask_numeral)
    fix n show "bit (ucast (ucast (ir AND 0x3f) :: 6 word) :: u32) n = bit (ir AND 0x3f) n" unfolding m by (auto simp: bit_simps)
  qed
  ultimately have "MIPSInst_FMA_FFMT ir = ucast (MIPSInst_FUNC ir) AND 3" by (simp add: MIPSInst_FMA_FFMT_def MIPSInst_FUNC_def)
  then have "MIPSInst_FMA_FFMT ir = 3" using assms by auto
  then show ?thesis by (simp add: fpux_emu_def Let_def)
qed

text \<open>A conditional move to register 0 writes it, unlike the other moves to a general register.\<close>

lemma movc_writes_zero:
  assumes "MIPSInst_RD ir = 0" and "fcc_matches (fcr31 s) (MIPSInst_RT ir)"
  shows "regs (emul_movc ir s) 0 = regs s (MIPSInst_RS ir)"
  using assms by (simp add: emul_movc_def set_reg_def)

text \<open>The instruction \<^verbatim>\<open>CP1UNDEF\<close> outside a frame: the handler returns 0 and the program counter stays where it is.\<close>

lemma cp1undef_stays:
  assumes "access_ok (cp0_epc s - 4) 16" and "uload U (umem s) (cp0_epc s + 4) \<noteq> Some BD_COOKIE"
  shows "emul U CP1UNDEF contpc s = (s\<lparr>emulated := emulated s + 1, errors := errors s + 1\<rparr>, 0)"
proof -
  have "uload U (umem s) (4 + cp0_epc s) \<noteq> Some BD_COOKIE" using assms(2) by (simp add: add.commute)
  then show ?thesis using assms(1)
    by (subst emul_no_branch)
      (simp_all add: MIPSInst_OPCODE_def MIPSInst_RS_def emul_insn_def emul_cop1_def do_dsemulret_def Let_def)
qed

text \<open>
  A multiply-add whose exception is enabled returns SIGFPE like the other operations, but has written its destination
  (here \<^verbatim>\<open>madd.s $f0,$f2,$f4,$f6\<close> with inexact enabled, \<open>1 + 1 * 2 ^ -24\<close>).
\<close>

lemma madd_trap_writes:
  "let s = (start 0x400000 Map.empty)\<lparr>fcr31 := 0x80, fpr := (\<lambda>r. 0x3f800000)(0 := 0, 6 := 0x33800000)\<rparr>;
       p = fpux_emu word_ops 0x4c462020 s
   in snd p = SIGFPE \<and> SIFROMREG s 0 = 0 \<and> SIFROMREG (fst p) 0 = 0x3f800000"
  by code_simp

text \<open>
  A move between floating point registers reads the cause bits the last operation left and raises their sticky
  flags again, though the program has cleared them.
\<close>

lemma move_raises_stale_flags: "fcr31 (fst (fpu_emu 0x46001006 ((start 0x400000 Map.empty)\<lparr>fcr31 := 0x1000\<rparr>))) = 0x1004"
  by code_simp

text \<open>
  The jump \<^verbatim>\<open>jalx\<close> counts as a branch in the emulator, but the branch code leaves the EPC at it: the delay slot would be
  followed by the jump again.
\<close>

lemma jalx_stays: "MIPSInst_OPCODE i = jalx_op \<Longrightarrow> isBranchInstr i \<and> compute_return_epc_insn epc i s = (s, 0)"
  by (simp add: isBranchInstr_def compute_return_epc_insn_def)

text \<open>The same holds of the branches on coprocessor 2 conditions.\<close>

lemma bc2_stays: "MIPSInst_OPCODE i = cop2_op \<Longrightarrow> MIPSInst_RS i = bc_op \<Longrightarrow> isBranchInstr i \<and> compute_return_epc_insn epc i s = (s, 0)"
  by (simp add: isBranchInstr_def compute_return_epc_insn_def)

text \<open>
  The conversion of an unsigned word rounds twice: the word \<open>0xc000017f\<close> is nearest to \<open>0xc0000100\<close>, but the result
  is \<open>0xc0000200\<close>.
\<close>

lemma funs_rounds_twice:
  "snd (ieee754sp_funs (csr_of_fcr31 0) 0xc000017f) = 0x4f400002 \<and>
   snd (ieee754sp_flong (csr_of_fcr31 0) 0xc000017f) = 0x4f400001"
  by code_simp

end
