(* ===== verification/Signals.thy ===== *)
theory Signals
  imports Traps
begin

text \<open>
  Signal delivery (\<^verbatim>\<open>arch/mips/kernel/signal.c\<close>, \<^verbatim>\<open>signal-common.h\<close>, the context routines of \<^verbatim>\<open>r4k_fpu.S\<close>, and what they
  use of \<^verbatim>\<open>kernel/signal.c\<close>): the frames on the user stack, the way into a handler and the system calls that leave it. This
  theory holds the code; \<^verbatim>\<open>Signal_Frames\<close> proves that a handler leaves the interrupted program as it was.
\<close>

section \<open>Signal sets\<close>

text \<open>\<^verbatim>\<open>sigset_t\<close> is an array of \<^verbatim>\<open>_NSIG_WORDS\<close> = 4 words; signals are numbered from 1 to 128.\<close>

type_synonym sigset = "2 word \<Rightarrow> u32"

abbreviation (input) SIGKILL :: u32 where "SIGKILL \<equiv> 9"
abbreviation (input) SIGSTOP :: u32 where "SIGSTOP \<equiv> 23"

definition sigmask :: "u32 \<Rightarrow> u32" where
  "sigmask sig = push_bit (unat (sig - 1)) 1"

definition BLOCKABLE :: u32 where
  "BLOCKABLE = NOT (sigmask SIGKILL OR sigmask SIGSTOP)"

definition sigaddset :: "sigset \<Rightarrow> u32 \<Rightarrow> sigset" where
  "sigaddset ss sig = (let sig = unat (sig - 1); w = of_nat (sig div 32) in ss(w := ss w OR push_bit (sig mod 32) 1))"

definition sigismember :: "sigset \<Rightarrow> u32 \<Rightarrow> bool" where
  "sigismember ss sig = (let sig = unat (sig - 1) in 1 AND drop_bit (sig mod 32) (ss (of_nat (sig div 32))) \<noteq> 0)"

definition sigorsets :: "sigset \<Rightarrow> sigset \<Rightarrow> sigset" where
  "sigorsets a b = (\<lambda>w. a w OR b w)"

definition signandsets :: "sigset \<Rightarrow> sigset \<Rightarrow> sigset" where
  "signandsets a b = (\<lambda>w. a w AND NOT (b w))"

definition sigdelsetmask :: "sigset \<Rightarrow> u32 \<Rightarrow> sigset" where
  "sigdelsetmask ss m = ss(0 := ss 0 AND NOT m)"

definition has_pending_signals :: "sigset \<Rightarrow> sigset \<Rightarrow> bool" where
  "has_pending_signals signal blocked \<longleftrightarrow>
     (signal 3 AND NOT (blocked 3)) OR (signal 2 AND NOT (blocked 2)) OR (signal 1 AND NOT (blocked 1)) OR (signal 0 AND NOT (blocked 0)) \<noteq> 0"

section \<open>The task\<close>

record k_sigaction =
  sa_flags :: u32
  sa_handler :: u32
  sa_mask :: sigset

text \<open>
  Beside the processor: the multiply registers, the six further accumulator halves of the DSP extension
  (\<open>acc 0\<close> is \<^verbatim>\<open>hi1\<close>, \<open>acc 1\<close> is \<^verbatim>\<open>lo1\<close>, up to \<^verbatim>\<open>lo3\<close>) and its control register, the signal state of the task and its
  thread flags \<^verbatim>\<open>TIF_SIGPENDING\<close> and \<^verbatim>\<open>TIF_RESTORE_SIGMASK\<close>, the alternate stack, and whether the restart block of the task
  has been reset to \<^verbatim>\<open>do_no_restart_syscall\<close>.
\<close>

record 'm task = "'m cpu" +
  hi :: u32
  lo :: u32
  acc :: "nat \<Rightarrow> u32"
  dsp_ctl :: u32
  blocked :: sigset
  saved_sigmask :: sigset
  pending :: sigset
  shared_pending :: sigset
  group_stop_count :: u32
  freezing :: bool
  tif_sigpending :: bool
  tif_restore_sigmask :: bool
  sas_ss_sp :: u32
  sas_ss_size :: u32
  action :: "u32 \<Rightarrow> k_sigaction"
  no_restart :: bool

text \<open>The process \<open>p\<close> on a processor without FPU, with no signals and no handlers.\<close>

definition task_start :: "'m emu \<Rightarrow> 'm task" where
  "task_start p = \<lparr>proc = p, cp0_badvaddr = 0, mflags = MF_FIXADE, sent = [], unaligned_instructions = 0, current = 1, tp_value = 0,
     used_math = False, ll_bit = 0, ll_task = None, config_llsc = False, cpu_has_llsc = False, cpu_has_fpu = False, hw_fpr = (\<lambda>r. 0), hw_csr = 0, siginfo = [],
     hi = 0, lo = 0, acc = (\<lambda>i. 0), dsp_ctl = 0, blocked = (\<lambda>w. 0), saved_sigmask = (\<lambda>w. 0), pending = (\<lambda>w. 0),
     shared_pending = (\<lambda>w. 0), group_stop_count = 0, freezing = False, tif_sigpending = False, tif_restore_sigmask = False, sas_ss_sp = 0, sas_ss_size = 0,
     action = (\<lambda>sig. \<lparr>sa_flags = 0, sa_handler = 0, sa_mask = (\<lambda>w. 0)\<rparr>), no_restart = False\<rparr>"

definition recalc_sigpending :: "'m task \<Rightarrow> 'm task" where
  "recalc_sigpending s = s\<lparr>tif_sigpending := 0 <s group_stop_count s \<or> freezing s \<or>
     has_pending_signals (pending s) (blocked s) \<or> has_pending_signals (shared_pending s) (blocked s)\<rparr>"

definition set_blocked :: "sigset \<Rightarrow> 'm task \<Rightarrow> 'm task" where
  "set_blocked ss s = recalc_sigpending (s\<lparr>blocked := ss\<rparr>)"

abbreviation (input) SIG_BLOCK :: int where "SIG_BLOCK \<equiv> 1"
abbreviation (input) SIG_UNBLOCK :: int where "SIG_UNBLOCK \<equiv> 2"
abbreviation (input) SIG_SETMASK :: int where "SIG_SETMASK \<equiv> 3"
abbreviation (input) EPERM :: int where "EPERM \<equiv> 1"
abbreviation (input) ENOMEM :: int where "ENOMEM \<equiv> 12"
abbreviation (input) EINVAL :: int where "EINVAL \<equiv> 22"

text \<open>The old mask, which the callers modelled here do not ask for, is left out.\<close>

definition sigprocmask :: "int \<Rightarrow> sigset \<Rightarrow> 'm task \<Rightarrow> 'm task \<times> int" where
  "sigprocmask how ss s =
     (if how = SIG_BLOCK then (set_blocked (sigorsets (blocked s) ss) s, 0)
      else if how = SIG_UNBLOCK then (set_blocked (signandsets (blocked s) ss) s, 0)
      else if how = SIG_SETMASK then (set_blocked ss s, 0)
      else (recalc_sigpending s, - EINVAL))"

text \<open>\<^verbatim>\<open>SIG_DFL\<close> is the handler 0.\<close>

definition force_sigsegv :: "u32 \<Rightarrow> 'm task \<Rightarrow> 'm task" where
  "force_sigsegv sig s = force_signal SIGSEGV
     (if sig = 11 then s\<lparr>action := (action s)(sig := (action s sig)\<lparr>sa_handler := 0\<rparr>)\<rparr> else s)"

section \<open>The alternate stack\<close>

abbreviation (input) SS_ONSTACK :: u32 where "SS_ONSTACK \<equiv> 1"
abbreviation (input) SS_DISABLE :: u32 where "SS_DISABLE \<equiv> 2"
abbreviation (input) MINSIGSTKSZ :: u32 where "MINSIGSTKSZ \<equiv> 2048"

definition on_sig_stack :: "'m task \<Rightarrow> u32 \<Rightarrow> bool" where
  "on_sig_stack s sp \<longleftrightarrow> sp - sas_ss_sp s < sas_ss_size s"

definition sas_ss_flags :: "'m task \<Rightarrow> u32 \<Rightarrow> u32" where
  "sas_ss_flags s sp = (if sas_ss_size s = 0 then SS_DISABLE else if on_sig_stack s sp then SS_ONSTACK else 0)"

text \<open>
  Copies of words: \<^verbatim>\<open>__copy_to_user\<close> stops at the first word that faults, and \<^verbatim>\<open>__copy_from_user\<close> fails when one of them does.
  A \<^verbatim>\<open>stack_t\<close> is the three words \<^verbatim>\<open>ss_sp\<close>, \<^verbatim>\<open>ss_size\<close>, \<^verbatim>\<open>ss_flags\<close>.
\<close>

definition copy_word :: "'m user_ops \<Rightarrow> u32 \<Rightarrow> u32 \<Rightarrow> 'm \<times> bool \<Rightarrow> 'm \<times> bool" where
  "copy_word U a v = (\<lambda>(m, err). if err then (m, True) else case ustore U m a v of None \<Rightarrow> (m, True) | Some m' \<Rightarrow> (m', False))"

definition copy_to_user :: "'m user_ops \<Rightarrow> u32 \<Rightarrow> (nat \<Rightarrow> u32) \<Rightarrow> nat \<Rightarrow> 'm \<Rightarrow> 'm \<times> bool" where
  "copy_to_user U a w n m = fold (\<lambda>i. copy_word U (a + 4 * of_nat i) (w i)) [0..<n] (m, False)"

fun copy_from_user :: "'m user_ops \<Rightarrow> 'm \<Rightarrow> u32 \<Rightarrow> nat \<Rightarrow> u32 list option" where
  "copy_from_user U m a 0 = Some []"
| "copy_from_user U m a (Suc n) = (case (uload U m a, copy_from_user U m (a + 4) n) of
     (Some v, Some vs) \<Rightarrow> Some (v # vs) | _ \<Rightarrow> None)"

definition new_altstack :: "u32 \<Rightarrow> u32 \<Rightarrow> u32 \<Rightarrow> u32 \<Rightarrow> 'm task \<Rightarrow> 'm task \<times> int" where
  "new_altstack ss_sp ss_size ss_flags sp s =
     (if on_sig_stack s sp then (s, - EPERM)
      else if ss_flags \<noteq> SS_DISABLE \<and> ss_flags \<noteq> SS_ONSTACK \<and> ss_flags \<noteq> 0 then (s, - EINVAL)
      else if ss_flags = SS_DISABLE then (s\<lparr>sas_ss_sp := 0, sas_ss_size := 0\<rparr>, 0)
      else if ss_size < MINSIGSTKSZ then (s, - ENOMEM)
      else (s\<lparr>sas_ss_sp := ss_sp, sas_ss_size := ss_size\<rparr>, 0))"

definition do_sigaltstack :: "'m user_ops \<Rightarrow> u32 \<Rightarrow> u32 \<Rightarrow> u32 \<Rightarrow> 'm task \<Rightarrow> 'm task \<times> int" where
  "do_sigaltstack U uss uoss sp s =
     (let oss = (\<lambda>i :: nat. if i = 0 then sas_ss_sp s else if i = 1 then sas_ss_size s else sas_ss_flags s sp);
          (s, error) = (if uss = 0 then (s, 0)
            else if \<not> access_ok uss 12 then (s, - EFAULT)
            else case (uload U (umem (proc s)) uss, uload U (umem (proc s)) (uss + 8), uload U (umem (proc s)) (uss + 4)) of
              (Some ss_sp, Some ss_flags, Some ss_size) \<Rightarrow> new_altstack ss_sp ss_size ss_flags sp s
            | _ \<Rightarrow> (s, - EFAULT))
      in if error \<noteq> 0 then (s, error)
         else if uoss = 0 then (s, 0)
         else if \<not> access_ok uoss 12 then (s, - EFAULT)
         else let (m, err) = copy_to_user U uoss oss 3 (umem (proc s))
              in (s\<lparr>proc := (proc s)\<lparr>umem := m\<rparr>\<rparr>, if err then - EFAULT else 0))"

definition sys_sigaltstack :: "'m user_ops \<Rightarrow> 'm task \<Rightarrow> 'm task \<times> int" where
  "sys_sigaltstack U s = do_sigaltstack U (regs (proc s) 4) (regs (proc s) 5) (regs (proc s) 29) s"

section \<open>The signal context\<close>

text \<open>
  The addresses of the members of a \<^verbatim>\<open>struct sigcontext\<close> at \<open>sc\<close>; those of the floating point registers are in
  \<^verbatim>\<open>Kernel_Linkage\<close>. Its size is 592 bytes.
\<close>

definition sc_pc :: "u32 \<Rightarrow> u32" where
  "sc_pc sc = sc + 8"

definition sc_regs :: "u32 \<Rightarrow> nat \<Rightarrow> u32" where
  "sc_regs sc i = sc + 16 + 8 * of_nat i"

definition sc_used_math :: "u32 \<Rightarrow> u32" where
  "sc_used_math sc = sc + 540"

definition sc_dsp :: "u32 \<Rightarrow> u32" where
  "sc_dsp sc = sc + 544"

definition sc_mdhi :: "u32 \<Rightarrow> u32" where
  "sc_mdhi sc = sc + 552"

definition sc_mdlo :: "u32 \<Rightarrow> u32" where
  "sc_mdlo sc = sc + 560"

definition sc_acc :: "u32 \<Rightarrow> nat \<Rightarrow> u32" where
  "sc_acc sc i = sc + 568 + 4 * of_nat i"

text \<open>
  \<^verbatim>\<open>rddsp\<close> and \<^verbatim>\<open>wrdsp\<close> with \<^verbatim>\<open>DSP_MASK\<close> reach every field of the control register (position, count, carry, condition and flag bits); its other bits read zero.
  The position is also the field of the state the branch code reads.
\<close>

abbreviation (input) DSP_FIELDS :: u32 where "DSP_FIELDS \<equiv> 0x0fff7fbf"

definition rddsp :: "'m task \<Rightarrow> u32" where
  "rddsp s = dsp_ctl s AND DSP_FIELDS"

definition wrdsp :: "u32 \<Rightarrow> 'm task \<Rightarrow> 'm task" where
  "wrdsp v s = s\<lparr>dsp_ctl := v AND DSP_FIELDS, proc := (proc s)\<lparr>dspcontrol := v AND 0x3f\<rparr>\<rparr>"

definition is_fpu_owner :: "'m task \<Rightarrow> bool" where
  "is_fpu_owner s \<longleftrightarrow> cpu_has_fpu s \<and> hw_fcr31 (proc s) \<noteq> None"

subsection \<open>The floating point registers in hardware\<close>

definition even_regs :: "nat list" where
  "even_regs = map ((*) 2) [0..<16]"

text \<open>
  Each access has an entry in the exception table, so a page fault ends the routine with \<^verbatim>\<open>-EFAULT\<close> (\<open>True\<close>). A double word
  access at an address that is no multiple of 8 is an address error, which no table entry catches: \<^verbatim>\<open>do_ade\<close> declares that
  it \<^emph>\<open>does not happen\<close> and dies in kernel mode (\<open>None\<close>), as \<^verbatim>\<open>kernel_ldc1_dies\<close> shows.
\<close>

definition hw_save_fpr :: "'m user_ops \<Rightarrow> u32 \<Rightarrow> (5 word \<Rightarrow> u64) \<Rightarrow> nat \<Rightarrow> 'm \<times> bool \<Rightarrow> 'm \<times> bool" where
  "hw_save_fpr U sc f i = (\<lambda>(m, err). if err then (m, True)
     else case ustore64 U m (sc_fpregs sc i) (f (of_nat i)) of (m', ok) \<Rightarrow> if ok then (m', False) else (m, True))"

definition hw_save_fp_context :: "'m user_ops \<Rightarrow> u32 \<Rightarrow> 'm task \<Rightarrow> ('m task \<times> bool) option" where
  "hw_save_fp_context U sc s =
     (if sc_fpregs sc 0 AND 7 \<noteq> 0 then None
      else let (m, err) = copy_word U (sc_fpc_csr sc) (hw_csr s) (fold (hw_save_fpr U sc (hw_fpr s)) even_regs (umem (proc s), False))
           in Some (s\<lparr>proc := (proc s)\<lparr>umem := m\<rparr>\<rparr>, err))"

text \<open>
  A write of the control register with a cause bit whose exception is enabled, or with the one of an unimplemented operation,
  raises a floating point exception at once. \<^verbatim>\<open>do_fpe\<close> dies on one in kernel mode.
\<close>

definition ctc_traps :: "u32 \<Rightarrow> bool" where
  "ctc_traps csr \<longleftrightarrow> csr AND FPU_CSR_UNI_X \<noteq> 0 \<or> drop_bit 12 csr AND drop_bit 7 csr AND 0x1f \<noteq> 0"

definition hw_restore_fpr :: "'m user_ops \<Rightarrow> u32 \<Rightarrow> 'm \<Rightarrow> nat \<Rightarrow> (5 word \<Rightarrow> u64) \<times> bool \<Rightarrow> (5 word \<Rightarrow> u64) \<times> bool" where
  "hw_restore_fpr U sc m i = (\<lambda>(f, err). if err then (f, True)
     else case uload64 U m (sc_fpregs sc i) of None \<Rightarrow> (f, True) | Some v \<Rightarrow> (f(of_nat i := v), False))"

definition hw_restore_fp_context :: "'m user_ops \<Rightarrow> u32 \<Rightarrow> 'm task \<Rightarrow> ('m task \<times> bool) option" where
  "hw_restore_fp_context U sc s = (case uload U (umem (proc s)) (sc_fpc_csr sc) of
     None \<Rightarrow> Some (s, True)
   | Some csr \<Rightarrow>
       if sc_fpregs sc 0 AND 7 \<noteq> 0 then None
       else let (f, err) = fold (hw_restore_fpr U sc (umem (proc s))) even_regs (hw_fpr s, False); s = s\<lparr>hw_fpr := f\<rparr>
            in if err then Some (s, True)
               else if ctc_traps csr then None
               else Some (set_hw_csr csr s, False))"

text \<open>\<^verbatim>\<open>signal_init\<close> points the two function variables at the hardware or at the emulator routines.\<close>

definition save_fp_context :: "'m user_ops \<Rightarrow> u32 \<Rightarrow> 'm task \<Rightarrow> ('m task \<times> bool) option" where
  "save_fp_context U sc s = (if cpu_has_fpu s then hw_save_fp_context U sc s
     else let (p, err) = fpu_emulator_save_context U sc (proc s) in Some (s\<lparr>proc := p\<rparr>, err \<noteq> 0))"

definition restore_fp_context :: "'m user_ops \<Rightarrow> u32 \<Rightarrow> u32 \<Rightarrow> 'm task \<Rightarrow> ('m task \<times> bool) option" where
  "restore_fp_context U junk sc s = (if cpu_has_fpu s then hw_restore_fp_context U sc s
     else let (p, err) = fpu_emulator_restore_context U junk sc (proc s) in Some (s\<lparr>proc := p\<rparr>, err \<noteq> 0))"

subsection \<open>Saving and restoring the context\<close>

text \<open>
  The members for general registers have 64 bits. The result is \<open>None\<close> when the kernel dies and otherwise says whether
  some access has failed.
\<close>

definition put_gp_context :: "'m user_ops \<Rightarrow> u32 \<Rightarrow> 'm task \<Rightarrow> 'm \<times> bool" where
  "put_gp_context U sc s =
     (let p = proc s;
          st = or_put64 U (sc_pc sc) (ucast (cp0_epc p)) (umem p, False);
          st = (fst (ustore64 U (fst st) (sc_regs sc 0) 0), snd st);
          st = fold (\<lambda>i. or_put64 U (sc_regs sc i) (ucast (regs p (of_nat i)))) [1..<32] st;
          st = or_put64 U (sc_mdlo sc) (ucast (lo s)) (or_put64 U (sc_mdhi sc) (ucast (hi s)) st);
          st = (if cpu_has_dsp p then or_put U (sc_dsp sc) (rddsp s) (fold (\<lambda>i. or_put U (sc_acc sc i) (acc s i)) [0..<6] st) else st)
      in or_put U (sc_used_math sc) (if used_math s then 1 else 0) st)"

definition setup_sigcontext :: "'m user_ops \<Rightarrow> u32 \<Rightarrow> 'm task \<Rightarrow> ('m task \<times> bool) option" where
  "setup_sigcontext U sc s =
     (let (m, err) = put_gp_context U sc s;
          s = s\<lparr>proc := (proc s)\<lparr>umem := m\<rparr>\<rparr>
      in if \<not> used_math s then Some (s, err)
         else map_option (\<lambda>(s, e). (s, err \<or> e)) (save_fp_context U sc (if is_fpu_owner s then s else restore_fp (own_fpu s))))"

text \<open>A 64 bit access that faults delivers zero, one of 32 bits the parameter \<open>junk\<close>.\<close>

definition get_long :: "'m user_ops \<Rightarrow> 'm \<Rightarrow> u32 \<Rightarrow> u32 \<times> bool" where
  "get_long U m a = (case uload64 U m a of None \<Rightarrow> (0, True) | Some v \<Rightarrow> (ucast v, False))"

definition get_int :: "'m user_ops \<Rightarrow> u32 \<Rightarrow> 'm \<Rightarrow> u32 \<Rightarrow> u32 \<times> bool" where
  "get_int U junk m a = (case uload U m a of None \<Rightarrow> (junk, True) | Some v \<Rightarrow> (v, False))"

definition restore_gp_reg :: "'m user_ops \<Rightarrow> u32 \<Rightarrow> 'm \<Rightarrow> nat \<Rightarrow> (5 word \<Rightarrow> u32) \<times> bool \<Rightarrow> (5 word \<Rightarrow> u32) \<times> bool" where
  "restore_gp_reg U sc m i = (\<lambda>(r, err). let (v, e) = get_long U m (sc_regs sc i) in (r(of_nat i := v), err \<or> e))"

definition restore_acc :: "'m user_ops \<Rightarrow> u32 \<Rightarrow> u32 \<Rightarrow> 'm \<Rightarrow> nat \<Rightarrow> (nat \<Rightarrow> u32) \<times> bool \<Rightarrow> (nat \<Rightarrow> u32) \<times> bool" where
  "restore_acc U junk sc m i = (\<lambda>(a, err). let (v, e) = get_int U junk m (sc_acc sc i) in (a(i := v), err \<or> e))"

definition restore_dsp :: "'m user_ops \<Rightarrow> u32 \<Rightarrow> u32 \<Rightarrow> 'm task \<Rightarrow> 'm task \<times> bool" where
  "restore_dsp U junk sc s =
     (if cpu_has_dsp (proc s) then
        let (a, err) = fold (restore_acc U junk sc (umem (proc s))) [0..<6] (acc s, False);
            (treg, e) = get_int U junk (umem (proc s)) (sc_dsp sc)
        in (wrdsp treg (s\<lparr>acc := a\<rparr>), err \<or> e)
      else (s, False))"

definition restore_sigcontext :: "'m user_ops \<Rightarrow> u32 \<Rightarrow> u32 \<Rightarrow> 'm task \<Rightarrow> ('m task \<times> bool) option" where
  "restore_sigcontext U junk sc s =
     (let m = umem (proc s);
          (epc, e1) = get_long U m (sc_pc sc);
          (h, e2) = get_long U m (sc_mdhi sc);
          (l, e3) = get_long U m (sc_mdlo sc);
          (s, e4) = restore_dsp U junk sc (s\<lparr>no_restart := True, proc := (proc s)\<lparr>cp0_epc := epc\<rparr>, hi := h, lo := l\<rparr>);
          (r, e5) = fold (restore_gp_reg U sc m) [1..<32] (regs (proc s), False);
          (u, e6) = get_int U junk m (sc_used_math sc);
          s = s\<lparr>proc := (proc s)\<lparr>regs := r\<rparr>, used_math := u \<noteq> 0\<rparr>;
          err = (e1 \<or> e2 \<or> e3 \<or> e4 \<or> e5 \<or> e6)
      in if used_math s then map_option (\<lambda>(s, e). (s, err \<or> e)) (restore_fp_context U junk sc (own_fpu s))
         else Some (lose_fpu s, err))"

section \<open>Frames\<close>

abbreviation (input) SA_ONSTACK :: u32 where "SA_ONSTACK \<equiv> 0x08000000"
abbreviation (input) SA_RESTART :: u32 where "SA_RESTART \<equiv> 0x10000000"
abbreviation (input) SA_NODEFER :: u32 where "SA_NODEFER \<equiv> 0x40000000"
abbreviation (input) SA_SIGINFO :: u32 where "SA_SIGINFO \<equiv> 8"

definition get_sigframe :: "k_sigaction \<Rightarrow> u32 \<Rightarrow> 'm task \<Rightarrow> u32" where
  "get_sigframe ka frame_size s =
     (let sp = regs (proc s) 29 - 32;
          sp = (if sa_flags ka AND SA_ONSTACK \<noteq> 0 \<and> sas_ss_flags s sp = 0 then sas_ss_sp s + sas_ss_size s else sp)
      in (sp - frame_size) AND NOT 7)"

text \<open>
  \<^verbatim>\<open>install_sigtramp\<close> writes \<^verbatim>\<open>li v0, nr; syscall\<close>. No workaround for the instruction cache is configured, and caches are not
  modelled.
\<close>

definition install_sigtramp :: "'m user_ops \<Rightarrow> u32 \<Rightarrow> u32 \<Rightarrow> 'm \<Rightarrow> 'm \<times> bool" where
  "install_sigtramp U tramp nr m = or_put U (tramp + 4) 0x0000000c (or_put U tramp (0x24020000 + nr) (m, False))"

text \<open>
  A \<^verbatim>\<open>struct sigframe\<close> has 632 bytes: argument space, the trampoline at 16, the context at 24 and the mask at 616. A
  \<^verbatim>\<open>struct rt_sigframe\<close> has 784: the \<^verbatim>\<open>siginfo\<close> at 24 and the \<^verbatim>\<open>ucontext\<close> at 152, which begins with its flags, link and stack and has
  the context at 24 and the mask at 616.
\<close>

abbreviation (input) sigframe_size :: u32 where "sigframe_size \<equiv> 632"
abbreviation (input) rt_sigframe_size :: u32 where "rt_sigframe_size \<equiv> 784"
abbreviation (input) sf_code :: "u32 \<Rightarrow> u32" where "sf_code frame \<equiv> frame + 16"
abbreviation (input) sf_sc :: "u32 \<Rightarrow> u32" where "sf_sc frame \<equiv> frame + 24"
abbreviation (input) sf_mask :: "u32 \<Rightarrow> u32" where "sf_mask frame \<equiv> frame + 616"
abbreviation (input) rs_info :: "u32 \<Rightarrow> u32" where "rs_info frame \<equiv> frame + 24"
abbreviation (input) rs_uc :: "u32 \<Rightarrow> u32" where "rs_uc frame \<equiv> frame + 152"
abbreviation (input) uc_sc :: "u32 \<Rightarrow> u32" where "uc_sc frame \<equiv> frame + 176"
abbreviation (input) uc_sigmask :: "u32 \<Rightarrow> u32" where "uc_sigmask frame \<equiv> frame + 768"
abbreviation (input) NR_sigreturn :: u32 where "NR_sigreturn \<equiv> 4119"
abbreviation (input) NR_rt_sigreturn :: u32 where "NR_rt_sigreturn \<equiv> 4193"
abbreviation (input) NR_restart_syscall :: u32 where "NR_restart_syscall \<equiv> 4253"

text \<open>The registers a handler starts with.\<close>

definition enter_handler :: "k_sigaction \<Rightarrow> u32 \<Rightarrow> u32 \<Rightarrow> u32 \<Rightarrow> u32 \<Rightarrow> 'm task \<Rightarrow> 'm task" where
  "enter_handler ka signr a1 a2 frame s = s\<lparr>proc := (proc s)\<lparr>
     regs := (regs (proc s))(4 := signr, 5 := a1, 6 := a2, 29 := frame, 31 := frame + 16, 25 := sa_handler ka),
     cp0_epc := sa_handler ka\<rparr>\<rparr>"

text \<open>The tail both frames share: the mask behind the context, then the handler or a \<^verbatim>\<open>SIGSEGV\<close>.\<close>

definition put_mask :: "'m user_ops \<Rightarrow> u32 \<Rightarrow> sigset \<Rightarrow> 'm task \<times> bool \<Rightarrow> 'm task \<times> bool" where
  "put_mask U a ss = (\<lambda>(s, err). let (m, e) = copy_to_user U a (\<lambda>i. ss (of_nat i)) 4 (umem (proc s))
     in (s\<lparr>proc := (proc s)\<lparr>umem := m\<rparr>\<rparr>, err \<or> e))"

definition setup_frame :: "'m user_ops \<Rightarrow> k_sigaction \<Rightarrow> u32 \<Rightarrow> sigset \<Rightarrow> 'm task \<Rightarrow> ('m task \<times> int) option" where
  "setup_frame U ka signr ss s =
     (let frame = get_sigframe ka sigframe_size s
      in if \<not> access_ok frame sigframe_size then Some (force_sigsegv signr s, - EFAULT)
         else
           let s = s\<lparr>proc := (proc s)\<lparr>umem := fst (install_sigtramp U (sf_code frame) NR_sigreturn (umem (proc s)))\<rparr>\<rparr>
           in map_option (\<lambda>st.
                let (s, err) = put_mask U (sf_mask frame) ss st
                in if err then (force_sigsegv signr s, - EFAULT)
                   else (enter_handler ka signr 0 (sf_sc frame) frame s, 0)) (setup_sigcontext U (sf_sc frame) s))"

text \<open>
  A \<^verbatim>\<open>siginfo_t\<close> is 32 words: number, code, errno, then the members of the union; the code of one that comes from a process is
  negative. Which words the kernel copies depends on the upper half of the code.
\<close>

type_synonym siginfo_t = "nat \<Rightarrow> u32"

abbreviation (input) si_signo :: "siginfo_t \<Rightarrow> u32" where "si_signo info \<equiv> info 0"
abbreviation (input) si_code :: "siginfo_t \<Rightarrow> u32" where "si_code info \<equiv> info 1"
abbreviation (input) si_errno :: "siginfo_t \<Rightarrow> u32" where "si_errno info \<equiv> info 2"

definition si_words :: "u32 \<Rightarrow> nat list" where
  "si_words code =
     (let c = drop_bit 16 code
      in if c = 1 then [3, 4, 5]
         else if c = 2 then [3, 4]
         else if c = 3 then [3]
         else if c = 4 then [3, 4, 5, 6, 7]
         else if c = 5 \<or> c = 6 then [3, 4, 5]
         else [3, 4])"

definition copy_siginfo_to_user :: "'m user_ops \<Rightarrow> u32 \<Rightarrow> siginfo_t \<Rightarrow> 'm \<Rightarrow> 'm \<times> bool" where
  "copy_siginfo_to_user U a info m =
     (if \<not> access_ok a 128 then (m, True)
      else if si_code info <s 0 then copy_to_user U a info 32 m
      else fold (\<lambda>i. or_put U (a + 4 * of_nat i) (info i)) (si_words (si_code info))
             (or_put U (a + 4) (scast (ucast (si_code info) :: u16))
               (or_put U (a + 8) (si_errno info) (or_put U a (si_signo info) (m, False)))))"

definition put_ucontext :: "'m user_ops \<Rightarrow> u32 \<Rightarrow> 'm task \<Rightarrow> 'm \<times> bool \<Rightarrow> 'm \<times> bool" where
  "put_ucontext U uc s st = or_put U (uc + 12) (sas_ss_size s) (or_put U (uc + 16) (sas_ss_flags s (regs (proc s) 29))
     (or_put U (uc + 8) (sas_ss_sp s) (or_put U (uc + 4) 0 (or_put U uc 0 st))))"

definition setup_rt_frame :: "'m user_ops \<Rightarrow> k_sigaction \<Rightarrow> u32 \<Rightarrow> sigset \<Rightarrow> siginfo_t \<Rightarrow> 'm task \<Rightarrow> ('m task \<times> int) option" where
  "setup_rt_frame U ka signr ss info s =
     (let frame = get_sigframe ka rt_sigframe_size s; uc = rs_uc frame
      in if \<not> access_ok frame rt_sigframe_size then Some (force_sigsegv signr s, - EFAULT)
         else
           let m = fst (install_sigtramp U (sf_code frame) NR_rt_sigreturn (umem (proc s)));
               (m, err) = put_ucontext U uc s (copy_siginfo_to_user U (rs_info frame) info m);
               s = s\<lparr>proc := (proc s)\<lparr>umem := m\<rparr>\<rparr>
           in map_option (\<lambda>(s, e).
                let (s, err) = put_mask U (uc_sigmask frame) ss (s, err \<or> e)
                in if err then (force_sigsegv signr s, - EFAULT)
                   else (enter_handler ka signr (rs_info frame) uc frame s, 0)) (setup_sigcontext U (uc_sc frame) s))"

section \<open>Return from a handler\<close>

definition get_sigset :: "'m user_ops \<Rightarrow> 'm \<Rightarrow> u32 \<Rightarrow> sigset option" where
  "get_sigset U m a = map_option (\<lambda>ws w. ws ! unat w) (copy_from_user U m a 4)"

text \<open>The result says whether the process goes on with the restored context; otherwise it gets a \<^verbatim>\<open>SIGSEGV\<close>.\<close>

definition sigreturn_from :: "'m user_ops \<Rightarrow> u32 \<Rightarrow> u32 \<Rightarrow> u32 \<Rightarrow> u32 \<Rightarrow> u32 \<Rightarrow> 'm task \<Rightarrow> ('m task \<times> bool) option" where
  "sigreturn_from U junk frame frame_size mask_at sc s =
     (if \<not> access_ok frame frame_size then Some (force_signal SIGSEGV s, False)
      else case get_sigset U (umem (proc s)) mask_at of
        None \<Rightarrow> Some (force_signal SIGSEGV s, False)
      | Some ss \<Rightarrow> map_option (\<lambda>(s, err). if err then (force_signal SIGSEGV s, False) else (s, True))
          (restore_sigcontext U junk sc (set_blocked (sigdelsetmask ss (NOT BLOCKABLE)) s)))"

definition sys_sigreturn :: "'m user_ops \<Rightarrow> u32 \<Rightarrow> 'm task \<Rightarrow> ('m task \<times> bool) option" where
  "sys_sigreturn U junk s = (let frame = regs (proc s) 29 in sigreturn_from U junk frame sigframe_size (sf_mask frame) (sf_sc frame) s)"

text \<open>
  \<^verbatim>\<open>sys_rt_sigreturn\<close> hands \<^verbatim>\<open>do_sigaltstack\<close> the address \<open>st\<close> of a local variable on the kernel stack and ignores the result.
\<close>

definition sys_rt_sigreturn :: "'m user_ops \<Rightarrow> u32 \<Rightarrow> u32 \<Rightarrow> 'm task \<Rightarrow> ('m task \<times> bool) option" where
  "sys_rt_sigreturn U junk st s =
     (let frame = regs (proc s) 29
      in map_option (\<lambda>(s, ok).
           if \<not> ok then (s, False)
           else if copy_from_user U (umem (proc s)) (rs_uc frame + 8) 3 = None then (force_signal SIGSEGV s, False)
           else (fst (do_sigaltstack U st 0 (regs (proc s) 29) s), True))
         (sigreturn_from U junk frame rt_sigframe_size (uc_sigmask frame) (uc_sc frame) s))"

section \<open>Delivery\<close>

abbreviation (input) EINTR :: u32 where "EINTR \<equiv> 4"
abbreviation (input) ERESTARTSYS :: u32 where "ERESTARTSYS \<equiv> 512"
abbreviation (input) ERESTARTNOINTR :: u32 where "ERESTARTNOINTR \<equiv> 513"
abbreviation (input) ERESTARTNOHAND :: u32 where "ERESTARTNOHAND \<equiv> 514"
abbreviation (input) ERESTART_RESTARTBLOCK :: u32 where "ERESTART_RESTARTBLOCK \<equiv> 516"

text \<open>
  Register 0 of the saved registers holds the error code of an interrupted system call. The \<^verbatim>\<open>switch\<close> at the head of
  \<^verbatim>\<open>handle_signal\<close>: the call fails with \<^verbatim>\<open>EINTR\<close>, or is executed again from its \<^verbatim>\<open>li\<close> with the saved fourth argument.
\<close>

definition restart_call :: "k_sigaction \<Rightarrow> 'm emu \<Rightarrow> 'm emu" where
  "restart_call ka p =
     (let r0 = regs p 0;
          p = (if r0 = ERESTART_RESTARTBLOCK \<or> r0 = ERESTARTNOHAND \<or> r0 = ERESTARTSYS \<and> sa_flags ka AND SA_RESTART = 0
               then p\<lparr>regs := (regs p)(2 := EINTR)\<rparr>
               else if r0 = ERESTARTSYS \<or> r0 = ERESTARTNOINTR
               then p\<lparr>regs := (regs p)(7 := regs p 26), cp0_epc := cp0_epc p - 8\<rparr>
               else p)
      in p\<lparr>regs := (regs p)(0 := 0)\<rparr>)"

definition handle_signal :: "'m user_ops \<Rightarrow> u32 \<Rightarrow> siginfo_t \<Rightarrow> k_sigaction \<Rightarrow> sigset \<Rightarrow> 'm task \<Rightarrow> ('m task \<times> int) option" where
  "handle_signal U sig info ka oldset s =
     (let s = s\<lparr>proc := restart_call ka (proc s)\<rparr>
      in map_option (\<lambda>(s, ret).
           let ss = sigorsets (blocked s) (sa_mask ka);
               ss = (if sa_flags ka AND SA_NODEFER = 0 then sigaddset ss sig else ss)
           in (set_blocked ss s, ret))
         (if sa_flags ka AND SA_SIGINFO \<noteq> 0 then setup_rt_frame U ka sig oldset info s else setup_frame U ka sig oldset s))"

text \<open>
  \<^verbatim>\<open>get_signal_to_deliver\<close> (\<^verbatim>\<open>kernel/signal.c\<close>), which dequeues a signal and carries out default actions, is the parameter \<open>get\<close>: it
  delivers the new state and, when a handler has to run, the signal with its \<^verbatim>\<open>siginfo\<close> and action. The kernel takes the address
  of the old mask before that call and reads it after.
\<close>

definition do_signal :: "'m user_ops \<Rightarrow> ('m task \<Rightarrow> 'm task \<times> (u32 \<times> siginfo_t \<times> k_sigaction) option) \<Rightarrow> 'm task \<Rightarrow> 'm task option" where
  "do_signal U get s =
     (if \<not> user_mode (proc s) then Some s
      else case get s of
        (s', Some (signr, info, ka)) \<Rightarrow>
          map_option (\<lambda>(s, ret). if ret = 0 then s\<lparr>tif_restore_sigmask := False\<rparr> else s)
            (handle_signal U signr info ka (if tif_restore_sigmask s then saved_sigmask s' else blocked s') s')
      | (s, None) \<Rightarrow>
          let p = proc s;
              p = (if regs p 0 = 0 then p
                   else
                     let p = (if regs p 2 = ERESTARTNOHAND \<or> regs p 2 = ERESTARTSYS \<or> regs p 2 = ERESTARTNOINTR
                              then p\<lparr>regs := (regs p)(7 := regs p 26), cp0_epc := cp0_epc p - 8\<rparr> else p);
                         p = (if regs p 2 = ERESTART_RESTARTBLOCK
                              then p\<lparr>regs := (regs p)(2 := NR_restart_syscall, 7 := regs p 26), cp0_epc := cp0_epc p - 4\<rparr> else p)
                     in p\<lparr>regs := (regs p)(0 := 0)\<rparr>);
              s = s\<lparr>proc := p\<rparr>
          in Some (if tif_restore_sigmask s then fst (sigprocmask SIG_SETMASK (saved_sigmask s) (s\<lparr>tif_restore_sigmask := False\<rparr>)) else s))"

definition do_notify_resume :: "'m user_ops \<Rightarrow> ('m task \<Rightarrow> 'm task \<times> (u32 \<times> siginfo_t \<times> k_sigaction) option) \<Rightarrow> 'm task \<Rightarrow> 'm task option" where
  "do_notify_resume U get s = (if tif_sigpending s \<or> tif_restore_sigmask s then do_signal U get s else Some s)"

text \<open>
  Waiting for a signal with another mask. What runs until the task is scheduled again is the parameter \<open>schedule\<close>. The argument of the second is
  checked first.
\<close>

definition sys_sigsuspend :: "'m user_ops \<Rightarrow> ('m task \<Rightarrow> 'm task) \<Rightarrow> 'm task \<Rightarrow> 'm task \<times> int" where
  "sys_sigsuspend U schedule s =
     (if \<not> access_ok (regs (proc s) 4) 16 then (s, - EFAULT)
      else case get_sigset U (umem (proc s)) (regs (proc s) 4) of
        None \<Rightarrow> (s, - EFAULT)
      | Some newset \<Rightarrow>
          let s = set_blocked (sigdelsetmask newset (NOT BLOCKABLE)) (s\<lparr>saved_sigmask := blocked s\<rparr>)
          in ((schedule s)\<lparr>tif_restore_sigmask := True\<rparr>, - 514))"

definition sys_rt_sigsuspend :: "'m user_ops \<Rightarrow> ('m task \<Rightarrow> 'm task) \<Rightarrow> 'm task \<Rightarrow> 'm task \<times> int" where
  "sys_rt_sigsuspend U schedule s = (if regs (proc s) 5 \<noteq> 16 then (s, - EINVAL) else sys_sigsuspend U schedule s)"

end
