(* ===== verification/Signal_Frames.thy ===== *)
theory Signal_Frames
  imports Signals
begin

text \<open>
  The frames of signal handlers: what \<^verbatim>\<open>setup_frame\<close> and \<^verbatim>\<open>setup_rt_frame\<close> write is followed as a partial map from offsets to words, and
  read back by the two return system calls.
\<close>

section \<open>Words at offsets from a base address\<close>

definition holds :: "'m user_ops \<Rightarrow> 'm \<Rightarrow> u32 \<Rightarrow> (nat \<rightharpoonup> u32) \<Rightarrow> bool" where
  "holds U m base f \<longleftrightarrow> (\<forall>k v. f k = Some v \<longrightarrow> 4 dvd k \<and> k < 1000 \<and> uload U m (base + of_nat k) = Some v)"

definition upd32 :: "(nat \<rightharpoonup> u32) \<Rightarrow> nat \<Rightarrow> u32 \<Rightarrow> nat \<rightharpoonup> u32" where
  "upd32 f k v = f(k \<mapsto> v)"

definition upd64 :: "(nat \<rightharpoonup> u32) \<Rightarrow> nat \<Rightarrow> u64 \<Rightarrow> nat \<rightharpoonup> u32" where
  "upd64 f k v = upd32 (upd32 f k (ucast (drop_bit 32 v))) (k + 4) (ucast v)"

definition dword :: "(nat \<rightharpoonup> u32) \<Rightarrow> nat \<Rightarrow> u64 \<Rightarrow> bool" where
  "dword f k v \<longleftrightarrow> f k = Some (ucast (drop_bit 32 v)) \<and> f (k + 4) = Some (ucast v)"

lemma off_apart:
  assumes "4 dvd a" and "4 dvd b" and "a \<noteq> b" and "a < 1000" and "b < 1000"
  shows "apart (base + of_nat a) (base + of_nat b)"
proof (rule offset_apart)
  show "a + 4 \<le> b \<or> b + 4 \<le> a" using assms(1-3) by presburger
qed (use assms in simp_all)

lemma upd32_simps [simp]: "upd32 f k v k = Some v" "j \<noteq> k \<Longrightarrow> upd32 f k v j = f j"
  by (simp_all add: upd32_def)

lemma upd64_other: "j \<noteq> k \<Longrightarrow> j \<noteq> k + 4 \<Longrightarrow> upd64 f k v j = f j"
  by (simp add: upd64_def)

lemma dword_upd64: "dword (upd64 f k v) k v"
  by (simp add: dword_def upd64_def)

lemma dword_other: "j \<noteq> k \<Longrightarrow> j \<noteq> k + 4 \<Longrightarrow> k \<noteq> j + 4 \<Longrightarrow> dword (upd64 f k v) j w = dword f j w"
  by (simp add: dword_def upd64_def)

lemma fold64_other: "(\<And>i. i \<in> set xs \<Longrightarrow> j \<noteq> d i \<and> j \<noteq> d i + 4) \<Longrightarrow> fold (\<lambda>i f. upd64 f (d i) (g i)) xs f j = f j"
  by (induction xs arbitrary: f) (simp_all add: upd64_other)

lemma fold64_dword:
  assumes "i \<in> set xs"
  shows "dword (fold (\<lambda>i f. upd64 f (c + 8 * i) (g i)) xs f) (c + 8 * i) (g i)"
  using assms
proof (induction xs rule: rev_induct)
  case (snoc x xs)
  show ?case
  proof (cases "x = i")
    case False
    then have "c + 8 * i \<noteq> c + 8 * x" "c + 8 * i \<noteq> c + 8 * x + 4" "c + 8 * x \<noteq> c + 8 * i + 4" by presburger+
    then show ?thesis using snoc False by (simp add: dword_other)
  qed (simp add: dword_upd64)
qed simp

lemma fold32_other: "(\<And>i. i \<in> set xs \<Longrightarrow> j \<noteq> d i) \<Longrightarrow> fold (\<lambda>i f. upd32 f (d i) (g i)) xs f j = f j"
  by (induction xs arbitrary: f) simp_all

lemma fold32_word:
  assumes "i \<in> set xs"
  shows "fold (\<lambda>i f. upd32 f (c + 4 * i) (g i)) xs f (c + 4 * i) = Some (g i)"
  using assms
proof (induction xs rule: rev_induct)
  case (snoc x xs)
  then show ?case by (cases "x = i") auto
qed simp

context user_memory
begin

lemma holds_store:
  assumes "holds U m base f" and "ustore U m (base + of_nat k) v = Some m'" and "4 dvd k" and "k < 1000"
  shows "holds U m' base (upd32 f k v)"
  unfolding holds_def
proof (intro allI impI)
  fix j w assume j: "upd32 f k v j = Some w"
  show "4 dvd j \<and> j < 1000 \<and> uload U m' (base + of_nat j) = Some w"
  proof (cases "j = k")
    case True
    then show ?thesis using j load_same [OF assms(2)] assms(3,4) by simp
  next
    case False
    then have f: "4 dvd j" "j < 1000" "uload U m (base + of_nat j) = Some w" using assms(1) j by (auto simp: holds_def)
    then show ?thesis using load_other [OF assms(2), of "base + of_nat j"] off_apart [OF assms(3) f(1) _ assms(4) f(2)] False by simp
  qed
qed

lemma holds_store64:
  assumes "holds U m base f" and "ustore64 U m (base + of_nat k) v = (m', True)" and "4 dvd k" and "k + 4 < 1000"
  shows "holds U m' base (upd64 f k v)"
proof -
  obtain m1 where m1: "ustore U m (base + of_nat k) (ucast (drop_bit 32 v)) = Some m1" "ustore U m1 (base + of_nat (k + 4)) (ucast v) = Some m'"
    using assms(2) by (auto simp: ustore64_def algebra_simps split: option.splits)
  show ?thesis unfolding upd64_def
    by (rule holds_store [OF holds_store [OF assms(1) m1(1) assms(3)] m1(2)]) (use assms in simp_all)
qed

lemma holds_forget: "holds U m base f \<Longrightarrow> (\<And>j w. g j = Some w \<Longrightarrow> f j = Some w) \<Longrightarrow> holds U m base g"
  unfolding holds_def by blast

lemma holds_empty: "holds U m base Map.empty"
  by (simp add: holds_def)

text \<open>A store whose result nobody looks at leaves the other words.\<close>

lemma holds_try:
  assumes "holds U m base f" and "4 dvd k" and "k < 1000"
  shows "holds U (case ustore U m (base + of_nat k) v of None \<Rightarrow> m | Some m' \<Rightarrow> m') base (f(k := None))"
proof (cases "ustore U m (base + of_nat k) v")
  case None
  then show ?thesis by (auto intro: holds_forget [OF assms(1)] split: if_splits)
next
  case (Some m')
  from holds_store [OF assms(1) this assms(2,3)] show ?thesis using Some by (auto simp: upd32_def elim!: holds_forget split: if_splits)
qed

lemma holds_try64:
  assumes "holds U m base f" and "4 dvd k" and "k + 4 < 1000"
  shows "holds U (fst (ustore64 U m (base + of_nat k) v)) base (f(k := None, k + 4 := None))"
proof (cases "ustore U m (base + of_nat k) (ucast (drop_bit 32 v))")
  case None
  then show ?thesis by (auto simp: ustore64_def fun_upd_def intro!: holds_forget [OF assms(1)] split: if_splits)
next
  case (Some m1)
  have h: "holds U m1 base (f(k := None))" using holds_try [OF assms(1,2)] assms(3) Some by (metis add_lessD1 option.simps(5))
  have a: "base + of_nat k + 4 = base + of_nat (k + 4)" by (simp add: algebra_simps)
  have "fst (ustore64 U m (base + of_nat k) v) = (case ustore U m1 (base + of_nat (k + 4)) (ucast v) of None \<Rightarrow> m1 | Some m' \<Rightarrow> m')"
    using Some unfolding ustore64_def a by (simp split: option.split)
  then show ?thesis using holds_try [OF h, of "k + 4" "ucast v"] assms(2,3) by simp
qed

lemma or_put64_ok:
  assumes "or_put64 U a v st = (m', False)"
  obtains m where "st = (m, False)" and "ustore64 U m a v = (m', True)"
  using assms by (cases st) (auto simp: or_put64_def split: prod.splits)

lemma copy_word_ok:
  assumes "copy_word U a v st = (m', False)"
  obtains m where "st = (m, False)" and "ustore U m a v = Some m'"
  using assms by (cases st) (auto simp: copy_word_def split: if_splits option.splits)

lemma holds_fold64:
  assumes "holds U m base f" and "fold h xs (m, err) = (m', False)"
    and "\<And>i st m'. i \<in> set xs \<Longrightarrow> h i st = (m', False) \<Longrightarrow> \<exists>m. st = (m, False) \<and> ustore64 U m (base + of_nat (d i)) (g i) = (m', True)"
    and "\<And>i. i \<in> set xs \<Longrightarrow> 4 dvd d i \<and> d i + 4 < 1000"
  shows "\<not> err \<and> holds U m' base (fold (\<lambda>i f. upd64 f (d i) (g i)) xs f)"
  using assms(2-4)
proof (induction xs arbitrary: m' rule: rev_induct)
  case Nil
  then show ?case using assms(1) by simp
next
  case (snoc x xs)
  obtain m1 where m1: "fold h xs (m, err) = (m1, False)" "ustore64 U m1 (base + of_nat (d x)) (g x) = (m', True)"
    using snoc.prems(1) snoc.prems(2) [of x "fold h xs (m, err)" m'] by auto
  have "\<not> err \<and> holds U m1 base (fold (\<lambda>i f. upd64 f (d i) (g i)) xs f)" using snoc.IH [OF m1(1)] snoc.prems(2,3) by simp
  then show ?case using holds_store64 [OF _ m1(2)] snoc.prems(3) [of x] by simp
qed

lemma holds_fold32:
  assumes "holds U m base f" and "fold h xs (m, err) = (m', False)"
    and "\<And>i st m'. i \<in> set xs \<Longrightarrow> h i st = (m', False) \<Longrightarrow> \<exists>m. st = (m, False) \<and> ustore U m (base + of_nat (d i)) (g i) = Some m'"
    and "\<And>i. i \<in> set xs \<Longrightarrow> 4 dvd d i \<and> d i < 1000"
  shows "\<not> err \<and> holds U m' base (fold (\<lambda>i f. upd32 f (d i) (g i)) xs f)"
  using assms(2-4)
proof (induction xs arbitrary: m' rule: rev_induct)
  case Nil
  then show ?case using assms(1) by simp
next
  case (snoc x xs)
  obtain m1 where m1: "fold h xs (m, err) = (m1, False)" "ustore U m1 (base + of_nat (d x)) (g x) = Some m'"
    using snoc.prems(1) snoc.prems(2) [of x "fold h xs (m, err)" m'] by auto
  have "\<not> err \<and> holds U m1 base (fold (\<lambda>i f. upd32 f (d i) (g i)) xs f)" using snoc.IH [OF m1(1)] snoc.prems(2,3) by simp
  then show ?case using holds_store [OF _ m1(2)] snoc.prems(3) [of x] by simp
qed

lemma holds_load64: "holds U m base f \<Longrightarrow> dword f k v \<Longrightarrow> uload64 U m (base + of_nat k) = Some v"
  unfolding holds_def dword_def uload64_def
  by (metis (no_types, lifting) add.assoc join_split64 of_nat_add of_nat_numeral option.simps(5) case_prod_conv)

lemma holds_load: "holds U m base f \<Longrightarrow> f k = Some v \<Longrightarrow> uload U m (base + of_nat k) = Some v"
  by (simp add: holds_def)

end

section \<open>The context in a frame\<close>

text \<open>The floating point registers and control register of a task, wherever they are at the moment. The hardware holds the even registers.\<close>

definition fp_view :: "'m task \<Rightarrow> (5 word \<Rightarrow> u64) \<times> u32" where
  "fp_view s =
     (if \<not> cpu_has_fpu s then (fpr (proc s), fcr31 (proc s))
      else if is_fpu_owner s then (\<lambda>r. if bit r 0 then 0 else hw_fpr s r, hw_csr s)
      else (\<lambda>r. if bit r 0 then 0 else fpr (proc s) r, fcr31 (proc s)))"

definition fp_in :: "(nat \<rightharpoonup> u32) \<Rightarrow> nat \<Rightarrow> 'm task \<Rightarrow> bool" where
  "fp_in f k s \<longleftrightarrow> f (k + 532) = Some (snd (fp_view s)) \<and>
     (\<forall>i < 32. (cpu_has_fpu s \<longrightarrow> even i) \<longrightarrow> dword f (k + 272 + 8 * i) (fst (fp_view s) (of_nat i)))"

definition gp_in :: "(nat \<rightharpoonup> u32) \<Rightarrow> nat \<Rightarrow> 'm task \<Rightarrow> bool" where
  "gp_in f k s \<longleftrightarrow> dword f (k + 8) (ucast (cp0_epc (proc s))) \<and>
     (\<forall>i < 32. i \<noteq> 0 \<longrightarrow> dword f (k + 16 + 8 * i) (ucast (regs (proc s) (of_nat i)))) \<and>
     dword f (k + 552) (ucast (hi s)) \<and> dword f (k + 560) (ucast (lo s)) \<and>
     (cpu_has_dsp (proc s) \<longrightarrow> f (k + 544) = Some (rddsp s) \<and> (\<forall>i < 6. f (k + 568 + 4 * i) = Some (acc s i))) \<and>
     f (k + 540) = Some (if used_math s then 1 else 0)"

definition context_in :: "(nat \<rightharpoonup> u32) \<Rightarrow> nat \<Rightarrow> 'm task \<Rightarrow> bool" where
  "context_in f k s \<longleftrightarrow> gp_in f k s \<and> (used_math s \<longrightarrow> fp_in f k s)"

lemma fp_in_cong: "fp_view t = fp_view s \<Longrightarrow> cpu_has_fpu t = cpu_has_fpu s \<Longrightarrow> fp_in g k t = fp_in g k s"
  by (simp add: fp_in_def)

lemma sc_addr:
  "sc_pc (base + of_nat k) = base + of_nat (k + 8)" "sc_regs (base + of_nat k) i = base + of_nat (k + 16 + 8 * i)"
  "sc_mdhi (base + of_nat k) = base + of_nat (k + 552)" "sc_mdlo (base + of_nat k) = base + of_nat (k + 560)"
  "sc_dsp (base + of_nat k) = base + of_nat (k + 544)" "sc_acc (base + of_nat k) i = base + of_nat (k + 568 + 4 * i)"
  "sc_used_math (base + of_nat k) = base + of_nat (k + 540)" "sc_fpc_csr (base + of_nat k) = base + of_nat (k + 532)"
  "sc_fpregs (base + of_nat k) i = base + of_nat (k + 272 + 8 * i)"
  by (simp_all add: sc_pc_def sc_regs_def sc_mdhi_def sc_mdlo_def sc_dsp_def sc_acc_def sc_used_math_def sc_fpc_csr_def sc_fpregs_def algebra_simps)

lemma even_regs_set: "i \<in> set even_regs \<longleftrightarrow> i < 32 \<and> even i"
proof
  assume "i < 32 \<and> even i"
  then show "i \<in> set even_regs" unfolding even_regs_def by (auto elim!: evenE)
qed (auto simp: even_regs_def)

context user_memory
begin

lemma save_fp_holds:
  assumes "holds U (umem (proc s)) base f" and "save_fp_context U (base + of_nat k) s = Some (s', False)" and "8 dvd k" and "k + 592 \<le> 1000"
    and "cpu_has_fpu s \<longrightarrow> is_fpu_owner s"
  shows "\<exists>g. holds U (umem (proc s')) base g \<and> fp_in g k s \<and> (\<forall>j. j < k + 272 \<or> k + 536 \<le> j \<longrightarrow> g j = f j) \<and>
    s' = s\<lparr>proc := (proc s)\<lparr>umem := umem (proc s')\<rparr>\<rparr>"
proof -
  let ?xs = "if cpu_has_fpu s then even_regs else [0..<32]" and ?d = "\<lambda>i. k + 272 + 8 * i" and ?v = "\<lambda>i. (if cpu_has_fpu s then hw_fpr s else fpr (proc s)) (of_nat i)"
  let ?c = "if cpu_has_fpu s then hw_csr s else fcr31 (proc s)"
  let ?h = "\<lambda>i. if cpu_has_fpu s then hw_save_fpr U (base + of_nat k) (hw_fpr s) i else save_fpr U (base + of_nat k) (fpr (proc s)) i"
  let ?g = "fold (\<lambda>i f. upd64 f (?d i) (?v i)) ?xs f"
  have s': "\<exists>m1. fold ?h ?xs (umem (proc s), False) = (m1, False) \<and> ustore U m1 (base + of_nat (k + 532)) ?c = Some (umem (proc s')) \<and>
    s' = s\<lparr>proc := (proc s)\<lparr>umem := umem (proc s')\<rparr>\<rparr>"
    using assms(2)
    by (cases "cpu_has_fpu s") (auto simp: save_fp_context_def hw_save_fp_context_def fpu_emulator_save_context_def save_fprs_def sc_addr
      elim!: copy_word_ok or_put_ok split: if_splits prod.splits)
  then obtain m1 where m1: "fold ?h ?xs (umem (proc s), False) = (m1, False)" "ustore U m1 (base + of_nat (k + 532)) ?c = Some (umem (proc s'))" by blast
  have x: "i < 32" if "i \<in> set ?xs" for i using that by (auto simp: even_regs_set split: if_splits)
  have step: "\<exists>m. st = (m, False) \<and> ustore64 U m (base + of_nat (?d i)) (?v i) = (m', True)" if "?h i st = (m', False)" for i st m'
    using that unfolding hw_save_fpr_def save_fpr_def or_put64_def sc_addr(9) by (cases st) (auto simp del: of_nat_add of_nat_mult split: if_splits prod.splits)
  have bound: "4 dvd ?d i \<and> ?d i + 4 < 1000" if "i \<in> set ?xs" for i using x [OF that] assms(3,4) by presburger
  have "\<not> False \<and> holds U m1 base ?g" using assms(1) m1(1) step bound by (rule holds_fold64)
  then have hg: "holds U m1 base ?g" by simp
  have h: "holds U (umem (proc s')) base (upd32 ?g (k + 532) ?c)" by (rule holds_store [OF hg m1(2)]) (use assms(3,4) in presburger)+
  have "dword ?g (?d i) (?v i)" if "i < 32" "cpu_has_fpu s \<longrightarrow> even i" for i
    by (rule fold64_dword) (use that in \<open>auto simp: even_regs_set\<close>)
  then have "dword (upd32 ?g (k + 532) ?c) (?d i) (?v i)" if "i < 32" "cpu_has_fpu s \<longrightarrow> even i" for i
    using that by (auto simp: dword_def)
  moreover have "fst (fp_view s) (of_nat i) = ?v i" if "i < 32" "cpu_has_fpu s \<longrightarrow> even i" for i
    using that assms(5) by (auto simp: fp_view_def bit_simps even_iff_mod_2_eq_zero)
  ultimately have "fp_in (upd32 ?g (k + 532) ?c) k s" using assms(5) by (auto simp: fp_in_def fp_view_def)
  moreover have "upd32 ?g (k + 532) ?c j = f j" if "j < k + 272 \<or> k + 536 \<le> j" for j
  proof -
    have "?g j = f j" by (rule fold64_other) (use that x in fastforce)
    then show ?thesis using that by (subst upd32_simps(2)) auto
  qed
  ultimately show ?thesis using h s' by blast
qed

end

text \<open>The words \<^verbatim>\<open>setup_sigcontext\<close> writes before it comes to the floating point registers.\<close>

definition reg_words :: "(nat \<rightharpoonup> u32) \<Rightarrow> nat \<Rightarrow> (5 word \<Rightarrow> u32) \<Rightarrow> nat \<rightharpoonup> u32" where
  "reg_words f k r = fold (\<lambda>i f. upd64 f (k + 16 + 8 * i) (ucast (r (of_nat i)))) [1..<32] f"

definition acc_words :: "(nat \<rightharpoonup> u32) \<Rightarrow> nat \<Rightarrow> (nat \<Rightarrow> u32) \<Rightarrow> nat \<rightharpoonup> u32" where
  "acc_words f k a = fold (\<lambda>i f. upd32 f (k + 568 + 4 * i) (a i)) [0..<6] f"

definition gp_words :: "(nat \<rightharpoonup> u32) \<Rightarrow> nat \<Rightarrow> 'm task \<Rightarrow> nat \<rightharpoonup> u32" where
  "gp_words f k s =
     (let f = reg_words ((upd64 f (k + 8) (ucast (cp0_epc (proc s))))(k + 16 := None, k + 20 := None)) k (regs (proc s));
          f = upd64 (upd64 f (k + 552) (ucast (hi s))) (k + 560) (ucast (lo s));
          f = (if cpu_has_dsp (proc s) then upd32 (acc_words f k (acc s)) (k + 544) (rddsp s) else f)
      in upd32 f (k + 540) (if used_math s then 1 else 0))"

lemma reg_words_other: "j < k + 24 \<or> k + 272 \<le> j \<Longrightarrow> reg_words f k r j = f j"
  unfolding reg_words_def by (rule fold64_other) auto

lemma acc_words_other: "j < k + 568 \<or> k + 592 \<le> j \<Longrightarrow> acc_words f k a j = f j"
  unfolding acc_words_def by (rule fold32_other) auto

lemma gp_words_other:
  assumes "j < k \<or> k + 592 \<le> j \<or> k + 272 \<le> j \<and> j < k + 536"
  shows "gp_words f k s j = f j"
  using assms by (elim disjE conjE) (simp_all add: gp_words_def Let_def upd64_other reg_words_other acc_words_other)

lemma dword_upd32: "j \<noteq> i \<Longrightarrow> j \<noteq> i + 4 \<Longrightarrow> dword (upd32 f j v) i w = dword f i w"
  by (simp add: dword_def)

lemma dword_reg_words: "i < k + 16 \<or> k + 272 \<le> i \<Longrightarrow> dword (reg_words f k r) i w = dword f i w"
  unfolding dword_def by (subst (1 2) reg_words_other) auto

lemma dword_acc_words: "i + 4 < k + 568 \<Longrightarrow> dword (acc_words f k a) i w = dword f i w"
  unfolding dword_def by (subst (1 2) acc_words_other) auto

lemma dword_none: "j \<noteq> i \<Longrightarrow> j \<noteq> i + 4 \<Longrightarrow> dword (f(j := None)) i w = dword f i w"
  by (simp add: dword_def)

lemma reg_word:
  assumes "i < 32" and "i \<noteq> 0"
  shows "dword (reg_words f k r) (k + 16 + 8 * i) (ucast (r (of_nat i)))"
  unfolding reg_words_def by (rule fold64_dword) (use assms in auto)

lemma acc_word:
  assumes "i < 6"
  shows "acc_words f k a (k + 568 + 4 * i) = Some (a i)"
  unfolding acc_words_def by (rule fold32_word) (use assms in auto)

lemmas word_lookups = dword_upd32 dword_reg_words dword_acc_words dword_none dword_other dword_upd64 upd64_other acc_words_other

lemma gp_words_in: "gp_in (gp_words f k s) k s"
proof -
  let ?g = "gp_words f k s"
  have "dword ?g (k + 8) (ucast (cp0_epc (proc s)))" by (simp add: gp_words_def Let_def word_lookups)
  moreover have "dword ?g (k + 16 + 8 * i) (ucast (regs (proc s) (of_nat i)))" if "i < 32" "i \<noteq> 0" for i
    using reg_word [OF that] that by (simp add: gp_words_def Let_def word_lookups)
  moreover have "dword ?g (k + 552) (ucast (hi s))" "dword ?g (k + 560) (ucast (lo s))" by (simp_all add: gp_words_def Let_def word_lookups)
  moreover have "?g (k + 544) = Some (rddsp s) \<and> (\<forall>i < 6. ?g (k + 568 + 4 * i) = Some (acc s i))" if "cpu_has_dsp (proc s)"
    using that acc_word by (simp add: gp_words_def Let_def)
  moreover have "?g (k + 540) = Some (if used_math s then 1 else 0)" by (simp add: gp_words_def Let_def)
  ultimately show ?thesis by (simp add: gp_in_def)
qed

lemma dword_cong: "f k = g k \<Longrightarrow> f (k + 4) = g (k + 4) \<Longrightarrow> dword f k v = dword g k v"
  by (simp add: dword_def)

lemma gp_in_cong:
  assumes "\<And>j. j < k + 272 \<or> k + 536 \<le> j \<Longrightarrow> g j = f j"
  shows "gp_in g k s = gp_in f k s"
proof -
  have "dword g (k + 16 + 8 * i) v = dword f (k + 16 + 8 * i) v" if "i < 32" for i v
    by (rule dword_cong; rule assms) (use that in auto)
  moreover have "dword g j v = dword f j v" if "j = k + 8 \<or> j = k + 552 \<or> j = k + 560" for j v
    by (rule dword_cong; rule assms) (use that in auto)
  ultimately show ?thesis using assms by (auto simp: gp_in_def)
qed

lemma fp_view_memory: "fp_view (t\<lparr>proc := (proc t)\<lparr>umem := m\<rparr>\<rparr>) = fp_view t"
  by (auto simp: fp_view_def is_fpu_owner_def fun_eq_iff)

text \<open>Before the registers are saved, the hardware has been made to hold those of the task.\<close>

lemma loaded_fpu:
  fixes s :: "'n task"
  defines "t \<equiv> if is_fpu_owner s then s else restore_fp (own_fpu s)"
  shows "fp_view t = fp_view s" and "cpu_has_fpu t = cpu_has_fpu s" and "cpu_has_fpu t \<longrightarrow> is_fpu_owner t" and "umem (proc t) = umem (proc s)"
  by (auto simp: t_def fp_view_def is_fpu_owner_def restore_fp_def own_fpu_def set_hw_csr_def)

context user_memory
begin

lemma put_dsp_holds:
  assumes "holds U m base f" and "8 dvd k" and "k + 592 \<le> 1000"
    and e: "(if dsp then or_put U (sc_dsp (base + of_nat k)) w (fold (\<lambda>i. or_put U (sc_acc (base + of_nat k) i) (a i)) [0..<6] (m, err)) else (m, err)) = (m', False)"
  shows "\<not> err \<and> holds U m' base (if dsp then upd32 (acc_words f k a) (k + 544) w else f)"
proof (cases dsp)
  case True
  obtain m1 where m1: "fold (\<lambda>i. or_put U (sc_acc (base + of_nat k) i) (a i)) [0..<6] (m, err) = (m1, False)" "ustore U m1 (base + of_nat (k + 544)) w = Some m'"
    using e True unfolding sc_addr by (auto elim: or_put_ok simp del: fold_simps upt_rec_numeral of_nat_add)
  have step: "\<exists>m. st = (m, False) \<and> ustore U m (base + of_nat (k + 568 + 4 * i)) (a i) = Some m'"
    if "or_put U (sc_acc (base + of_nat k) i) (a i) st = (m', False)" for i st m'
    using that unfolding sc_addr by (blast elim: or_put_ok)
  have bound: "4 dvd k + 568 + 4 * i \<and> k + 568 + 4 * i < 1000" if "i \<in> set [0..<6]" for i using that assms(2,3) by simp presburger
  have "\<not> err \<and> holds U m1 base (acc_words f k a)" unfolding acc_words_def using assms(1) m1(1) step bound by (rule holds_fold32)
  moreover have "4 dvd k + 544" using assms(2) by presburger
  ultimately show ?thesis using holds_store [OF _ m1(2)] assms(3) True by simp
qed (use assms in simp)

lemma put_regs_holds:
  assumes "holds U m base f" and "8 dvd k" and "k + 592 \<le> 1000"
    and e: "fold (\<lambda>i. or_put64 U (sc_regs (base + of_nat k) i) (ucast (r (of_nat i)))) [1..<32] (m, err) = (m', False)"
  shows "\<not> err \<and> holds U m' base (reg_words f k r)"
proof -
  have step: "\<exists>m. st = (m, False) \<and> ustore64 U m (base + of_nat (k + 16 + 8 * i)) (ucast (r (of_nat i))) = (m', True)"
    if "or_put64 U (sc_regs (base + of_nat k) i) (ucast (r (of_nat i))) st = (m', False)" for i st m'
    using that unfolding sc_addr by (blast elim: or_put64_ok)
  have bound: "4 dvd k + 16 + 8 * i \<and> k + 16 + 8 * i + 4 < 1000" if "i \<in> set [1..<32]" for i using that assms(2,3) by simp presburger
  show ?thesis unfolding reg_words_def using assms(1) e step bound by (rule holds_fold64)
qed

lemma put_gp_holds:
  assumes "holds U (umem (proc s)) base f" and "put_gp_context U (base + of_nat k) s = (m', False)" and k: "8 dvd k" "k + 592 \<le> 1000"
  shows "holds U m' base (gp_words f k s)"
proof -
  let ?p = "proc s" and ?sc = "base + of_nat k :: u32"
  have k4: "4 dvd k + 8" "4 dvd k + 16" "4 dvd k + 540" "4 dvd k + 552" "4 dvd k + 560" using k(1) by presburger+
  obtain m1 e1 where pc: "or_put64 U (sc_pc ?sc) (ucast (cp0_epc ?p)) (umem ?p, False) = (m1, e1)" by fastforce
  define m2 where "m2 = fst (ustore64 U m1 (sc_regs ?sc 0) 0)"
  obtain m3 e3 where r: "fold (\<lambda>i. or_put64 U (sc_regs ?sc i) (ucast (regs ?p (of_nat i)))) [1..<32] (m2, e1) = (m3, e3)" by fastforce
  obtain m4 e4 where hl: "or_put64 U (sc_mdlo ?sc) (ucast (lo s)) (or_put64 U (sc_mdhi ?sc) (ucast (hi s)) (m3, e3)) = (m4, e4)" by fastforce
  obtain m5 where m5: "(if cpu_has_dsp ?p then or_put U (sc_dsp ?sc) (rddsp s) (fold (\<lambda>i. or_put U (sc_acc ?sc i) (acc s i)) [0..<6] (m4, e4)) else (m4, e4)) = (m5, False)"
    "ustore U m5 (sc_used_math ?sc) (if used_math s then 1 else 0) = Some m'"
    using assms(2) unfolding put_gp_context_def Let_def pc fst_conv snd_conv m2_def [symmetric] r hl by (rule or_put_ok)
  have "\<not> e4" using put_dsp_holds [OF holds_empty k m5(1)] by simp
  then obtain mh where mh: "\<not> e3" "ustore64 U m3 (sc_mdhi ?sc) (ucast (hi s)) = (mh, True)" "ustore64 U mh (sc_mdlo ?sc) (ucast (lo s)) = (m4, True)"
    using hl by (auto elim!: or_put64_ok)
  have r: "fold (\<lambda>i. or_put64 U (sc_regs ?sc i) (ucast (regs ?p (of_nat i)))) [1..<32] (m2, e1) = (m3, False)" using r mh(1) by simp
  have "\<not> e1" using put_regs_holds [OF holds_empty k r] by simp
  then have "ustore64 U (umem ?p) (base + of_nat (k + 8)) (ucast (cp0_epc ?p)) = (m1, True)" using pc unfolding sc_addr by (auto elim: or_put64_ok)
  then have "holds U m1 base (upd64 f (k + 8) (ucast (cp0_epc ?p)))" using holds_store64 [OF assms(1) _ k4(1)] k(2) by simp
  then have "holds U m2 base ((upd64 f (k + 8) (ucast (cp0_epc ?p)))(k + 16 := None, k + 20 := None))"
    using holds_try64 [OF _ k4(2), of m1 base _ 0] k(2) unfolding m2_def sc_addr by (simp add: add.commute [of 20])
  then have "holds U m3 base (reg_words ((upd64 f (k + 8) (ucast (cp0_epc ?p)))(k + 16 := None, k + 20 := None)) k (regs ?p))" (is "holds U m3 base ?f")
    using put_regs_holds [OF _ k r] by simp
  then have "holds U mh base (upd64 ?f (k + 552) (ucast (hi s)))" using holds_store64 [OF _ mh(2) [unfolded sc_addr] k4(4)] k(2) by simp
  then have "holds U m4 base (upd64 (upd64 ?f (k + 552) (ucast (hi s))) (k + 560) (ucast (lo s)))"
    using holds_store64 [OF _ mh(3) [unfolded sc_addr] k4(5)] k(2) by simp
  from put_dsp_holds [OF this k m5(1)] show ?thesis
    using holds_store [OF _ m5(2) [unfolded sc_addr] k4(3)] k(2) unfolding gp_words_def Let_def by simp
qed

lemma setup_holds:
  assumes "holds U (umem (proc s)) base f" and "setup_sigcontext U (base + of_nat k) s = Some (s', False)" and k: "8 dvd k" "k + 592 \<le> 1000"
  shows "\<exists>g. holds U (umem (proc s')) base g \<and> context_in g k s \<and> (\<forall>j. j < k \<or> k + 592 \<le> j \<longrightarrow> g j = f j)"
proof -
  obtain m err where m: "put_gp_context U (base + of_nat k) s = (m, err)" by fastforce
  let ?s = "s\<lparr>proc := (proc s)\<lparr>umem := m\<rparr>\<rparr>" and ?f = "gp_words f k s"
  let ?t = "if is_fpu_owner ?s then ?s else restore_fp (own_fpu ?s)"
  have err: "\<not> err" using assms(2) m by (auto simp: setup_sigcontext_def Let_def split: if_splits)
  then have h: "holds U m base ?f" using put_gp_holds [OF assms(1) _ k] m by simp
  have o: "?f j = f j" if "j < k \<or> k + 592 \<le> j" for j using that by (intro gp_words_other) auto
  show ?thesis
  proof (cases "used_math s")
    case False
    then have "umem (proc s') = m" using assms(2) m by (auto simp: setup_sigcontext_def Let_def)
    then show ?thesis using h o gp_words_in [of f k s] False by (intro exI [of _ ?f]) (auto simp: context_in_def)
  next
    case True
    then have t: "save_fp_context U (base + of_nat k) ?t = Some (s', False)" using assms(2) m by (auto simp: setup_sigcontext_def Let_def)
    have "umem (proc ?t) = m" using loaded_fpu(4) [of ?s] by simp
    with h have "holds U (umem (proc ?t)) base ?f" by (simp only:)
    from save_fp_holds [OF this t k loaded_fpu(3) [of ?s]] obtain g where
      g: "holds U (umem (proc s')) base g" "fp_in g k ?t" "\<And>j. j < k + 272 \<or> k + 536 \<le> j \<Longrightarrow> g j = ?f j" by blast
    have "fp_view ?t = fp_view s" "cpu_has_fpu ?t = cpu_has_fpu s" using loaded_fpu(1,2) [of ?s] fp_view_memory [of m s] by simp_all
    then have "fp_in g k s" using fp_in_cong g(2) by blast
    moreover have "gp_in g k s" using gp_in_cong [of k g ?f s] g(3) gp_words_in [of f k s] by blast
    moreover have "g j = f j" if "j < k \<or> k + 592 \<le> j" for j using that g(3) [of j] o by auto
    ultimately show ?thesis using g(1) by (auto simp: context_in_def)
  qed
qed

end

text \<open>What the context routines leave alone.\<close>

definition same_user :: "'m task \<Rightarrow> 'm task \<Rightarrow> bool" where
  "same_user s t \<longleftrightarrow> regs (proc t) = regs (proc s) \<and> cp0_epc (proc t) = cp0_epc (proc s) \<and> hi t = hi s \<and> lo t = lo s \<and>
     acc t = acc s \<and> dsp_ctl t = dsp_ctl s \<and> used_math t = used_math s \<and> blocked t = blocked s \<and> saved_sigmask t = saved_sigmask s \<and>
     cpu_has_fpu t = cpu_has_fpu s \<and> cpu_has_dsp (proc t) = cpu_has_dsp (proc s) \<and> sas_ss_sp t = sas_ss_sp s \<and> sas_ss_size t = sas_ss_size s"

lemma save_context_same:
  assumes "save_fp_context U sc s = Some (t, err)"
  shows "same_user s t"
  using assms by (auto simp: save_fp_context_def hw_save_fp_context_def fpu_emulator_save_context_def same_user_def split: if_splits prod.splits)

lemma setup_same:
  assumes "setup_sigcontext U sc s = Some (t, err)"
  shows "same_user s t"
proof (cases "used_math s")
  case False
  then show ?thesis using assms by (auto simp: setup_sigcontext_def same_user_def split: prod.splits)
next
  case True
  obtain m e where m: "put_gp_context U sc s = (m, e)" by fastforce
  let ?s = "s\<lparr>proc := (proc s)\<lparr>umem := m\<rparr>\<rparr>"
  obtain e' where "save_fp_context U sc (if is_fpu_owner ?s then ?s else restore_fp (own_fpu ?s)) = Some (t, e')"
    using assms True m by (auto simp: setup_sigcontext_def Let_def)
  from save_context_same [OF this] show ?thesis by (auto simp: same_user_def restore_fp_def own_fpu_def set_hw_csr_def split: if_splits)
qed

section \<open>Reading the context back\<close>

text \<open>What a return from the handler restores of the interrupted task \<open>s\<close>.\<close>

definition restored :: "'m task \<Rightarrow> 'm task \<Rightarrow> bool" where
  "restored s t \<longleftrightarrow> (\<forall>r. r \<noteq> 0 \<longrightarrow> regs (proc t) r = regs (proc s) r) \<and> cp0_epc (proc t) = cp0_epc (proc s) \<and>
     hi t = hi s \<and> lo t = lo s \<and> (cpu_has_dsp (proc s) \<longrightarrow> rddsp t = rddsp s \<and> (\<forall>i < 6. acc t i = acc s i)) \<and>
     used_math t = used_math s \<and> (used_math s \<longrightarrow> fp_view t = fp_view s)"

lemma ucast_down64: "ucast (ucast (w :: u32) :: u64) = w"
  by (rule bit_word_eqI) (simp add: bit_simps)

lemma fold_read:
  assumes "\<And>i r. i \<in> set xs \<Longrightarrow> h i (r, False) = (r(d i := v (d i)), False)" and "\<And>j. P j \<longleftrightarrow> (\<exists>i \<in> set xs. j = d i)"
  shows "fold h xs (r, False) = (\<lambda>j. if P j then v j else r j, False)"
proof -
  have "fold h xs (r, False) = (\<lambda>j. if j \<in> d ` set xs then v j else r j, False)"
    using assms(1)
  proof (induction xs arbitrary: r)
    case (Cons x xs)
    then show ?case by (auto simp: fun_eq_iff)
  qed simp
  moreover have "j \<in> d ` set xs \<longleftrightarrow> P j" for j using assms(2) by auto
  ultimately show ?thesis by simp
qed

lemma reg_range: "r \<noteq> 0 \<longleftrightarrow> (\<exists>i \<in> set [1..<32]. r = (of_nat i :: 5 word))"
proof
  assume r: "r \<noteq> 0"
  obtain i where i: "i < 32" "r = of_nat i" using reg_index by blast
  then have "i \<noteq> 0" using r by (cases i) simp_all
  then show "\<exists>i \<in> set [1..<32]. r = of_nat i" using i by (intro bexI [of _ i]) auto
next
  assume "\<exists>i \<in> set [1..<32]. r = (of_nat i :: 5 word)"
  then obtain i where i: "1 \<le> i" "i < 32" "r = of_nat i" by auto
  then have "unat r = i" by (simp add: unat_of_nat take_bit_nat_eq_self)
  then show "r \<noteq> 0" using i(1) by auto
qed

lemma even_range: "\<not> bit r 0 \<longleftrightarrow> (\<exists>i \<in> set even_regs. r = (of_nat i :: 5 word))"
proof -
  have e: "bit (of_nat i :: 5 word) 0 \<longleftrightarrow> odd i" for i by (simp only: bit_0 even_of_nat)
  obtain i where i: "i < 32" "r = of_nat i" using reg_index by blast
  have "\<not> bit r 0 \<Longrightarrow> i \<in> set even_regs" using i(1) unfolding i(2) e even_regs_set by blast
  moreover have "\<not> bit (of_nat j :: 5 word) 0" if "j \<in> set even_regs" for j using that unfolding e even_regs_set by blast
  ultimately show ?thesis using i(2) by blast
qed

context user_memory
begin

lemma restore_fp_back:
  assumes "holds U (umem (proc t)) base f" and "fp_in f k s" and "cpu_has_fpu t = cpu_has_fpu s"
    and "cpu_has_fpu s \<longrightarrow> \<not> ctc_traps (snd (fp_view s))" and "cpu_has_fpu s \<longrightarrow> (base + of_nat (k + 272)) AND 7 = 0"
  shows "\<exists>t'. restore_fp_context U junk (base + of_nat k) (own_fpu t) = Some (t', False) \<and> fp_view t' = fp_view s \<and>
    same_user t t' \<and> umem (proc t') = umem (proc t)"
proof (cases "cpu_has_fpu s")
  case True
  let ?t = "own_fpu t" and ?csr = "snd (fp_view s)" and ?v = "fst (fp_view s)" and ?sc = "base + of_nat k :: u32"
  have o: "umem (proc ?t) = umem (proc t)" "cpu_has_fpu ?t" "hw_fpr ?t = hw_fpr t" using True assms(3) by (simp_all add: own_fpu_def)
  have l: "uload64 U (umem (proc t)) (sc_fpregs ?sc i) = Some (?v (of_nat i))" if "i \<in> set even_regs" for i
    unfolding sc_addr by (rule holds_load64 [OF assms(1)]) (use assms(2) that in \<open>simp add: fp_in_def even_regs_set\<close>)
  have c: "uload U (umem (proc t)) (sc_fpc_csr ?sc) = Some ?csr"
    unfolding sc_addr by (rule holds_load [OF assms(1)]) (use assms(2) in \<open>simp add: fp_in_def\<close>)
  have "fold (hw_restore_fpr U ?sc (umem (proc t))) even_regs (hw_fpr t, False) = (\<lambda>r. if \<not> bit r 0 then ?v r else hw_fpr t r, False)"
    by (rule fold_read [where d = of_nat, OF _ even_range]) (simp add: hw_restore_fpr_def l)
  then have "restore_fp_context U junk ?sc ?t = Some (set_hw_csr ?csr (?t\<lparr>hw_fpr := \<lambda>r. if \<not> bit r 0 then ?v r else hw_fpr t r\<rparr>), False)"
    using assms(4,5) True o c unfolding restore_fp_context_def hw_restore_fp_context_def by (simp add: sc_addr)
  moreover have "fp_view (set_hw_csr ?csr (?t\<lparr>hw_fpr := \<lambda>r. if \<not> bit r 0 then ?v r else hw_fpr t r\<rparr>)) = fp_view s"
    using True assms(3) by (auto simp: fp_view_def is_fpu_owner_def set_hw_csr_def own_fpu_def fun_eq_iff)
  moreover have "same_user t (set_hw_csr c (?t\<lparr>hw_fpr := g\<rparr>))" "umem (proc (set_hw_csr c (?t\<lparr>hw_fpr := g\<rparr>))) = umem (proc t)" for c g
    by (simp_all add: same_user_def set_hw_csr_def own_fpu_def)
  ultimately show ?thesis by (intro exI [of _ "set_hw_csr ?csr (?t\<lparr>hw_fpr := \<lambda>r. if \<not> bit r 0 then ?v r else hw_fpr t r\<rparr>)"] conjI)
next
  case False
  let ?sc = "base + of_nat k :: u32" and ?p = "(proc t)\<lparr>fpr := fpr (proc s), fcr31 := fcr31 (proc s)\<rparr>"
  have v: "fp_view s = (fpr (proc s), fcr31 (proc s))" using False by (simp add: fp_view_def)
  have "uload64 U (umem (proc t)) (sc_fpregs ?sc i) = Some (fpr (proc s) (of_nat i))" if "i < 32" for i
    unfolding sc_addr by (rule holds_load64 [OF assms(1)]) (use assms(2) False that v in \<open>simp add: fp_in_def\<close>)
  then have "restore_fprs U ?sc (umem (proc t)) (fpr (proc t)) = (\<lambda>r. if unat r < 32 then fpr (proc s) r else fpr (proc t) r, False)"
    unfolding restore_fprs_def by (intro restore_loop) auto
  moreover have "unat (r :: 5 word) < 32" for r using unsigned_less [of r] by simp
  moreover have "uload U (umem (proc t)) (sc_fpc_csr ?sc) = Some (fcr31 (proc s))"
    unfolding sc_addr by (rule holds_load [OF assms(1)]) (use assms(2) v in \<open>simp add: fp_in_def\<close>)
  ultimately have "restore_fp_context U junk ?sc (own_fpu t) = Some (t\<lparr>proc := ?p\<rparr>, False)"
    using False assms(3) by (simp add: restore_fp_context_def own_fpu_def fpu_emulator_restore_context_def)
  moreover have "fp_view (t\<lparr>proc := ?p\<rparr>) = fp_view s" using False assms(3) v by (simp add: fp_view_def)
  moreover have "same_user t (t\<lparr>proc := ?p\<rparr>)" by (simp add: same_user_def)
  ultimately show ?thesis by (intro exI [of _ "t\<lparr>proc := ?p\<rparr>"]) simp
qed

lemma get_long_in: "holds U m base f \<Longrightarrow> dword f k (ucast w) \<Longrightarrow> get_long U m (base + of_nat k) = (w, False)"
  using holds_load64 [of m base f k "ucast w"] by (simp add: get_long_def ucast_down64)

lemma get_int_in: "holds U m base f \<Longrightarrow> f k = Some w \<Longrightarrow> get_int U junk m (base + of_nat k) = (w, False)"
  using holds_load [of m base f k w] by (simp add: get_int_def)

lemma restore_regs_back:
  assumes "holds U m base f" and "gp_in f k s"
  shows "fold (restore_gp_reg U (base + of_nat k) m) [1..<32] (r, False) = (\<lambda>j. if j \<noteq> 0 then regs (proc s) j else r j, False)"
proof (rule fold_read [where d = of_nat, OF _ reg_range])
  fix i :: nat and r assume "i \<in> set [1..<32]"
  then have "dword f (k + 16 + 8 * i) (ucast (regs (proc s) (of_nat i)))" using assms(2) by (simp add: gp_in_def)
  from get_long_in [OF assms(1) this] show "restore_gp_reg U (base + of_nat k) m i (r, False) = (r(of_nat i := regs (proc s) (of_nat i)), False)"
    unfolding restore_gp_reg_def sc_addr by simp
qed

lemma restore_dsp_back:
  assumes "holds U (umem (proc t)) base f" and "gp_in f k s" and "cpu_has_dsp (proc t) = cpu_has_dsp (proc s)"
  shows "restore_dsp U junk (base + of_nat k) t =
    (if cpu_has_dsp (proc s) then wrdsp (rddsp s) (t\<lparr>acc := \<lambda>i. if i < 6 then acc s i else acc t i\<rparr>) else t, False)"
proof (cases "cpu_has_dsp (proc s)")
  case True
  have "fold (restore_acc U junk (base + of_nat k) (umem (proc t))) [0..<6] (acc t, False) = (\<lambda>i. if i < 6 then acc s i else acc t i, False)"
  proof (rule fold_read [where d = "\<lambda>i. i"])
    fix i :: nat and a assume "i \<in> set [0..<6]"
    then have "f (k + 568 + 4 * i) = Some (acc s i)" using assms(2) True by (simp add: gp_in_def)
    from get_int_in [OF assms(1) this] show "restore_acc U junk (base + of_nat k) (umem (proc t)) i (a, False) = (a(i := acc s i), False)"
      unfolding restore_acc_def sc_addr by simp
  qed auto
  moreover have "get_int U junk (umem (proc t)) (sc_dsp (base + of_nat k)) = (rddsp s, False)"
    unfolding sc_addr by (rule get_int_in [OF assms(1)]) (use assms(2) True in \<open>simp add: gp_in_def\<close>)
  ultimately show ?thesis using True assms(3) by (simp add: restore_dsp_def del: fold_simps upt_rec_numeral)
qed (use assms(3) in \<open>simp add: restore_dsp_def\<close>)

lemma restore_back:
  assumes h: "holds U (umem (proc t)) base f" and c: "context_in f k s" and fpu: "cpu_has_fpu t = cpu_has_fpu s"
    and dsp: "cpu_has_dsp (proc t) = cpu_has_dsp (proc s)"
    and csr: "used_math s \<and> cpu_has_fpu s \<longrightarrow> \<not> ctc_traps (snd (fp_view s))" and al: "cpu_has_fpu s \<longrightarrow> (base + of_nat (k + 272)) AND 7 = 0"
  shows "\<exists>t'. restore_sigcontext U junk (base + of_nat k) t = Some (t', False) \<and> restored s t' \<and> blocked t' = blocked t \<and>
    umem (proc t') = umem (proc t) \<and> sas_ss_sp t' = sas_ss_sp t \<and> sas_ss_size t' = sas_ss_size t"
proof -
  let ?sc = "base + of_nat k :: u32"
  let ?t1 = "t\<lparr>no_restart := True, proc := (proc t)\<lparr>cp0_epc := cp0_epc (proc s)\<rparr>, hi := hi s, lo := lo s\<rparr>"
  let ?t2 = "if cpu_has_dsp (proc s) then wrdsp (rddsp s) (?t1\<lparr>acc := \<lambda>i. if i < 6 then acc s i else acc ?t1 i\<rparr>) else ?t1"
  let ?t3 = "?t2\<lparr>proc := (proc ?t2)\<lparr>regs := \<lambda>j. if j \<noteq> 0 then regs (proc s) j else regs (proc t) j\<rparr>, used_math := used_math s\<rparr>"
  have g: "gp_in f k s" using c by (simp add: context_in_def)
  have l: "get_long U (umem (proc t)) (sc_pc ?sc) = (cp0_epc (proc s), False)" "get_long U (umem (proc t)) (sc_mdhi ?sc) = (hi s, False)"
    "get_long U (umem (proc t)) (sc_mdlo ?sc) = (lo s, False)"
    unfolding sc_addr by (rule get_long_in [OF h]; use g in \<open>simp add: gp_in_def\<close>)+
  have u: "get_int U junk (umem (proc t)) (sc_used_math ?sc) = (if used_math s then 1 else 0, False)"
    unfolding sc_addr by (rule get_int_in [OF h]) (use g in \<open>simp add: gp_in_def\<close>)
  have d: "restore_dsp U junk ?sc ?t1 = (?t2, False)" by (rule restore_dsp_back) (use h g dsp in simp_all)
  have r2: "regs (proc ?t2) = regs (proc t)" by (simp add: wrdsp_def)
  have e: "restore_sigcontext U junk ?sc t = (if used_math s then map_option (\<lambda>(s, e). (s, False \<or> e)) (restore_fp_context U junk ?sc (own_fpu ?t3)) else Some (lose_fpu ?t3, False))"
    unfolding restore_sigcontext_def Let_def l u prod.case d r2 restore_regs_back [OF h g] by (simp split: if_split)
  have r3: "restored s t'" if "same_user ?t3 t'" "used_math s \<longrightarrow> fp_view t' = fp_view s" for t'
    using that by (auto simp: same_user_def restored_def wrdsp_def rddsp_def and.assoc)
  have t3: "umem (proc ?t3) = umem (proc t)" "blocked ?t3 = blocked t" "cpu_has_fpu ?t3 = cpu_has_fpu t"  "sas_ss_sp ?t3 = sas_ss_sp t" "sas_ss_size ?t3 = sas_ss_size t"
    by (simp_all add: wrdsp_def)
  show ?thesis
  proof (cases "used_math s")
    case True
    then have "fp_in f k s" using c by (simp add: context_in_def)
    moreover have "holds U (umem (proc ?t3)) base f" using h unfolding t3 .
    ultimately obtain t' where t': "restore_fp_context U junk ?sc (own_fpu ?t3) = Some (t', False)" "fp_view t' = fp_view s" "same_user ?t3 t'" "umem (proc t') = umem (proc ?t3)"
      using restore_fp_back [of ?t3 base f k s junk] True fpu t3(3) csr al by blast
    have "restore_sigcontext U junk ?sc t = Some (t', False)" unfolding e using t'(1) True by simp
    moreover have "blocked t' = blocked ?t3 \<and> sas_ss_sp t' = sas_ss_sp ?t3 \<and> sas_ss_size t' = sas_ss_size ?t3" using t'(3) unfolding same_user_def by blast
    ultimately show ?thesis using r3 [OF t'(3)] t'(2,4) unfolding t3 by blast
  next
    case False
    have "same_user ?t3 (lose_fpu ?t3)" "umem (proc (lose_fpu ?t3)) = umem (proc ?t3)" by (simp_all add: same_user_def lose_fpu_def)
    moreover from this have "blocked (lose_fpu ?t3) = blocked ?t3 \<and> sas_ss_sp (lose_fpu ?t3) = sas_ss_sp ?t3 \<and> sas_ss_size (lose_fpu ?t3) = sas_ss_size ?t3" unfolding same_user_def by blast
    moreover have "restore_sigcontext U junk ?sc t = Some (lose_fpu ?t3, False)" unfolding e using False by simp
    ultimately show ?thesis using r3 [of "lose_fpu ?t3"] False unfolding t3 by blast
  qed
qed

end

section \<open>Frames\<close>

text \<open>
  Stores to a region \<open>R\<close> of offsets keep the words outside it, whether they fault or not. The mask of the interrupted task is four
  words.
\<close>

definition stores_in :: "'m user_ops \<Rightarrow> u32 \<Rightarrow> nat set \<Rightarrow> 'm \<Rightarrow> 'm \<Rightarrow> bool" where
  "stores_in U base R m m' \<longleftrightarrow> (\<forall>f. holds U m base f \<longrightarrow> holds U m' base (f |` (- R)))"

definition mask_in :: "(nat \<rightharpoonup> u32) \<Rightarrow> nat \<Rightarrow> sigset \<Rightarrow> bool" where
  "mask_in f k ss \<longleftrightarrow> (\<forall>i < 4. f (k + 4 * i) = Some (ss (of_nat i)))"

lemma low3: "(x :: u32) AND 7 = 0 \<longleftrightarrow> 8 dvd uint x"
proof -
  have "x AND 7 = take_bit 3 x" by (simp add: take_bit_eq_mask mask_numeral)
  then have "uint (x AND 7) = uint x mod 8" by (simp add: take_bit_eq_mod uint_mod_distrib)
  then show ?thesis by (simp add: word_uint_eq_iff dvd_eq_mod_eq_0)
qed

lemma aligned_plus:
  assumes "8 dvd n" and "a AND 7 = (0 :: u32)"
  shows "(a + of_nat n) AND 7 = 0"
proof -
  have "8 dvd int n" using assms(1) by presburger
  then have "8 dvd uint a + int n" using assms(2) by (simp add: low3)
  moreover have "uint (a + of_nat n) = (uint a + int n) mod 2 ^ 32" by (simp add: uint_word_ariths unsigned_of_nat take_bit_eq_mod mod_simps zmod_int)
  ultimately show ?thesis unfolding low3 by (simp add: dvd_mod)
qed

text \<open>The first \<open>n\<close> bytes at \<open>base\<close> read the same in two memories.\<close>

definition same_words :: "'m user_ops \<Rightarrow> nat \<Rightarrow> u32 \<Rightarrow> 'm \<Rightarrow> 'm \<Rightarrow> bool" where
  "same_words U n base m m' \<longleftrightarrow> (\<forall>j < n. uload U m' (base + of_nat j) = uload U m (base + of_nat j))"

lemma high_not_ok:
  assumes "bit a 31"
  shows "\<not> access_ok a n"
proof
  assume "access_ok a n"
  then have "bit (0x80000000 AND (a OR (a + n))) 31 = bit (0 :: u32) 31" by (simp only: access_ok_def)
  then show False using assms by (simp add: bit_simps)
qed

lemma context_in_memory: "context_in f k (s\<lparr>proc := (proc s)\<lparr>umem := m\<rparr>\<rparr>) = context_in f k s"
  using fp_view_memory [of m s] by (simp add: context_in_def gp_in_def fp_in_def rddsp_def)

lemma context_in_cong:
  assumes "\<And>j. k \<le> j \<Longrightarrow> j < k + 592 \<Longrightarrow> g j = f j"
  shows "context_in g k s = context_in f k s"
proof -
  have d: "dword g j v = dword f j v" if "k \<le> j" "j < k + 588" for j v
    by (rule dword_cong; rule assms) (use that in auto)
  show ?thesis using assms by (simp add: context_in_def gp_in_def fp_in_def d)
qed

lemma stores_trans: "stores_in U base R m m1 \<Longrightarrow> stores_in U base R m1 m2 \<Longrightarrow> stores_in U base R m m2"
  unfolding stores_in_def using restrict_restrict [of _ "- R" "- R"] by fastforce

text \<open>A frame at \<open>frame\<close> has the words \<open>g\<close>: trampoline, context and mask; the words of \<open>f\<close> behind it are untouched.\<close>

definition built :: "'m user_ops \<Rightarrow> u32 \<Rightarrow> nat \<Rightarrow> u32 \<Rightarrow> sigset \<Rightarrow> (nat \<rightharpoonup> u32) \<Rightarrow> 'm task \<Rightarrow> (nat \<rightharpoonup> u32) \<Rightarrow> bool" where
  "built U frame k nr ss f s g \<longleftrightarrow> context_in g k s \<and> mask_in g (k + 592) ss \<and> (\<forall>j \<ge> k + 608. g j = f j) \<and>
     (\<not> snd (install_sigtramp U (frame + 16) nr (umem (proc s))) \<longrightarrow> g 16 = Some (0x24020000 + nr) \<and> g 20 = Some 0xc)"

definition entered :: "k_sigaction \<Rightarrow> u32 \<Rightarrow> u32 \<Rightarrow> u32 \<Rightarrow> u32 \<Rightarrow> 'm task \<Rightarrow> 'm task \<Rightarrow> bool" where
  "entered ka sig a1 a2 frame s s1 \<longleftrightarrow> regs (proc s1) = (regs (proc s))(4 := sig, 5 := a1, 6 := a2, 29 := frame, 31 := frame + 16, 25 := sa_handler ka) \<and>
     cp0_epc (proc s1) = sa_handler ka \<and> blocked s1 = blocked s \<and> cpu_has_fpu s1 = cpu_has_fpu s \<and> cpu_has_dsp (proc s1) = cpu_has_dsp (proc s)"

lemma entered_handler: "same_user s s2 \<Longrightarrow> entered ka sig a1 a2 frame s (enter_handler ka sig a1 a2 frame s2)"
  by (simp add: entered_def enter_handler_def same_user_def)

context user_memory
begin

lemma stores_refl: "stores_in U base R m m"
  unfolding stores_in_def by (auto elim!: holds_forget simp: restrict_map_def split: if_splits)

lemma stores_put:
  assumes "k \<in> R" and "4 dvd k" and "k < 1000"
  shows "stores_in U base R (fst st) (fst (or_put U (base + of_nat k) v st))" and "stores_in U base R (fst st) (fst (copy_word U (base + of_nat k) v st))"
proof -
  have t: "stores_in U base R m (case ustore U m (base + of_nat k) v of None \<Rightarrow> m | Some m' \<Rightarrow> m')" for m
    unfolding stores_in_def
  proof (intro allI impI)
    fix f assume "holds U m base f"
    from holds_try [OF this assms(2,3)] show "holds U (case ustore U m (base + of_nat k) v of None \<Rightarrow> m | Some m' \<Rightarrow> m') base (f |` (- R))"
      by (rule holds_forget) (use assms(1) in \<open>auto simp: restrict_map_def split: if_splits\<close>)
  qed
  obtain m e where st: "st = (m, e)" by fastforce
  show "stores_in U base R (fst st) (fst (or_put U (base + of_nat k) v st))" using t [of m] unfolding st by (auto simp: or_put_def split: option.splits)
  show "stores_in U base R (fst st) (fst (copy_word U (base + of_nat k) v st))"
    using t [of m] stores_refl unfolding st by (auto simp: copy_word_def split: option.splits)
qed

lemma stores_fold: "(\<And>i st. i \<in> set xs \<Longrightarrow> stores_in U base R (fst st) (fst (h i st))) \<Longrightarrow> stores_in U base R (fst st) (fst (fold h xs st))"
proof (induction xs arbitrary: st)
  case (Cons x xs)
  have "stores_in U base R (fst (h x st)) (fst (fold h xs (h x st)))" using Cons by simp
  with Cons.prems [of x st] show ?case by (auto intro: stores_trans)
qed (simp add: stores_refl)

lemma put_mask_holds:
  assumes "holds U (umem (proc s)) base f" and "put_mask U (base + of_nat k) ss (s, err) = (s', False)" and "4 dvd k" and "k + 16 \<le> 1000"
  shows "\<not> err \<and> (\<exists>g. holds U (umem (proc s')) base g \<and> mask_in g k ss \<and> (\<forall>j. j < k \<or> k + 16 \<le> j \<longrightarrow> g j = f j)) \<and>
    s' = s\<lparr>proc := (proc s)\<lparr>umem := umem (proc s')\<rparr>\<rparr>"
proof -
  let ?g = "fold (\<lambda>i f. upd32 f (k + 4 * i) (ss (of_nat i))) [0..<4] f"
  obtain m where m: "fold (\<lambda>i. copy_word U (base + of_nat k + 4 * of_nat i) (ss (of_nat i))) [0..<4] (umem (proc s), False) = (m, False)"
    and s': "\<not> err" "s' = s\<lparr>proc := (proc s)\<lparr>umem := m\<rparr>\<rparr>"
    using assms(2) by (auto simp: put_mask_def copy_to_user_def Let_def split: prod.splits)
  have a: "base + of_nat k + 4 * of_nat i = base + of_nat (k + 4 * i)" for i by simp
  have step: "\<exists>m. st = (m, False) \<and> ustore U m (base + of_nat (k + 4 * i)) (ss (of_nat i)) = Some m'"
    if "copy_word U (base + of_nat k + 4 * of_nat i) (ss (of_nat i)) st = (m', False)" for i st m'
    using that unfolding a by (blast elim: copy_word_ok)
  have bound: "4 dvd k + 4 * i \<and> k + 4 * i < 1000" if "i \<in> set [0..<4]" for i using that assms(3,4) by auto
  have "\<not> False \<and> holds U m base ?g" using assms(1) m step bound by (rule holds_fold32)
  moreover have "?g (k + 4 * i) = Some (ss (of_nat i))" if "i < 4" for i by (rule fold32_word) (use that in auto)
  moreover have "?g j = f j" if "j < k \<or> k + 16 \<le> j" for j by (rule fold32_other) (use that in auto)
  ultimately show ?thesis using s' unfolding mask_in_def by (intro conjI exI [of _ ?g]) (simp_all del: fold_simps upt_rec_numeral)
qed

lemma frame_tail:
  assumes "holds U (umem (proc s)) base f" and "setup_sigcontext U (base + of_nat k) s = Some (s1, err)"
    and "put_mask U (base + of_nat (k + 592)) ss (s1, e \<or> err) = (s2, False)" and k: "8 dvd k" "k + 608 \<le> 1000"
  shows "\<not> e \<and> (\<exists>g. holds U (umem (proc s2)) base g \<and> context_in g k s \<and> mask_in g (k + 592) ss \<and> (\<forall>j. j < k \<or> k + 608 \<le> j \<longrightarrow> g j = f j)) \<and> same_user s s2"
proof -
  have k4: "4 dvd k + 592" using k(1) by presburger
  have "\<not> (e \<or> err)" using put_mask_holds [OF holds_empty assms(3) k4] k(2) by simp
  then have set: "setup_sigcontext U (base + of_nat k) s = Some (s1, False)" "put_mask U (base + of_nat (k + 592)) ss (s1, False) = (s2, False)" using assms(2,3) by simp_all
  obtain g where g: "holds U (umem (proc s1)) base g" "context_in g k s" "\<forall>j. j < k \<or> k + 592 \<le> j \<longrightarrow> g j = f j"
    using setup_holds [OF assms(1) set(1) k(1)] k(2) by auto
  obtain h where h: "holds U (umem (proc s2)) base h" "mask_in h (k + 592) ss" "\<forall>j. j < k + 592 \<or> k + 592 + 16 \<le> j \<longrightarrow> h j = g j"
    "s2 = s1\<lparr>proc := (proc s1)\<lparr>umem := umem (proc s2)\<rparr>\<rparr>"
    using put_mask_holds [OF g(1) set(2) k4] k(2) by auto
  have "context_in h k s" using context_in_cong [of k h g s] h(3) g(2) by simp
  moreover have "h j = f j" if "j < k \<or> k + 608 \<le> j" for j using that h(3) g(3) by auto
  moreover have "same_user s1 s2" by (subst h(4)) (simp add: same_user_def)
  then have "same_user s s2" using setup_same [OF set(1)] by (simp add: same_user_def)
  ultimately show ?thesis using h(1,2) \<open>\<not> (e \<or> err)\<close> by blast
qed

lemma tramp_holds:
  assumes "holds U m base f"
  shows "\<exists>g. holds U (fst (install_sigtramp U (base + 16) nr m)) base g \<and> (\<forall>j \<ge> 24. g j = f j) \<and>
    (\<not> snd (install_sigtramp U (base + 16) nr m) \<longrightarrow> g 16 = Some (0x24020000 + nr) \<and> g 20 = Some 0xc)"
proof (cases "snd (install_sigtramp U (base + 16) nr m)")
  case True
  let ?R = "{16, 20} :: nat set"
  have "stores_in U base ?R (fst (m, False)) (fst (or_put U (base + of_nat 16) (0x24020000 + nr) (m, False)))" by (rule stores_put) simp_all
  moreover have "stores_in U base ?R (fst st) (fst (or_put U (base + of_nat 20) 0xc st))" for st by (rule stores_put) simp_all
  ultimately have "stores_in U base ?R m (fst (install_sigtramp U (base + 16) nr m))" using stores_trans by (fastforce simp: install_sigtramp_def add.assoc)
  then have "holds U (fst (install_sigtramp U (base + 16) nr m)) base (f |` (- ?R))" using assms by (simp add: stores_in_def)
  then show ?thesis using True by (intro exI [of _ "f |` (- ?R)"]) (auto simp: restrict_map_def)
next
  case False
  then obtain m1 m2 where st: "ustore U m (base + of_nat 16) (0x24020000 + nr) = Some m1" "ustore U m1 (base + of_nat 20) 0xc = Some m2"
    "fst (install_sigtramp U (base + 16) nr m) = m2"
    by (auto simp: install_sigtramp_def or_put_def add.assoc split: option.splits)
  have "holds U m2 base (upd32 (upd32 f 16 (0x24020000 + nr)) 20 0xc)" by (rule holds_store [OF holds_store [OF assms st(1)] st(2)]) simp_all
  then show ?thesis using st(3) by (intro exI [of _ "upd32 (upd32 f 16 (0x24020000 + nr)) 20 0xc"]) simp
qed

lemma mask_back:
  assumes "holds U m base f" and "mask_in f k ss"
  shows "get_sigset U m (base + of_nat k) = Some ss"
proof -
  have l: "uload U m (base + of_nat (k + 4 * i)) = Some (ss (of_nat i))" if "i < 4" for i
    by (rule holds_load [OF assms(1)]) (use assms(2) that in \<open>simp add: mask_in_def\<close>)
  have "copy_from_user U m (base + of_nat k) 4 = Some [ss 0, ss 1, ss 2, ss 3]"
    using l [of 0] l [of 1] l [of 2] l [of 3] by (simp add: eval_nat_numeral ac_simps)
  moreover have "(\<lambda>w. [ss 0, ss 1, ss 2, ss 3] ! unat w) = ss"
  proof
    fix w :: "2 word"
    from word2_cases [of w] show "[ss 0, ss 1, ss 2, ss 3] ! unat w = ss w" by auto
  qed
  ultimately show ?thesis by (simp add: get_sigset_def)
qed

lemma setup_frame_built:
  assumes h: "holds U (umem (proc s)) frame f" and frame: "frame = get_sigframe ka 632 s" and e: "setup_frame U ka sig ss s = Some (s1, 0)"
  shows "access_ok frame 632 \<and> (\<exists>g. holds U (umem (proc s1)) frame g \<and> built U frame 24 4119 ss f s g) \<and> entered ka sig 0 (frame + 24) frame s s1"
proof -
  let ?s = "s\<lparr>proc := (proc s)\<lparr>umem := fst (install_sigtramp U (frame + 16) 4119 (umem (proc s)))\<rparr>\<rparr>"
  have ok: "access_ok frame 632" using e by (auto simp: setup_frame_def frame Let_def split: if_splits)
  obtain t err where t0: "setup_sigcontext U (frame + 24) ?s = Some (t, err)" using e ok by (auto simp: setup_frame_def frame [symmetric] Let_def)
  obtain s2 e2 where s2: "put_mask U (frame + 616) ss (t, err) = (s2, e2)" by fastforce
  have t: "setup_sigcontext U (frame + of_nat 24) ?s = Some (t, err)" "put_mask U (frame + of_nat (24 + 592)) ss (t, False \<or> err) = (s2, False)"
    "s1 = enter_handler ka sig 0 (frame + 24) frame s2"
    using e ok t0 s2 by (auto simp: setup_frame_def frame [symmetric] Let_def split: if_splits)
  obtain f0 where f0: "holds U (umem (proc ?s)) frame f0" "\<forall>j \<ge> 24. f0 j = f j"
    "\<not> snd (install_sigtramp U (frame + 16) 4119 (umem (proc s))) \<longrightarrow> f0 16 = Some (0x24020000 + 4119) \<and> f0 20 = Some 0xc"
    using tramp_holds [OF h, of 4119] by auto
  obtain g where g: "holds U (umem (proc s2)) frame g" "context_in g 24 ?s" "mask_in g (24 + 592) ss" "\<forall>j. j < 24 \<or> 24 + 608 \<le> j \<longrightarrow> g j = f0 j" "same_user ?s s2"
    using frame_tail [OF f0(1) t(1,2)] by auto
  have "context_in g 24 s" using g(2) unfolding context_in_memory .
  then have "built U frame 24 4119 ss f s g" using g(3,4) f0(2,3) by (auto simp: built_def)
  moreover have "umem (proc s1) = umem (proc s2)" using t(3) by (simp add: enter_handler_def)
  moreover have "entered ka sig 0 (frame + 24) frame s s1" using entered_handler [OF g(5)] unfolding t(3) by (simp add: entered_def)
  ultimately show ?thesis using ok g(1) by auto
qed

lemma siginfo_stores: "stores_in U base {24..<152} m (fst (copy_siginfo_to_user U (base + 24) info m))"
proof -
  have a: "base + 24 + 4 * of_nat i = base + of_nat (24 + 4 * i)" for i by simp
  have all: "stores_in U base {24..<152} (fst (m, False)) (fst (copy_to_user U (base + 24) info 32 m))"
    unfolding copy_to_user_def a by (rule stores_fold) (rule stores_put, auto)
  have union: "stores_in U base {24..<152} (fst st) (fst (fold (\<lambda>i. or_put U (base + 24 + 4 * of_nat i) (info i)) (si_words (si_code info)) st))" for st
    unfolding a by (rule stores_fold) (rule stores_put, auto simp: si_words_def Let_def split: if_splits)
  have head: "stores_in U base {24..<152} (fst (m, False)) (fst (or_put U (base + 24 + 4) x (or_put U (base + 24 + 8) y (or_put U (base + 24) z (m, False)))))" for x y z
  proof -
    have "stores_in U base {24..<152} (fst (m, False)) (fst (or_put U (base + of_nat 28) x (or_put U (base + of_nat 32) y (or_put U (base + of_nat 24) z (m, False)))))"
      by (rule stores_trans [OF stores_trans [OF stores_put(1) stores_put(1)] stores_put(1)]) auto
    then show ?thesis by (simp add: ac_simps)
  qed
  show ?thesis unfolding copy_siginfo_to_user_def
    using all stores_trans [OF head union] by (simp only: stores_refl fst_conv simp_thms split: if_split)
qed

lemma ucontext_holds:
  assumes "holds U m base f" and "put_ucontext U (base + 152) s (m, err) = (m', False)"
  shows "\<not> err \<and> (\<exists>g. holds U m' base g \<and> (\<forall>j. j < 152 \<or> 172 \<le> j \<longrightarrow> g j = f j) \<and> g 160 \<noteq> None \<and> g 164 \<noteq> None \<and> g 168 \<noteq> None)"
proof -
  obtain m1 m2 m3 m4 where st: "\<not> err" "ustore U m (base + of_nat 152) 0 = Some m1" "ustore U m1 (base + of_nat 156) 0 = Some m2"
    "ustore U m2 (base + of_nat 160) (sas_ss_sp s) = Some m3" "ustore U m3 (base + of_nat 168) (sas_ss_flags s (regs (proc s) 29)) = Some m4"
    "ustore U m4 (base + of_nat 164) (sas_ss_size s) = Some m'"
    using assms(2) unfolding put_ucontext_def by (elim or_put_ok) (auto elim!: or_put_ok simp: add.assoc)
  let ?g = "upd32 (upd32 (upd32 (upd32 (upd32 f 152 0) 156 0) 160 (sas_ss_sp s)) 168 (sas_ss_flags s (regs (proc s) 29))) 164 (sas_ss_size s)"
  have "holds U m' base ?g"
    by (rule holds_store [OF holds_store [OF holds_store [OF holds_store [OF holds_store [OF assms(1) st(2)] st(3)] st(4)] st(5)] st(6)]) simp_all
  then show ?thesis using st(1) by (intro conjI exI [of _ ?g]) auto
qed

lemma setup_rt_frame_built:
  assumes h: "holds U (umem (proc s)) frame f" and frame: "frame = get_sigframe ka 784 s" and e: "setup_rt_frame U ka sig ss info s = Some (s1, 0)"
  shows "access_ok frame 784 \<and> (\<exists>g. holds U (umem (proc s1)) frame g \<and> built U frame 176 4193 ss f s g \<and> g 160 \<noteq> None \<and> g 164 \<noteq> None \<and> g 168 \<noteq> None) \<and>
    entered ka sig (frame + 24) (frame + 152) frame s s1"
proof -
  let ?m = "fst (install_sigtramp U (frame + 16) 4193 (umem (proc s)))"
  obtain m0 e0 where m0: "copy_siginfo_to_user U (frame + 24) info ?m = (m0, e0)" by fastforce
  obtain m err where m: "put_ucontext U (frame + 152) s (m0, e0) = (m, err)" by fastforce
  let ?s = "s\<lparr>proc := (proc s)\<lparr>umem := m\<rparr>\<rparr>"
  have ok: "access_ok frame 784" using e by (auto simp: setup_rt_frame_def frame Let_def split: if_splits)
  obtain t e1 where t0: "setup_sigcontext U (frame + 176) ?s = Some (t, e1)" using e ok by (auto simp: setup_rt_frame_def frame [symmetric] Let_def m0 m)
  obtain s2 e2 where s2: "put_mask U (frame + 768) ss (t, err \<or> e1) = (s2, e2)" by fastforce
  have t: "setup_sigcontext U (frame + of_nat 176) ?s = Some (t, e1)" "put_mask U (frame + of_nat (176 + 592)) ss (t, err \<or> e1) = (s2, False)"
    "s1 = enter_handler ka sig (frame + 24) (frame + 152) frame s2"
    using e ok t0 s2 by (auto simp: setup_rt_frame_def frame [symmetric] Let_def m0 m split: if_splits)
  have "\<not> err" using frame_tail [OF holds_empty t(1,2)] by simp
  obtain f0 where f0: "holds U ?m frame f0" "\<forall>j \<ge> 24. f0 j = f j"
    "\<not> snd (install_sigtramp U (frame + 16) 4193 (umem (proc s))) \<longrightarrow> f0 16 = Some (0x24020000 + 4193) \<and> f0 20 = Some 0xc"
    using tramp_holds [OF h, of 4193] by auto
  have "holds U m0 frame (f0 |` (- {24..<152}))" using siginfo_stores [of frame ?m info] f0(1) m0 by (simp add: stores_in_def)
  from ucontext_holds [OF this, of s e0 m] m \<open>\<not> err\<close> obtain f1 where f1: "holds U (umem (proc ?s)) frame f1" "\<forall>j. j < 152 \<or> 172 \<le> j \<longrightarrow> f1 j = (f0 |` (- {24..<152})) j"
    "f1 160 \<noteq> None" "f1 164 \<noteq> None" "f1 168 \<noteq> None" by (simp only: surjective_pairing) auto
  obtain g where g: "holds U (umem (proc s2)) frame g" "context_in g 176 ?s" "mask_in g (176 + 592) ss" "\<forall>j. j < 176 \<or> 176 + 608 \<le> j \<longrightarrow> g j = f1 j" "same_user ?s s2"
    using frame_tail [OF f1(1) t(1,2)] by auto
  have "context_in g 176 s" using g(2) unfolding context_in_memory .
  then have "built U frame 176 4193 ss f s g" using g(3,4) f1(2) f0(2,3) by (auto simp: built_def restrict_map_def)
  moreover have "umem (proc s1) = umem (proc s2)" using t(3) by (simp add: enter_handler_def)
  moreover have "entered ka sig (frame + 24) (frame + 152) frame s s1" using entered_handler [OF g(5)] unfolding t(3) by (simp add: entered_def)
  ultimately show ?thesis using ok g(1,4) f1(3-5) by auto
qed

lemma sigreturn_back:
  assumes h: "holds U (umem (proc t)) frame g" and c: "context_in g k s" and m: "mask_in g (k + 592) ss" and ok: "access_ok frame n"
    and al: "frame AND 7 = 0" "8 dvd k" and has: "cpu_has_fpu t = cpu_has_fpu s" "cpu_has_dsp (proc t) = cpu_has_dsp (proc s)"
    and csr: "used_math s \<and> cpu_has_fpu s \<longrightarrow> \<not> ctc_traps (snd (fp_view s))"
  shows "\<exists>t'. sigreturn_from U junk frame n (frame + of_nat (k + 592)) (frame + of_nat k) t = Some (t', True) \<and> restored s t' \<and>
    blocked t' = sigdelsetmask ss (NOT BLOCKABLE) \<and> umem (proc t') = umem (proc t)"
proof -
  let ?t = "set_blocked (sigdelsetmask ss (NOT BLOCKABLE)) t"
  have t: "proc ?t = proc t" "cpu_has_fpu ?t = cpu_has_fpu t" "blocked ?t = sigdelsetmask ss (NOT BLOCKABLE)"
    by (simp_all add: set_blocked_def recalc_sigpending_def)
  have "8 dvd k + 272" using al(2) by presburger
  then have "(frame + of_nat (k + 272)) AND 7 = 0" using al(1) by (rule aligned_plus)
  then obtain t' where t': "restore_sigcontext U junk (frame + of_nat k) ?t = Some (t', False)" "restored s t'" "blocked t' = blocked ?t" "umem (proc t') = umem (proc ?t)"
    using restore_back [of ?t frame g k s junk] h c has csr t by auto
  then show ?thesis using mask_back [OF h m] ok t by (simp add: sigreturn_from_def del: of_nat_add)
qed

lemma holds_same:
  assumes "holds U m base f" and "same_words U n base m m'"
  shows "holds U m' base (f |` {..<n})"
  using assms by (auto simp: holds_def same_words_def restrict_map_def split: if_splits)

lemma rt_sigreturn_back:
  assumes h: "holds U (umem (proc t)) frame g" and "regs (proc t) 29 = frame" and uc: "g 160 \<noteq> None" "g 164 \<noteq> None" "g 168 \<noteq> None" and st: "bit st 31"
    and r: "sigreturn_from U junk frame 784 (frame + of_nat (176 + 592)) (frame + of_nat 176) t = Some (t', True)" and m: "umem (proc t') = umem (proc t)"
  shows "sys_rt_sigreturn U junk st t = Some (t', True)"
proof -
  have "copy_from_user U (umem (proc t')) (frame + 152 + 8) 3 \<noteq> None"
    using holds_load [OF h, of 160] holds_load [OF h, of 164] holds_load [OF h, of 168] uc unfolding m by (auto simp: eval_nat_numeral ac_simps)
  moreover have "\<not> access_ok st 12" using high_not_ok [OF st] .
  then have "fst (do_sigaltstack U st 0 sp t') = t'" for sp by (simp add: do_sigaltstack_def)
  ultimately show ?thesis using r assms(2) by (simp add: sys_rt_sigreturn_def Let_def)
qed

end

end
