(* ===== verification/Signal_Return.thy ===== *)
theory Signal_Return
  imports Signal_Frames
begin

text \<open>
  The signal code as a whole: a handler gets its arguments and its way back, its return restores the interrupted task,
  also in the middle of an emulated delay slot, and the contexts on which the return kills the kernel.
\<close>

section \<open>From the signal to the handler and back\<close>

definition uses_siginfo :: "k_sigaction \<Rightarrow> bool" where
  "uses_siginfo ka \<longleftrightarrow> sa_flags ka AND SA_SIGINFO \<noteq> 0"

definition frame_bytes :: "k_sigaction \<Rightarrow> nat" where
  "frame_bytes ka = (if uses_siginfo ka then 784 else 632)"

definition context_at :: "k_sigaction \<Rightarrow> nat" where
  "context_at ka = (if uses_siginfo ka then 176 else 24)"

text \<open>The system call in the trampoline of the frame.\<close>

definition return_nr :: "k_sigaction \<Rightarrow> u32" where
  "return_nr ka = (if uses_siginfo ka then NR_rt_sigreturn else NR_sigreturn)"

definition return_call :: "'m user_ops \<Rightarrow> u32 \<Rightarrow> u32 \<Rightarrow> k_sigaction \<Rightarrow> 'm task \<Rightarrow> ('m task \<times> bool) option" where
  "return_call U junk st ka t = (if uses_siginfo ka then sys_rt_sigreturn U junk st t else sys_sigreturn U junk t)"

lemma and_not7: "(x AND NOT 7) AND 7 = (0 :: u32)"
  by (simp add: and.assoc)


text \<open>The task as the handler interrupts it: a system call that was waiting has been made to fail or to be repeated.\<close>

definition interrupted :: "k_sigaction \<Rightarrow> 'm task \<Rightarrow> 'm task" where
  "interrupted ka s = s\<lparr>proc := restart_call ka (proc s)\<rparr>"

lemma interrupted_same [simp]: "umem (proc (interrupted ka s)) = umem (proc s)" "regs (proc (interrupted ka s)) 29 = regs (proc s) 29"
  "cpu_has_dsp (proc (interrupted ka s)) = cpu_has_dsp (proc s)" "cpu_has_fpu (interrupted ka s) = cpu_has_fpu s"
  "used_math (interrupted ka s) = used_math s" "fp_view (interrupted ka s) = fp_view s"
  by (auto simp: interrupted_def restart_call_def Let_def fp_view_def is_fpu_owner_def fun_eq_iff)

lemma set_blocked_same [simp]: "proc (set_blocked ss s) = proc s" "cpu_has_fpu (set_blocked ss s) = cpu_has_fpu s"
  by (simp_all add: set_blocked_def recalc_sigpending_def)

lemma sigframe_aligned: "get_sigframe ka n s AND 7 = 0"
  unfolding get_sigframe_def Let_def by (rule and_not7)

context user_memory
begin

lemma handled:
  assumes d: "handle_signal U sig info ka oldset s = Some (s1, 0)" and frame: "frame = get_sigframe ka (of_nat (frame_bytes ka)) (interrupted ka s)"
    and h: "holds U (umem (proc s)) frame f"
  shows "access_ok frame (of_nat (frame_bytes ka)) \<and>
    (\<exists>g. holds U (umem (proc s1)) frame g \<and> built U frame (context_at ka) (return_nr ka) oldset f (interrupted ka s) g \<and>
      (uses_siginfo ka \<longrightarrow> g 160 \<noteq> None \<and> g 164 \<noteq> None \<and> g 168 \<noteq> None)) \<and>
    (\<exists>a1 a2 s2. entered ka sig a1 a2 frame (interrupted ka s) s2 \<and> proc s1 = proc s2 \<and>
      blocked s1 = (if sa_flags ka AND SA_NODEFER = 0 then sigaddset (sigorsets (blocked s2) (sa_mask ka)) sig else sigorsets (blocked s2) (sa_mask ka)))"
proof (cases "uses_siginfo ka")
  case True
  obtain s2 where s2: "setup_rt_frame U ka sig oldset info (interrupted ka s) = Some (s2, 0)"
    "s1 = set_blocked (if sa_flags ka AND SA_NODEFER = 0 then sigaddset (sigorsets (blocked s2) (sa_mask ka)) sig else sigorsets (blocked s2) (sa_mask ka)) s2"
    using d True by (auto simp: handle_signal_def uses_siginfo_def interrupted_def [symmetric] Let_def)
  show ?thesis using setup_rt_frame_built [OF _ _ s2(1), of frame f] h frame True s2(2)
    by (simp add: frame_bytes_def context_at_def return_nr_def set_blocked_def recalc_sigpending_def) blast
next
  case False
  obtain s2 where s2: "setup_frame U ka sig oldset (interrupted ka s) = Some (s2, 0)"
    "s1 = set_blocked (if sa_flags ka AND SA_NODEFER = 0 then sigaddset (sigorsets (blocked s2) (sa_mask ka)) sig else sigorsets (blocked s2) (sa_mask ka)) s2"
    using d False by (auto simp: handle_signal_def uses_siginfo_def interrupted_def [symmetric] Let_def)
  show ?thesis using setup_frame_built [OF _ _ s2(1), of frame f] h frame False s2(2)
    by (simp add: frame_bytes_def context_at_def return_nr_def set_blocked_def recalc_sigpending_def) blast
qed

lemma returned:
  assumes d: "handle_signal U sig info ka oldset s = Some (s1, 0)" and frame: "frame = get_sigframe ka (of_nat (frame_bytes ka)) (interrupted ka s)"
    and h: "holds U (umem (proc s)) frame f" and sp: "regs (proc t) 29 = frame" and mem: "same_words U n frame (umem (proc s1)) (umem (proc t))"
    and n: "frame_bytes ka \<le> n" and has: "cpu_has_fpu t = cpu_has_fpu s" "cpu_has_dsp (proc t) = cpu_has_dsp (proc s)"
    and csr: "used_math s \<and> cpu_has_fpu s \<longrightarrow> \<not> ctc_traps (snd (fp_view s))" and st: "bit st 31"
  shows "\<exists>t' g. return_call U junk st ka t = Some (t', True) \<and> restored (interrupted ka s) t' \<and> blocked t' = sigdelsetmask oldset (NOT BLOCKABLE) \<and>
    holds U (umem (proc t')) frame g \<and> (\<forall>j. frame_bytes ka \<le> j \<and> j < n \<longrightarrow> g j = f j)"
proof -
  let ?k = "context_at ka"
  have k: "8 dvd ?k" "?k + 608 = frame_bytes ka" by (simp_all add: context_at_def frame_bytes_def)
  obtain g where g: "holds U (umem (proc s1)) frame g" "built U frame ?k (return_nr ka) oldset f (interrupted ka s) g"
    "uses_siginfo ka \<longrightarrow> g 160 \<noteq> None \<and> g 164 \<noteq> None \<and> g 168 \<noteq> None" "access_ok frame (of_nat (frame_bytes ka))"
    using handled [OF d frame h] by blast
  let ?g = "g |` {..<n}"
  have r: "?g j = g j" if "j < frame_bytes ka" for j using that n by simp
  have h': "holds U (umem (proc t)) frame ?g" using g(1) mem by (rule holds_same)
  have c: "context_in ?g ?k (interrupted ka s)" using g(2) context_in_cong [of ?k ?g g "interrupted ka s"] r k(2) by (simp add: built_def)
  have m: "mask_in ?g (?k + 592) oldset" using g(2) r k(2) by (auto simp: built_def mask_in_def)
  have al: "frame AND 7 = 0" unfolding frame by (rule sigframe_aligned)
  obtain t' where t': "sigreturn_from U junk frame (of_nat (frame_bytes ka)) (frame + of_nat (?k + 592)) (frame + of_nat ?k) t = Some (t', True)"
    "restored (interrupted ka s) t'" "blocked t' = sigdelsetmask oldset (NOT BLOCKABLE)" "umem (proc t') = umem (proc t)"
    using sigreturn_back [OF h' c m g(4) al k(1), of junk] has csr by auto
  have "return_call U junk st ka t = Some (t', True)"
  proof (cases "uses_siginfo ka")
    case True
    have "sys_rt_sigreturn U junk st t = Some (t', True)"
      by (rule rt_sigreturn_back [OF h' sp]) (use t'(1,4) st g(3) n True in \<open>simp_all add: context_at_def frame_bytes_def\<close>)
    then show ?thesis using True by (simp add: return_call_def)
  qed (use t'(1) sp in \<open>simp add: return_call_def sys_sigreturn_def context_at_def frame_bytes_def Let_def\<close>)
  moreover have "?g j = f j" if "frame_bytes ka \<le> j" "j < n" for j using that g(2) k(2) by (simp add: built_def)
  ultimately show ?thesis using t'(2-4) h' by auto
qed

end

text \<open>
  An example for the witnesses: a process whose delay slot instruction \<^verbatim>\<open>addiu t0, t0, 1\<close> is about to run on its stack, with the
  whole user address range mapped, and a handler at \<open>0x400100\<close>.
\<close>

definition demo_proc :: "(u32 \<rightharpoonup> u32) emu" where
  "demo_proc = (start 0x400000 (\<lambda>a. if a < 0x80000000 then Some 0 else None))\<lparr>regs := (\<lambda>r. ucast r)(29 := 0x7fff8000)\<rparr>"

definition demo_task :: "(u32 \<rightharpoonup> u32) task" where
  "demo_task = task_start (fst (mips_dsemul word_ops 0x25080001 0x400010 demo_proc))"

definition demo_action :: k_sigaction where
  "demo_action = \<lparr>sa_flags = 0, sa_handler = 0x400100, sa_mask = (\<lambda>w. 0)\<rparr>"

definition demo_handled :: "(u32 \<rightharpoonup> u32) task" where
  "demo_handled = fst (the (handle_signal word_ops 2 (\<lambda>i. 0) demo_action (\<lambda>w. 0) demo_task))"

text \<open>The handler clears the other registers and comes to its return.\<close>

definition demo_return :: "(u32 \<rightharpoonup> u32) task" where
  "demo_return = task_start (demo_proc\<lparr>regs := (\<lambda>r. 0)(29 := regs (proc demo_handled) 29), umem := umem (proc demo_handled)\<rparr>)"

lemma demo_delivered: "handle_signal word_ops 2 (\<lambda>i. 0) demo_action (\<lambda>w. 0) demo_task = Some (demo_handled, 0)"
proof -
  have "map_option snd (handle_signal word_ops 2 (\<lambda>i. 0) demo_action (\<lambda>w. 0) demo_task) = Some 0" by code_simp
  then show ?thesis by (auto simp: demo_handled_def)
qed

lemma demo_hypotheses:
  "regs (proc demo_return) 29 = regs (proc demo_handled) 29"
  "same_words word_ops n (regs (proc demo_handled) 29) (umem (proc demo_handled)) (umem (proc demo_return))"
  "cpu_has_fpu demo_return = cpu_has_fpu demo_task" "cpu_has_dsp (proc demo_return) = cpu_has_dsp (proc demo_task)"
  "used_math demo_task \<and> cpu_has_fpu demo_task \<longrightarrow> \<not> ctc_traps (snd (fp_view demo_task))" "bit (0x80001000 :: u32) 31"
  "regs (proc demo_task) 0 = 0" "regs (proc demo_task) 3 = 3" "regs (proc demo_task) 29 = regs demo_proc 29" "sa_flags demo_action AND SA_ONSTACK = 0"
  by (simp_all add: demo_return_def same_words_def task_start_def, code_simp+)

text \<open>
  C23. A signal handler is transparent to the program it interrupts: when the kernel has built the frame and the handler returns with the
  stack pointer and the words of the frame as it got them, the return system call in the trampoline restores all general registers, the program counter,
  the multiply and DSP registers, the floating point context and the signal mask (without \<^verbatim>\<open>SIGKILL\<close> and \<^verbatim>\<open>SIGSTOP\<close>), whatever the
  handler did with them. A system call that was waiting has then failed or is repeated.
\<close>

theorem signal_return:
  assumes "user_memory U" and "handle_signal U sig info ka oldset s = Some (s1, 0)" and "regs (proc t) 29 = regs (proc s1) 29"
    and "same_words U (frame_bytes ka) (regs (proc s1) 29) (umem (proc s1)) (umem (proc t))"
    and "cpu_has_fpu t = cpu_has_fpu s" and "cpu_has_dsp (proc t) = cpu_has_dsp (proc s)"
    and "used_math s \<and> cpu_has_fpu s \<longrightarrow> \<not> ctc_traps (snd (fp_view s))" and "bit st 31"
  shows "\<exists>t'. return_call U junk st ka t = Some (t', True) \<and> restored (interrupted ka s) t' \<and> blocked t' = sigdelsetmask oldset (NOT BLOCKABLE)"
proof -
  let ?frame = "get_sigframe ka (of_nat (frame_bytes ka)) (interrupted ka s)"
  have "regs (proc s1) 29 = ?frame"
    using user_memory.handled [OF assms(1,2) refl user_memory.holds_empty [OF assms(1)]] by (auto simp: entered_def)
  then show ?thesis using user_memory.returned [OF assms(1,2) refl user_memory.holds_empty [OF assms(1)] _ _ order_refl assms(5-8), of junk] assms(3,4) by auto
qed

theorem signal_return_witness:
  "\<exists>t'. return_call word_ops 0 0x80001000 demo_action demo_return = Some (t', True) \<and> regs (proc t') 3 = 3"
proof -
  have "regs (proc (interrupted demo_action demo_task)) 3 = 3" by code_simp
  then show ?thesis
    using signal_return [OF wm.user_memory_axioms demo_delivered demo_hypotheses(1-6), of 0] by (auto simp: restored_def)
qed

lemma sigadd_member: "sigismember (sigaddset ss sig) sig"
proof -
  let ?n = "unat (sig - 1) mod 32"
  have "bit (1 AND drop_bit ?n (x OR push_bit ?n 1) :: u32) 0" for x by (simp add: bit_simps)
  then have "1 AND drop_bit ?n (x OR push_bit ?n 1) \<noteq> (0 :: u32)" for x by (metis bit_0_eq bot_apply bot_bool_def)
  then show ?thesis by (simp add: sigismember_def sigaddset_def Let_def)
qed

text \<open>
  C39. How a handler starts: its frame is aligned and in user space, the program counter and register 25 point at it, it gets the signal number, and its return
  address is the trampoline in the frame, whose two words load the number of the return system call and execute it (when
  the trampoline could be written: nobody looks at the result). The signal is blocked unless the action says \<^verbatim>\<open>SA_NODEFER\<close>, and registers that carry no
  argument are those of the interrupted program.
\<close>

theorem handler_entry:
  assumes "user_memory U" and "handle_signal U sig info ka oldset s = Some (s1, 0)" and "frame = regs (proc s1) 29"
    and "\<not> snd (install_sigtramp U (frame + 16) (return_nr ka) (umem (proc s)))"
  shows "frame AND 7 = 0 \<and> access_ok frame (of_nat (frame_bytes ka)) \<and> cp0_epc (proc s1) = sa_handler ka \<and> regs (proc s1) 25 = sa_handler ka \<and>
    regs (proc s1) 4 = sig \<and> regs (proc s1) 31 = frame + 16 \<and>
    uload U (umem (proc s1)) (frame + 16) = Some (0x24020000 + return_nr ka) \<and> uload U (umem (proc s1)) (frame + 20) = Some 0x0000000c \<and>
    (sa_flags ka AND SA_NODEFER = 0 \<longrightarrow> sigismember (blocked s1) sig) \<and>
    (\<forall>r. r \<notin> {0, 2, 4, 5, 6, 7, 25, 29, 31} \<longrightarrow> regs (proc s1) r = regs (proc s) r)"
proof -
  let ?frame = "get_sigframe ka (of_nat (frame_bytes ka)) (interrupted ka s)"
  note h = user_memory.handled [OF assms(1,2) refl user_memory.holds_empty [OF assms(1)]]
  have frame: "frame = ?frame" using h assms(3) by (auto simp: entered_def)
  obtain g where g: "user_memory U" "holds U (umem (proc s1)) ?frame g" "built U ?frame (context_at ka) (return_nr ka) oldset Map.empty (interrupted ka s) g" using h assms(1) by blast
  have "g 16 = Some (0x24020000 + return_nr ka)" "g 20 = Some 0xc" using g(3) assms(4) unfolding frame by (simp_all add: built_def)
  then have "uload U (umem (proc s1)) (frame + 16) = Some (0x24020000 + return_nr ka)" "uload U (umem (proc s1)) (frame + 20) = Some 0xc"
    using user_memory.holds_load [OF g(1,2), of 16] user_memory.holds_load [OF g(1,2), of 20] unfolding frame by simp_all
  moreover have "regs (proc (interrupted ka s)) r = regs (proc s) r" if "r \<notin> {0, 2, 4, 5, 6, 7, 25, 29, 31}" for r
    using that by (simp add: interrupted_def restart_call_def Let_def)
  ultimately show ?thesis using h sigframe_aligned [of ka _ "interrupted ka s"] sigadd_member unfolding frame by (auto simp: entered_def)
qed

theorem handler_entry_witness:
  "cp0_epc (proc demo_handled) = 0x400100 \<and> uload word_ops (umem (proc demo_handled)) (regs (proc demo_handled) 31) = Some 0x24021017"
proof -
  let ?f = "regs (proc demo_handled) 29"
  have f: "?f = get_sigframe demo_action (of_nat (frame_bytes demo_action)) (interrupted demo_action demo_task)"
    using wm.handled [OF demo_delivered refl wm.holds_empty] by (auto simp: entered_def)
  have t: "\<not> snd (install_sigtramp word_ops (?f + 16) (return_nr demo_action) (umem (proc demo_task)))" unfolding f by code_simp
  have r: "0x24020000 + return_nr demo_action = 0x24021017" "sa_handler demo_action = 0x400100" by code_simp+
  show ?thesis using handler_entry [OF wm.user_memory_axioms demo_delivered refl t] unfolding r by auto
qed

section \<open>A signal in an emulated delay slot\<close>


context user_memory
begin

lemma slot_words:
  assumes "mips_dsemul U i cpc p = (p1, SIGILL)" and "i \<noteq> 0" and "cp0_epc p1 = base + of_nat k" and "4 dvd k" and "k + 16 \<le> 1000"
  shows "holds U (umem p1) base [k \<mapsto> i, k + 4 \<mapsto> BADINST, k + 8 \<mapsto> BD_COOKIE, k + 12 \<mapsto> cpc] \<and> access_ok (cp0_epc p1) 16"
proof -
  define fr where "fr = (regs p 29 - 16) AND NOT 7"
  have ok: "access_ok fr 16" using assms by (auto simp: mips_dsemul_def fr_def Let_def split: if_splits prod.splits)
  obtain m' where m': "or_put U (fr + 12) cpc (or_put U (fr + 8) BD_COOKIE (or_put U (fr + 4) BADINST (or_put U fr i (umem p, False)))) = (m', False)"
    "p1 = p\<lparr>umem := m', cp0_epc := fr\<rparr>"
    using assms ok by (auto simp: mips_dsemul_def fr_def Let_def split: if_splits prod.splits)
  have fr: "fr = base + of_nat k" using assms(3) m'(2) by simp
  note l = frame_loads [OF m'(1)]
  have "4 dvd j \<and> j < 1000 \<and> uload U (umem p1) (base + of_nat j) = Some v"
    if v: "[k \<mapsto> i, k + 4 \<mapsto> BADINST, k + 8 \<mapsto> BD_COOKIE, k + 12 \<mapsto> cpc] j = Some v" for j v
  proof -
    consider "j = k" "v = i" | "j = k + 4" "v = BADINST" | "j = k + 8" "v = BD_COOKIE" | "j = k + 12" "v = cpc"
      using v by (auto split: if_splits)
    then show ?thesis using l assms(4,5) m'(2) unfolding fr by cases (simp_all add: ac_simps)
  qed
  then show ?thesis using ok m'(2) by (simp add: holds_def)
qed

end



section \<open>Contexts that kill the kernel\<close>

text \<open>An unaligned double word access and a floating point exception are fatal in kernel mode.\<close>

lemma dsemulret_status: "cp0_status (fst (do_dsemulret U p)) = cp0_status p"
  by (simp add: do_dsemulret_def force_sig_def Let_def split: option.split)

lemma kernel_ldc1_dies:
  assumes "\<not> user_mode (proc s)" and "do_dsemulret U (proc s) = (p, 0)"
    and "uload U (umem p) (exception_epc p) = Some insn" and "MIPSInst_OPCODE insn = ldc1_op \<or> MIPSInst_OPCODE insn = sdc1_op"
  shows "do_ade U extable junk s = None"
proof -
  have k: "\<not> user_mode p" using assms(1) dsemulret_status [of U "proc s"] assms(2) by (simp add: user_mode_def)
  then have "ade_sigbus (s\<lparr>proc := p\<rparr>) = None" by (simp add: ade_sigbus_def die_if_kernel_def)
  moreover have ls: "ls_insn U junk seg a insn q = (q, Label_sigbus)" for seg a q using assms(4) by (elim disjE) (simp_all add: ls_insn_def Let_def)
  have "emulate_load_store_insn U extable junk seg a (exception_epc p) (s\<lparr>proc := p\<rparr>) = None" for seg a
    using assms(3) k by (simp add: emulate_load_store_insn_def ls set_reg_def die_if_kernel_def user_mode_def)
  ultimately show ?thesis using assms(2) by (simp add: do_ade_def Let_def)
qed

lemma kernel_fpe_dies: "\<not> user_mode (proc s) \<Longrightarrow> do_fpe U csr s = None"
  by (simp add: do_fpe_def die_if_kernel_def)

text \<open>
  A process can make its frame such that the return meets one of the two: with a frame at an address that is no multiple of 8, or with a
  control register whose cause bits are enabled.
\<close>

lemma restore_fp_dies:
  assumes "cpu_has_fpu s" and "uload U (umem (proc s)) (sc_fpc_csr sc) = Some csr"
    and "sc_fpregs sc 0 AND 7 \<noteq> 0 \<or> ctc_traps csr \<and> (\<forall>i \<in> set even_regs. uload64 U (umem (proc s)) (sc_fpregs sc i) \<noteq> None)"
  shows "restore_fp_context U junk sc (own_fpu s) = None"
proof -
  let ?m = "umem (proc s)"
  have ok: "snd (fold (hw_restore_fpr U sc ?m) xs (f, False)) = False" if "\<forall>i \<in> set xs. uload64 U ?m (sc_fpregs sc i) \<noteq> None" for xs f
    using that by (induction xs arbitrary: f) (auto simp: hw_restore_fpr_def)
  obtain f err where f: "fold (hw_restore_fpr U sc ?m) even_regs (hw_fpr s, False) = (f, err)" by fastforce
  have "restore_fp_context U junk sc (own_fpu s) = hw_restore_fp_context U sc (own_fpu s)" using assms(1) by (simp add: restore_fp_context_def own_fpu_def)
  also have "\<dots> = (if sc_fpregs sc 0 AND 7 \<noteq> 0 then None else if err then Some ((own_fpu s)\<lparr>hw_fpr := f\<rparr>, True)
      else if ctc_traps csr then None else Some (set_hw_csr csr ((own_fpu s)\<lparr>hw_fpr := f\<rparr>), False))"
    using assms(1,2) f by (simp add: hw_restore_fp_context_def own_fpu_def)
  finally show ?thesis using assms(3) ok [of even_regs "hw_fpr s"] f by auto
qed

lemma restore_dsp_keeps:
  assumes "restore_dsp U junk sc s = (t, err)"
  shows "umem (proc t) = umem (proc s) \<and> cpu_has_fpu t = cpu_has_fpu s"
  using assms by (auto simp: restore_dsp_def wrdsp_def simp del: fold_simps upt_rec_numeral split: if_splits prod.splits)

lemma restore_dies:
  assumes "cpu_has_fpu s" and "uload U (umem (proc s)) (sc_used_math sc) = Some u" and "u \<noteq> 0" and "uload U (umem (proc s)) (sc_fpc_csr sc) = Some csr"
    and "sc_fpregs sc 0 AND 7 \<noteq> 0 \<or> ctc_traps csr \<and> (\<forall>i \<in> set even_regs. uload64 U (umem (proc s)) (sc_fpregs sc i) \<noteq> None)"
  shows "restore_sigcontext U junk sc s = None"
proof -
  let ?m = "umem (proc s)"
  obtain epc e1 where v1: "get_long U ?m (sc_pc sc) = (epc, e1)" by fastforce
  obtain h e2 where v2: "get_long U ?m (sc_mdhi sc) = (h, e2)" by fastforce
  obtain l e3 where v3: "get_long U ?m (sc_mdlo sc) = (l, e3)" by fastforce
  obtain s4 e4 where v4: "restore_dsp U junk sc (s\<lparr>no_restart := True, proc := (proc s)\<lparr>cp0_epc := epc\<rparr>, hi := h, lo := l\<rparr>) = (s4, e4)" by fastforce
  obtain r e5 where v5: "fold (restore_gp_reg U sc ?m) [1..<32] (regs (proc s4), False) = (r, e5)" by fastforce
  have v6: "get_int U junk ?m (sc_used_math sc) = (u, False)" using assms(2) by (simp add: get_int_def)
  let ?s5 = "s4\<lparr>proc := (proc s4)\<lparr>regs := r\<rparr>, used_math := True\<rparr>"
  have "umem (proc ?s5) = ?m" "cpu_has_fpu ?s5" using restore_dsp_keeps [OF v4] assms(1) by simp_all
  then have "restore_fp_context U junk sc (own_fpu ?s5) = None" using restore_fp_dies [of ?s5 U sc csr junk] assms(4,5) by simp
  then show ?thesis using assms(3) unfolding restore_sigcontext_def Let_def v1 v2 v3 v4 v5 v6 prod.case by simp
qed

lemma sigreturn_dies:
  assumes "cpu_has_fpu t" and "frame = regs (proc t) 29" and "access_ok frame 632" and "get_sigset U (umem (proc t)) (frame + 616) \<noteq> None"
    and "uload U (umem (proc t)) (sc_used_math (frame + 24)) = Some u" and "u \<noteq> 0" and "uload U (umem (proc t)) (sc_fpc_csr (frame + 24)) = Some csr"
    and "sc_fpregs (frame + 24) 0 AND 7 \<noteq> 0 \<or> ctc_traps csr \<and> (\<forall>i \<in> set even_regs. uload64 U (umem (proc t)) (sc_fpregs (frame + 24) i) \<noteq> None)"
  shows "sys_sigreturn U junk t = None"
proof -
  obtain ss where ss: "get_sigset U (umem (proc t)) (frame + 616) = Some ss" using assms(4) by blast
  let ?t = "set_blocked (sigdelsetmask ss (NOT BLOCKABLE)) t"
  have "restore_sigcontext U junk (frame + 24) ?t = None"
    using restore_dies [of ?t U "frame + 24" u csr junk] assms by (simp add: set_blocked_def recalc_sigpending_def)
  then show ?thesis using assms(2,3) ss by (simp add: sys_sigreturn_def sigreturn_from_def Let_def)
qed

text \<open>The alternate stack is not restored: the kernel address handed to \<^verbatim>\<open>do_sigaltstack\<close> fails its check.\<close>

lemma rt_sigreturn_altstack:
  assumes "bit st 31"
  shows "do_sigaltstack U st 0 sp s = (s, - EFAULT)"
proof -
  have "st \<noteq> 0" using assms by auto
  then show ?thesis using high_not_ok [OF assms, of 12] by (simp add: do_sigaltstack_def)
qed

end
