(* ===== verification/Spec2Isabelle.thy ===== *)
theory Spec2Isabelle
  imports Emu_Slots Signal_Return
begin

text \<open>
  Verification of the MIPS floating point emulator of the Linux 2.6 kernel in this distribution.

  \<^bold>\<open>The program.\<close> On a processor without a floating point unit every coprocessor 1 instruction traps.
  \<^verbatim>\<open>arch/mips/math-emu/cp1emu.c\<close> fetches it from user memory, decodes it, executes it on the register
  file in the thread structure and moves the program counter. The arithmetic is a software implementation
  of IEEE 754 (\<^verbatim>\<open>sp_*.c\<close>, \<^verbatim>\<open>dp_*.c\<close>, \<^verbatim>\<open>ieee754*.c\<close>), whose control register is the word \<^verbatim>\<open>fcr31\<close> itself. An instruction in
  the delay slot of a branch needs the outcome of the branch, from \<^verbatim>\<open>arch/mips/kernel/branch.c\<close>; an ordinary
  instruction in the delay slot of a floating point branch runs from a frame on the user stack
  (\<^verbatim>\<open>dsemul.c\<close>), and the address error at the end of the frame is taken by \<^verbatim>\<open>arch/mips/kernel/unaligned.c\<close>, which
  otherwise executes unaligned loads and stores; \<^verbatim>\<open>kernel_linkage.c\<close> initialises the context and moves it to and from signal
  frames, which \<^verbatim>\<open>arch/mips/kernel/signal.c\<close> builds on the same stack. \<^verbatim>\<open>arch/mips/kernel/traps.c\<close> has the exception handlers that call all this. All
  paths below are relative to \<^verbatim>\<open>src/linux-2.6.x\<close>; the headers are those of \<^verbatim>\<open>include/asm-mips\<close>. The model is the
  32 bit big endian kernel, the configuration of this distribution. The processor of this distribution has \<^verbatim>\<open>ll\<close> and \<^verbatim>\<open>sc\<close>
  (\<^verbatim>\<open>CONFIG_CPU_HAS_LLSC\<close>, \<^verbatim>\<open>cpu_has_llsc\<close> is 1) and no DSP unit; what the same sources do for processors that differ in this is modelled
  too, with the option and the features as fields of the state.

  \<^bold>\<open>Foundations.\<close> \<open>Prelude\<close> has word types and lemmas on words, shifts and powers of two. \<open>Rounding\<close> is the
  reference: rounding of a real number to a format in the four modes (\<open>fround\<close>), with overflow, tininess and
  inexactness, and the lemmas that rounding depends only on guard, round and sticky bits. It does not mention the
  code. \<open>Ieee754\<close> is the control register with \<^verbatim>\<open>SETCX\<close>, \<^verbatim>\<open>CLEARCX\<close> and its layout in \<^verbatim>\<open>fcr31\<close>.

  \<^bold>\<open>Arithmetic.\<close> The C code has every routine twice, for 32 and 64 bits. \<open>Softfloat\<close>, \<open>Fp_Word\<close>, \<open>Fp_Encoding\<close>,
  \<open>Fp_Add\<close>, \<open>Fp_Mul\<close>, \<open>Fp_Div\<close>, \<open>Fp_Conv\<close> and \<open>Fp_Exact\<close> hold what the two have in common: the shared steps of the
  code (sticky shift, normalisation, rounding) at any word length, and in the locales \<open>fp_word\<close> and \<open>fp_encoding\<close>, over the parameters of a
  format, the lemmas on encodings and on the finite cases. \<open>Ieee754sp\<close> and \<open>Ieee754dp\<close> model \<^verbatim>\<open>ieee754sp.c/.h\<close> and
  \<^verbatim>\<open>ieee754dp.c/.h\<close> and interpret the locales as \<open>sp\<close> and \<open>dp\<close>. Then come \<open>Sp_Arith\<close>, \<open>Dp_Arith\<close> (add, sub, mul, div),
  \<open>Sp_Cmp\<close>, \<open>Dp_Cmp\<close> (cmp, neg, abs), \<open>Sp_Conv\<close>, \<open>Dp_Conv\<close> (integers), \<open>Sp_Math\<close>, \<open>Dp_Math\<close> (square root,
  frexp, logb, modf, scalb, floor, ceil, trunc) and \<open>Sp_Dp\<close> (between the precisions), one definition per C function, with the function's name. An
  operation takes the control register first and returns it with its result. The theorems say that the result is
  the exact real value rounded in the current mode and that the register has exactly the flags of the reference: C1 to
  C8 for the basic operations, C28 for the single precision square root, C29 to C36 for conversions and decompositions. For the double
  precision square root, a Newton iteration, only errors and control register are covered (C35).
  Hypotheses \<open>csr_nod c = 0\<close> mean that denormals are not flushed, the state after boot.

  \<^bold>\<open>Machine.\<close> \<open>Machine\<close> has the state as a record: the saved registers (\<^verbatim>\<open>struct pt_regs\<close>), the FPU context, the statistics, the
  memory of the process and the signals forced on it; further the field macros and opcodes of \<^verbatim>\<open>inst.h\<close> and
  the user access macros of \<^verbatim>\<open>uaccess.h\<close>. The load and store instructions behind those macros are a parameter
  \<open>user_ops\<close> with the laws of the locale \<open>user_memory\<close>: a load after a store delivers what was stored, and
  a store changes no word apart from its own. The interpretation \<open>wm\<close> shows that a partial map from addresses to words obeys them.
  An access that faults is \<open>None\<close>. \<open>Branch\<close> is \<^verbatim>\<open>__compute_return_epc\<close>, with a reference semantics
  written from the instruction set (\<open>mips_decode\<close>, \<open>next_pc\<close>, \<open>link_regs\<close>) of the MIPS32 jumps and branches on general registers and floating point
  conditions, which it refines (C16). The reference leaves out \<^verbatim>\<open>bc2f\<close>, \<^verbatim>\<open>bc2t\<close> and \<^verbatim>\<open>jalx\<close>, for which the code leaves the EPC where it is
  (\<open>bc2_stays\<close> and \<open>jalx_stays\<close> of \<open>Emu_Slots\<close>), and jumps that read their own link register (\<open>predictable\<close>), whose result is open. \<open>Dsemul\<close> is \<^verbatim>\<open>dsemul.c\<close>. \<open>Kernel_Linkage\<close> is
  the FPU context (C24, C40).

  \<^bold>\<open>Traps.\<close> \<open>Unaligned\<close> models \<^verbatim>\<open>do_ade\<close> and \<^verbatim>\<open>emulate_load_store_insn\<close>, with \<^verbatim>\<open>lwl\<close>, \<^verbatim>\<open>lwr\<close>, \<^verbatim>\<open>swl\<close>, \<^verbatim>\<open>swr\<close> and the byte instructions of their inline
  assembly as functions on the aligned words of user memory; the theorems see memory as bytes (C21, C22). \<open>Traps\<close> models \<^verbatim>\<open>do_ri\<close>, \<^verbatim>\<open>do_cpu\<close>, \<^verbatim>\<open>do_fpe\<close>, \<^verbatim>\<open>do_ov\<close>, \<^verbatim>\<open>do_bp\<close> and \<^verbatim>\<open>do_tr\<close> on a record that extends the trap state with
  the variables of the processor. A handler that dies delivers \<open>None\<close>. The emulated \<^verbatim>\<open>ll\<close> and \<^verbatim>\<open>sc\<close>, which are reached in kernels
  built without \<^verbatim>\<open>CONFIG_CPU_HAS_LLSC\<close>, are split into the steps between which another task can run. The step relation \<open>llsc_run\<close> interleaves these steps of
  all tasks, doing anything between, with context switches; \<open>cpu_run\<close> has the runs that take each emulation as a whole, which are among them (\<open>cpu_run_steps\<close>). C20 says
  what a store conditional that stores implies about the past, C37 is progress; \<open>sc_window\<close> shows that an update by another task can be lost between test and store.
  C25 is the agreement of hardware and thread context after \<^verbatim>\<open>do_fpe\<close>.

  \<^bold>\<open>Signals.\<close> \<open>Signals\<close> models \<^verbatim>\<open>arch/mips/kernel/signal.c\<close> and \<^verbatim>\<open>signal-common.h\<close>, the FPU context routines of \<^verbatim>\<open>r4k_fpu.S\<close> and what they use of
  \<^verbatim>\<open>kernel/signal.c\<close>, on a record \<open>task\<close> that extends the processor state with the multiply and DSP registers, signal masks, thread flags and the alternate stack.
  A kernel that dies is \<open>None\<close>, a failed user access a flag. \<open>Signal_Frames\<close> follows the stores to a frame as a
  partial map from offsets to words (\<open>holds\<close>, offsets below 1000, which covers the 784 bytes of the larger frame and a delay slot frame above it) and reads them back. \<open>Signal_Return\<close> has the
  theorems on whole deliveries: a handler leaves the program as it was (C23), also in the middle of an emulated delay slot (C27), and
  starts with its arguments and its way back (C39). Its last section shows the frames on which a return kills the kernel. The hypothesis
  \<open>ctc_traps\<close> of the theorems excludes a control register with an enabled cause bit; the trap entry clears those bits.

  \<^bold>\<open>Emulator.\<close> \<open>Cp1emu\<close> models \<^verbatim>\<open>cp1emu.c\<close> from \<^verbatim>\<open>isBranchInstr\<close> to \<^verbatim>\<open>fpu_emulator_cop1Handler\<close>; each function returns the
  state and the signal. \<^verbatim>\<open>cop1Emulate\<close> is \<open>cop1Emulate\<close> for the fetch and \<open>emul\<close> from the label \<^verbatim>\<open>emul\<close> on,
  which calls itself once for a floating point instruction in a delay slot; its termination measure is whether the state
  is in a delay slot. The handler loop is \<open>handler_loop\<close>: the code goes on while the program counter has moved
  up, so the distance to the end of the address space is its measure. No fuel is used.
  \<open>Lib_Effect\<close> shows that every library call changes only flags of the control register, \<open>Emu_Arith\<close> lifts
  that to arithmetic instructions (C12, C13), \<open>Emu_Control\<close> follows an addition through the whole handler, with and without an FPU (C9), and
  treats branches and their slots (C17, C18), \<open>Emu_Compare\<close> comparisons (C10, C11), \<open>Emu_Moves\<close> loads,
  stores and the control register (C26), \<open>Emu_Run\<close> runs of the handler (C14, C15, C38), \<open>Emu_Slots\<close> delay
  slots (C19) and, in its last section, behaviour the code hardly intends.

  \<^bold>\<open>Not modelled.\<close> The debug printing of \<^verbatim>\<open>ieee754d.c\<close> and the messages; the code for 64 bit kernels; the debug file
  system entries; \<^verbatim>\<open>cond_resched\<close> and the cache flush, which do not touch the modelled state; the other handlers of
  \<^verbatim>\<open>traps.c\<close> (bus error, machine check, watch), the exception vectors and the system call entry, which are assembly; of the signals, \<^verbatim>\<open>get_signal_to_deliver\<close> and \<^verbatim>\<open>schedule\<close>, which are
  parameters of their callers, \<^verbatim>\<open>sigaction\<close> and the queues of pending signals, which are shared between threads; the rest of the kernel, the C library and the user programs, which the emulator does
  not depend on.
\<close>

end
